(* ===== verification/Reactor_Prelude.thy ===== *)
theory Reactor_Prelude
  imports Main "HOL-Library.Word"
begin

text \<open>
  What every component of the development shares: the machine types of the C++ sources, the
  ways a C++ call can fail, the result type that carries those failures, the byte-level view
  of memory (vectors and character arrays as lists of \<^typ>\<open>char\<close>), and the generic lemmas on
  words and lists that the component proofs use through the collections declared here.
\<close>

section \<open>Collections\<close>

named_theorems result_simps \<open>rewriting of results and their sequencing\<close>
named_theorems size_simps \<open>reading size_t arithmetic as natural numbers\<close>
named_theorems frame_simps \<open>fields an operation leaves unchanged\<close>

section \<open>Machine types\<close>

text \<open>
  \<open>size_t\<close> and \<open>ssize_t\<close> are 64-bit words, the first read by \<^const>\<open>unat\<close>, the second by
  \<^const>\<open>sint\<close>; \<open>uint32_t\<close> and \<open>int32_t\<close> are 32-bit words. A \<open>char\<close> of C++ is a \<^typ>\<open>char\<close>,
  a \<open>std::string\<close> or a character array a \<^typ>\<open>string\<close>. Descriptors are \<^typ>\<open>int\<close>, and
  \<open>errno\<close> values too.
\<close>

type_synonym size_t = "64 word"
type_synonym ssize_t = "64 word"
type_synonym uint64 = "64 word"
type_synonym uint32 = "32 word"
type_synonym int32 = "32 word"
type_synonym uint16 = "16 word"
type_synonym SocketType = int
type_synonym errno = int

text \<open>\<open>PTRDIFF_MAX\<close>, the largest size \<open>std::vector<char>::resize\<close> accepts.\<close>

definition max_size :: nat where
  "max_size = 9223372036854775807"

section \<open>Failures and results\<close>

text \<open>
  A call of the sources either returns or ends in one of these ways: a failed \<open>assert\<close>
  (the build scripts do not define \<open>NDEBUG\<close>), a \<open>std::length_error\<close> thrown by a vector,
  \<open>std::abort\<close>, a \<open>std::runtime_error\<close>, or an access the language leaves undefined.
\<close>

datatype cpp_error =
    AssertionFailure
  | LengthError
  | RuntimeError
  | AbortCalled
  | UndefinedBehaviour

type_synonym 'a result = "cpp_error + 'a"

definition rbind :: "'a result \<Rightarrow> ('a \<Rightarrow> 'b result) \<Rightarrow> 'b result" where
  "rbind r f = (case r of Inl e \<Rightarrow> Inl e | Inr x \<Rightarrow> f x)"

definition cpp_assert :: "bool \<Rightarrow> unit result" where
  "cpp_assert c = (if c then Inr () else Inl AssertionFailure)"

lemma rbind_Inr [simp, result_simps]: "rbind (Inr x) f = f x"
  by (simp add: rbind_def)

lemma rbind_Inl [simp, result_simps]: "rbind (Inl e) f = Inl e"
  by (simp add: rbind_def)

lemma rbind_eq_Inr_iff [result_simps]: "rbind r f = Inr y \<longleftrightarrow> (\<exists>x. r = Inr x \<and> f x = Inr y)"
  by (cases r) auto

lemma rbind_InrE [elim?]:
  assumes "rbind r f = Inr y"
  obtains x where "r = Inr x" and "f x = Inr y"
  using assms by (auto simp: rbind_eq_Inr_iff)

lemma rbind_assoc: "rbind (rbind r f) g = rbind r (\<lambda>x. rbind (f x) g)"
  by (cases r) auto

lemma rbind_cong [fundef_cong]:
  "r = r' \<Longrightarrow> (\<And>x. r' = Inr x \<Longrightarrow> f x = g x) \<Longrightarrow> rbind r f = rbind r' g"
  by (cases r') auto

lemma cpp_assert_True [simp, result_simps]: "cpp_assert True = Inr ()"
  by (simp add: cpp_assert_def)

lemma cpp_assert_eq_Inr [simp, result_simps]: "cpp_assert c = Inr u \<longleftrightarrow> c"
  by (simp add: cpp_assert_def)

lemma cpp_assert_False [simp, result_simps]: "\<not> c \<Longrightarrow> cpp_assert c = Inl AssertionFailure"
  by (simp add: cpp_assert_def)

text \<open>Running a fallible step over a list, stopping at the first failure.\<close>

fun rfold :: "('a \<Rightarrow> 's \<Rightarrow> 's result) \<Rightarrow> 'a list \<Rightarrow> 's \<Rightarrow> 's result" where
  "rfold f [] s = Inr s"
| "rfold f (x # xs) s = rbind (f x s) (rfold f xs)"

lemma rfold_append: "rfold f (xs @ ys) s = rbind (rfold f xs s) (rfold f ys)"
proof (induction xs arbitrary: s)
  case Nil
  then show ?case by simp
next
  case (Cons x xs)
  then have "rfold f (xs @ ys) = (\<lambda>u. rbind (rfold f xs u) (rfold f ys))"
    by (rule ext)
  then show ?case by (simp add: rbind_assoc)
qed

lemma rfold_invariant:
  assumes "rfold f xs s = Inr t" and "I s"
    and "\<And>x s t. x \<in> set xs \<Longrightarrow> I s \<Longrightarrow> f x s = Inr t \<Longrightarrow> I t"
  shows "I t"
  using assms
proof (induction xs arbitrary: s)
  case Nil
  then show ?case by simp
next
  case (Cons x xs)
  from Cons.prems(1) obtain u where u: "f x s = Inr u" and t: "rfold f xs u = Inr t"
    by (auto elim: rbind_InrE)
  from Cons.prems(3) [OF _ Cons.prems(2) u] have "I u" by simp
  with t show ?case by (rule Cons.IH) (use Cons.prems(3) in auto)
qed

lemma rfold_succeeds:
  assumes "I s" and "\<And>x s. x \<in> set xs \<Longrightarrow> I s \<Longrightarrow> \<exists>t. f x s = Inr t \<and> I t"
  shows "\<exists>t. rfold f xs s = Inr t \<and> I t"
  using assms
proof (induction xs arbitrary: s)
  case Nil
  then show ?case by simp
next
  case (Cons x xs)
  from Cons.prems obtain u where "f x s = Inr u" and "I u"
    by (meson list.set_intros(1))
  moreover have "\<exists>t. rfold f xs u = Inr t \<and> I t"
    using \<open>I u\<close> Cons.prems(2) by (auto intro!: Cons.IH)
  ultimately show ?case by auto
qed

section \<open>size_t arithmetic\<close>

lemma unat_size_t_bound: "unat (x :: size_t) < 18446744073709551616"
  using unsigned_less [of x] by simp

lemma unat_of_nat_size_t [size_simps]:
  "n < 18446744073709551616 \<Longrightarrow> unat (of_nat n :: size_t) = n"
  by (simp add: unat_of_nat)

lemma unat_add_size_t [size_simps]:
  "unat a + unat b < 18446744073709551616 \<Longrightarrow> unat (a + b :: size_t) = unat a + unat b"
  by (simp add: unat_word_ariths)

lemma unat_sub_size_t [size_simps]:
  "unat b \<le> unat a \<Longrightarrow> unat (a - b :: size_t) = unat a - unat b"
  by (simp add: unat_sub word_le_nat_alt)

lemma of_nat_length_eq_0 [size_simps]:
  "n < 18446744073709551616 \<Longrightarrow> (of_nat n :: size_t) = 0 \<longleftrightarrow> n = 0"
  using unat_of_nat_size_t [of n] by (auto simp: unat_eq_zero)

lemma unat_minus_one_size_t: "unat (- 1 :: size_t) = 18446744073709551615"
  by (simp add: unsigned_minus_1_eq_mask mask_eq_exp_minus_1)

lemma sint_small_size_t:
  assumes "unat (k :: ssize_t) \<le> 9223372036854775807"
  shows "sint k = int (unat k)"
proof -
  have u: "uint k = int (unat k)" by simp
  from assms have "int (unat k) \<le> int 9223372036854775807" by (simp only: of_nat_le_iff)
  then have "uint k < 2 ^ 63" by simp
  moreover have "- (2 ^ 63) \<le> uint k"
    by (rule order_trans [OF _ uint_ge_0]) simp
  ultimately have "signed_take_bit 63 (uint k) = uint k"
    by (rule signed_take_bit_int_eq_self [rotated])
  moreover have "sint k = signed_take_bit 63 (uint k)"
    using sint_uint [of k] by simp
  ultimately show ?thesis by (simp only: u)
qed

section \<open>Ranges of a character array\<close>

text \<open>
  Reading and writing \<open>n\<close> bytes at offset \<open>i\<close> of an array: outside the array the access is
  undefined behaviour.
\<close>

definition read_range :: "nat \<Rightarrow> nat \<Rightarrow> string \<Rightarrow> string result" where
  "read_range i n arr =
     (if i + n \<le> length arr then Inr (take n (drop i arr)) else Inl UndefinedBehaviour)"

definition write_range :: "nat \<Rightarrow> string \<Rightarrow> string \<Rightarrow> string result" where
  "write_range i d arr =
     (if i + length d \<le> length arr then Inr (take i arr @ d @ drop (i + length d) arr)
      else Inl UndefinedBehaviour)"

lemma read_range_Inr [simp]: "i + n \<le> length arr \<Longrightarrow> read_range i n arr = Inr (take n (drop i arr))"
  by (simp add: read_range_def)

lemma read_range_outside [simp]: "length arr < i + n \<Longrightarrow> read_range i n arr = Inl UndefinedBehaviour"
  by (simp add: read_range_def)

lemma write_range_Inr [simp]:
  "i + length d \<le> length arr \<Longrightarrow>
   write_range i d arr = Inr (take i arr @ d @ drop (i + length d) arr)"
  by (simp add: write_range_def)

lemma length_write_range:
  "write_range i d arr = Inr arr' \<Longrightarrow> length arr' = length arr"
  by (auto simp: write_range_def split: if_splits)

section \<open>Lists\<close>

lemma take_drop_append_at:
  "r \<le> w \<Longrightarrow> w \<le> length xs \<Longrightarrow> w + length d \<le> length xs \<Longrightarrow>
   take (w + length d - r) (drop r (take w xs @ d @ drop (w + length d) xs))
     = take (w - r) (drop r xs) @ d"
  by (cases d) (auto simp: min_def drop_take)

lemma take_drop_shift:
  "k \<le> n \<Longrightarrow> take (n - k) (drop (i + k) xs) = drop k (take n (drop i xs))"
  by (simp add: drop_take add.commute)

section \<open>Prefixes of lists sorted by a key\<close>

lemma set_takeWhile_sorted:
  fixes f :: "'a \<Rightarrow> 'b :: linorder"
  assumes "sorted (map f xs)"
  shows "x \<in> set (takeWhile (\<lambda>x. f x \<le> n) xs) \<longleftrightarrow> x \<in> set xs \<and> f x \<le> n"
  using assms by (induction xs) auto

lemma sorted_map_takeWhile:
  fixes f :: "'a \<Rightarrow> 'b :: linorder"
  assumes "sorted (map f xs)"
  shows "sorted (map f (takeWhile P xs))"
  using assms by (metis map_append sorted_append takeWhile_dropWhile_id)

lemma sorted_map_filter:
  fixes f :: "'a \<Rightarrow> 'b :: linorder"
  assumes "sorted (map f xs)"
  shows "sorted (map f (filter P xs))"
  using assms by (induction xs) auto

end
