(* ===== verification/Channel.thy ===== *)
theory Channel
  imports Reactor_Prelude
begin

text \<open>
  The event channel of \<open>include/channel.h\<close> and \<open>src/channel.cpp\<close>: the descriptor, the events
  its user watches, the events the poller reported, and the four callbacks. Channels are objects
  that pollers and connections point to, so they live in a store indexed by \<open>chan_id\<close>. The
  operations that report to the owner loop (\<open>EnableReading\<close> and its kin) need the loop and are in
  the theory of the event loop; here are the parts that touch the channel only.
\<close>

unbundle bit_operations_syntax

section \<open>Event bits\<close>

text \<open>The \<open>poll\<close> constants of the two supported platforms, as their system headers define them.\<close>

datatype platform = Linux | Windows

fun POLLIN :: "platform \<Rightarrow> int32" where
  "POLLIN Linux = 0x001"
| "POLLIN Windows = 0x300"

fun POLLOUT :: "platform \<Rightarrow> int32" where
  "POLLOUT Linux = 0x004"
| "POLLOUT Windows = 0x010"

fun POLLERR :: "platform \<Rightarrow> int32" where
  "POLLERR Linux = 0x008"
| "POLLERR Windows = 0x001"

fun POLLHUP :: "platform \<Rightarrow> int32" where
  "POLLHUP Linux = 0x010"
| "POLLHUP Windows = 0x002"

definition kNoneEvent :: int32 where
  "kNoneEvent = 0"

definition kReadEvent :: "platform \<Rightarrow> int32" where
  "kReadEvent pf = POLLIN pf"

definition kWriteEvent :: "platform \<Rightarrow> int32" where
  "kWriteEvent pf = POLLOUT pf"

section \<open>The channel\<close>

type_synonym chan_id = nat
type_synonym loop_id = nat

record 'cb channel =
  m_ownerLoop :: loop_id
  m_fd :: SocketType
  m_events :: int32
  m_revents :: int32
  m_added :: bool
  m_read_callback :: "'cb option"
  m_write_callback :: "'cb option"
  m_error_callback :: "'cb option"
  m_close_callback :: "'cb option"

type_synonym 'cb channels = "chan_id \<Rightarrow> 'cb channel"

definition Channel :: "loop_id \<Rightarrow> SocketType \<Rightarrow> 'cb channel" where
  "Channel loop fd =
     \<lparr>m_ownerLoop = loop, m_fd = fd, m_events = kNoneEvent, m_revents = 0, m_added = False,
      m_read_callback = None, m_write_callback = None, m_error_callback = None,
      m_close_callback = None\<rparr>"

definition SetReadCallback :: "'cb \<Rightarrow> 'cb channel \<Rightarrow> 'cb channel" where
  "SetReadCallback cb c = c\<lparr>m_read_callback := Some cb\<rparr>"

definition SetWriteCallback :: "'cb \<Rightarrow> 'cb channel \<Rightarrow> 'cb channel" where
  "SetWriteCallback cb c = c\<lparr>m_write_callback := Some cb\<rparr>"

definition SetErrorCallback :: "'cb \<Rightarrow> 'cb channel \<Rightarrow> 'cb channel" where
  "SetErrorCallback cb c = c\<lparr>m_error_callback := Some cb\<rparr>"

definition SetCloseCallback :: "'cb \<Rightarrow> 'cb channel \<Rightarrow> 'cb channel" where
  "SetCloseCallback cb c = c\<lparr>m_close_callback := Some cb\<rparr>"

definition SetRevents :: "int32 \<Rightarrow> 'cb channel \<Rightarrow> 'cb channel" where
  "SetRevents revents c = c\<lparr>m_revents := revents\<rparr>"

definition SetAdded :: "bool \<Rightarrow> 'cb channel \<Rightarrow> 'cb channel" where
  "SetAdded added c = c\<lparr>m_added := added\<rparr>"

definition IsWriting :: "platform \<Rightarrow> 'cb channel \<Rightarrow> bool" where
  "IsWriting pf c \<longleftrightarrow> m_events c AND kWriteEvent pf \<noteq> 0"

definition IsReading :: "platform \<Rightarrow> 'cb channel \<Rightarrow> bool" where
  "IsReading pf c \<longleftrightarrow> m_events c AND kReadEvent pf \<noteq> 0"

definition HasNoEvents :: "'cb channel \<Rightarrow> bool" where
  "HasNoEvents c \<longleftrightarrow> m_events c = kNoneEvent"

text \<open>The assignments to \<open>m_events\<close> in \<open>EnableReading\<close>, \<open>DisableReading\<close> and so on.\<close>

definition events_enable :: "int32 \<Rightarrow> 'cb channel \<Rightarrow> 'cb channel" where
  "events_enable ev c = c\<lparr>m_events := m_events c OR ev\<rparr>"

definition events_disable :: "int32 \<Rightarrow> 'cb channel \<Rightarrow> 'cb channel" where
  "events_disable ev c = c\<lparr>m_events := m_events c AND NOT ev\<rparr>"

text \<open>
  \<open>HandleEvent\<close>: errors first, then hang-up, then reading, then writing. \<open>run\<close> executes a
  callback on the rest of the program's state.
\<close>

definition call :: "('cb \<Rightarrow> 'w \<Rightarrow> 'w result) \<Rightarrow> 'cb option \<Rightarrow> 'w \<Rightarrow> 'w result" where
  "call run cb w = (case cb of None \<Rightarrow> Inr w | Some f \<Rightarrow> run f w)"

definition HandleEvent ::
  "platform \<Rightarrow> ('cb \<Rightarrow> 'w \<Rightarrow> 'w result) \<Rightarrow> 'cb channel \<Rightarrow> 'w \<Rightarrow> 'w result" where
  "HandleEvent pf run c w =
     (if m_revents c AND POLLERR pf \<noteq> 0 then
        rbind (call run (m_error_callback c) w) (call run (m_close_callback c))
      else if m_revents c AND POLLHUP pf \<noteq> 0 then
        call run (m_close_callback c) w
      else
        rbind (if m_revents c AND kReadEvent pf \<noteq> 0 then call run (m_read_callback c) w else Inr w)
          (\<lambda>w. if m_revents c AND kWriteEvent pf \<noteq> 0 then call run (m_write_callback c) w else Inr w))"

section \<open>Fields the setters keep\<close>

lemma m_fd_SetAdded [simp]: "m_fd (SetAdded b c) = m_fd c"
  and m_events_SetAdded [simp]: "m_events (SetAdded b c) = m_events c"
  and m_added_SetAdded [simp]: "m_added (SetAdded b c) = b"
  by (simp_all add: SetAdded_def)

lemma m_fd_SetRevents [simp]: "m_fd (SetRevents r c) = m_fd c"
  and m_events_SetRevents [simp]: "m_events (SetRevents r c) = m_events c"
  and m_added_SetRevents [simp]: "m_added (SetRevents r c) = m_added c"
  and m_revents_SetRevents [simp]: "m_revents (SetRevents r c) = r"
  by (simp_all add: SetRevents_def)

section \<open>Event masks the users of a channel produce\<close>

definition legal_events :: "platform \<Rightarrow> int32 \<Rightarrow> bool" where
  "legal_events pf ev \<longleftrightarrow>
     ev \<in> {kNoneEvent, kReadEvent pf, kWriteEvent pf, kReadEvent pf OR kWriteEvent pf}"

lemmas event_bit_defs = kNoneEvent_def kReadEvent_def kWriteEvent_def

lemma legal_events_enable:
  "legal_events pf ev \<Longrightarrow> e \<in> {kReadEvent pf, kWriteEvent pf} \<Longrightarrow> legal_events pf (ev OR e)"
  by (cases pf) (auto simp: legal_events_def event_bit_defs)

lemma legal_events_disable:
  "legal_events pf ev \<Longrightarrow> e \<in> {kReadEvent pf, kWriteEvent pf} \<Longrightarrow> legal_events pf (ev AND NOT e)"
  by (cases pf) (auto simp: legal_events_def event_bit_defs)

lemma legal_events_none [simp]: "legal_events pf 0"
  by (simp add: legal_events_def event_bit_defs)

lemma enable_is_set:
  assumes "legal_events pf (m_events c)"
  shows "IsReading pf (events_enable (kReadEvent pf) c)"
    and "IsWriting pf (events_enable (kWriteEvent pf) c)"
    and "IsReading pf (events_enable (kWriteEvent pf) c) = IsReading pf c"
    and "IsWriting pf (events_enable (kReadEvent pf) c) = IsWriting pf c"
  using assms
  by (cases pf; auto simp: legal_events_def IsReading_def IsWriting_def events_enable_def event_bit_defs)+

lemma disable_is_cleared:
  assumes "legal_events pf (m_events c)"
  shows "\<not> IsReading pf (events_disable (kReadEvent pf) c)"
    and "\<not> IsWriting pf (events_disable (kWriteEvent pf) c)"
    and "IsReading pf (events_disable (kWriteEvent pf) c) = IsReading pf c"
    and "IsWriting pf (events_disable (kReadEvent pf) c) = IsWriting pf c"
  using assms
  by (cases pf; auto simp: legal_events_def IsReading_def IsWriting_def events_disable_def event_bit_defs)+

section \<open>Which callbacks an event runs\<close>

text \<open>The order of dispatch as a list, for the statement of what \<open>HandleEvent\<close> does.\<close>

definition dispatch_order :: "platform \<Rightarrow> 'cb channel \<Rightarrow> 'cb option list" where
  "dispatch_order pf c =
     (if m_revents c AND POLLERR pf \<noteq> 0 then [m_error_callback c, m_close_callback c]
      else if m_revents c AND POLLHUP pf \<noteq> 0 then [m_close_callback c]
      else (if m_revents c AND kReadEvent pf \<noteq> 0 then [m_read_callback c] else [])
         @ (if m_revents c AND kWriteEvent pf \<noteq> 0 then [m_write_callback c] else []))"

lemma HandleEvent_dispatch: "HandleEvent pf run c w = rfold (call run) (dispatch_order pf c) w"
  by (auto simp: HandleEvent_def dispatch_order_def rbind_def split: sum.splits)

end
