(* ===== verification/Poller.thy ===== *)
theory Poller
  imports Channel
begin

text \<open>
  The interface of \<open>include/poller.h\<close>: what the event loop and the channels rely on, whichever
  multiplexer of the platform implements it. A poller's \<open>view\<close> maps each watched descriptor to
  the channel object it will report and the event mask it watches. The laws are those both
  implementations keep, in particular that an update for a descriptor that is already registered
  changes the mask but not the channel object.
\<close>

type_synonym poll_view = "SocketType \<rightharpoonup> chan_id \<times> int32"

section \<open>Agreement between channels and a poller\<close>

text \<open>
  Channels and poller agree when the channels marked as added are exactly the registered ones, each
  under its own descriptor with its current mask.
\<close>

definition in_step :: "'cb channels \<Rightarrow> poll_view \<Rightarrow> bool" where
  "in_step cs v \<longleftrightarrow>
     (\<forall>c. m_added (cs c) \<longrightarrow> v (m_fd (cs c)) = Some (c, m_events (cs c))) \<and>
     (\<forall>fd c ev. v fd = Some (c, ev) \<longrightarrow> m_fd (cs c) = fd \<and> m_added (cs c))"

text \<open>No other registered channel uses the descriptor of \<open>c\<close>.\<close>

definition owns_fd :: "'cb channels \<Rightarrow> chan_id \<Rightarrow> bool" where
  "owns_fd cs c \<longleftrightarrow> (\<forall>d. d \<noteq> c \<longrightarrow> m_added (cs d) \<longrightarrow> m_fd (cs d) \<noteq> m_fd (cs c))"

text \<open>Channels and poller agree except for the mask of \<open>c\<close>, which its user has just assigned.\<close>

definition in_step_but :: "chan_id \<Rightarrow> 'cb channels \<Rightarrow> poll_view \<Rightarrow> bool" where
  "in_step_but c cs v \<longleftrightarrow>
     (\<forall>d. m_added (cs d) \<longrightarrow> (\<exists>ev. v (m_fd (cs d)) = Some (d, ev) \<and> (d \<noteq> c \<longrightarrow> ev = m_events (cs d)))) \<and>
     (\<forall>fd d ev. v fd = Some (d, ev) \<longrightarrow> m_fd (cs d) = fd \<and> m_added (cs d))"

lemma in_step_addedD: "in_step cs v \<Longrightarrow> m_added (cs c) \<Longrightarrow> v (m_fd (cs c)) = Some (c, m_events (cs c))"
  by (simp add: in_step_def)

lemma in_step_viewD: "in_step cs v \<Longrightarrow> v fd = Some (c, ev) \<Longrightarrow> m_fd (cs c) = fd \<and> m_added (cs c)"
  by (simp add: in_step_def) blast

lemma in_step_but_viewD:
  "in_step_but c cs v \<Longrightarrow> v fd = Some (d, ev) \<Longrightarrow> m_fd (cs d) = fd \<and> m_added (cs d)"
  by (simp add: in_step_but_def) blast

lemma in_step_but_addedD:
  "in_step_but c cs v \<Longrightarrow> m_added (cs d) \<Longrightarrow>
   \<exists>ev. v (m_fd (cs d)) = Some (d, ev) \<and> (d \<noteq> c \<longrightarrow> ev = m_events (cs d))"
  by (simp add: in_step_but_def)

lemma owns_fdD: "owns_fd cs c \<Longrightarrow> m_added (cs d) \<Longrightarrow> m_fd (cs d) = m_fd (cs c) \<Longrightarrow> d = c"
  by (auto simp: owns_fd_def)

lemma in_stepI:
  assumes "\<And>c. m_added (cs c) \<Longrightarrow> v (m_fd (cs c)) = Some (c, m_events (cs c))"
    and "\<And>fd c ev. v fd = Some (c, ev) \<Longrightarrow> m_fd (cs c) = fd \<and> m_added (cs c)"
  shows "in_step cs v"
  using assms by (simp add: in_step_def)

text \<open>Replacing the registration of \<open>c\<close> brings channels and view back into agreement.\<close>

lemma in_step_register:
  assumes step: "in_step_but c cs v" and own: "owns_fd cs c"
  shows "in_step (cs(c := SetAdded b (cs c)))
    (v(m_fd (cs c) := (if b then Some (c, m_events (cs c)) else None)))"
proof (rule in_stepI, goal_cases)
  case (1 d)
  then show ?case
    using in_step_but_addedD [OF step, of d] owns_fdD [OF own, of d]
    by (cases "d = c") (auto simp: SetAdded_def)
next
  case (2 fd d ev)
  then show ?case
    using in_step_but_viewD [OF step, of fd d ev] owns_fdD [OF own, of d]
    by (cases "d = c") (auto simp: SetAdded_def split: if_splits)
qed

lemma in_step_but_owns:
  assumes "in_step_but c cs v" and "m_added (cs c)"
  shows "owns_fd cs c"
proof -
  have "d = c" if "m_added (cs d)" "m_fd (cs d) = m_fd (cs c)" for d
    using in_step_but_addedD [OF assms] in_step_but_addedD [OF assms(1) that(1)] that(2) by auto
  then show ?thesis by (auto simp: owns_fd_def)
qed

lemma in_step_set_events:
  assumes "in_step cs v"
  shows "in_step_but c (cs(c := (cs c)\<lparr>m_events := ev\<rparr>)) v"
  using assms by (auto simp: in_step_def in_step_but_def)

lemma in_step_butI: "in_step cs v \<Longrightarrow> in_step_but c cs v"
  by (auto simp: in_step_def in_step_but_def)

section \<open>The interface\<close>

locale poller =
  fixes pf :: platform
    and inv :: "'cb channels \<Rightarrow> 'p \<Rightarrow> bool"
    and view :: "'p \<Rightarrow> poll_view"
    and update :: "chan_id \<Rightarrow> 'cb channels \<times> 'p \<Rightarrow> ('cb channels \<times> 'p) result"
    and remove :: "chan_id \<Rightarrow> 'cb channels \<times> 'p \<Rightarrow> ('cb channels \<times> 'p) result"
  assumes inv_frame: "inv cs p \<Longrightarrow> (\<And>c. m_fd (cs' c) = m_fd (cs c)) \<Longrightarrow> inv cs' p"
    and remove_absent: "inv cs p \<Longrightarrow> view p (m_fd (cs c)) = None \<Longrightarrow> remove c (cs, p) = Inr (cs, p)"
    and remove_present: "inv cs p \<Longrightarrow> view p (m_fd (cs c)) = Some de \<Longrightarrow>
      \<exists>p'. remove c (cs, p) = Inr (cs(c := SetAdded False (cs c)), p')
        \<and> view p' = (view p)(m_fd (cs c) := None) \<and> inv (cs(c := SetAdded False (cs c))) p'"
    and update_none_absent: "inv cs p \<Longrightarrow> HasNoEvents (cs c) \<Longrightarrow> view p (m_fd (cs c)) = None \<Longrightarrow>
      update c (cs, p) = Inr (cs, p)"
    and update_none_present: "inv cs p \<Longrightarrow> HasNoEvents (cs c) \<Longrightarrow> view p (m_fd (cs c)) = Some de \<Longrightarrow>
      update c (cs, p) = remove c (cs, p)"
    and update_add: "inv cs p \<Longrightarrow> \<not> HasNoEvents (cs c) \<Longrightarrow> legal_events pf (m_events (cs c)) \<Longrightarrow>
      view p (m_fd (cs c)) = None \<Longrightarrow>
      \<exists>p'. update c (cs, p) = Inr (cs(c := SetAdded True (cs c)), p')
        \<and> view p' = (view p)(m_fd (cs c) \<mapsto> (c, m_events (cs c))) \<and> inv (cs(c := SetAdded True (cs c))) p'"
    and update_modify: "inv cs p \<Longrightarrow> \<not> HasNoEvents (cs c) \<Longrightarrow> legal_events pf (m_events (cs c)) \<Longrightarrow>
      view p (m_fd (cs c)) = Some (d, ev) \<Longrightarrow>
      \<exists>p'. update c (cs, p) = Inr (cs, p')
        \<and> view p' = (view p)(m_fd (cs c) \<mapsto> (d, m_events (cs c))) \<and> inv cs p'"
begin

text \<open>A channel that owns its descriptor is registered, after an update, iff it watches something.\<close>

lemma update_restores:
  assumes inv: "inv cs p" and legal: "legal_events pf (m_events (cs c))"
    and step: "in_step_but c cs (view p)" and own: "owns_fd cs c"
  shows "\<exists>p'. update c (cs, p) = Inr (cs(c := SetAdded (\<not> HasNoEvents (cs c)) (cs c)), p')
    \<and> view p' = (view p)(m_fd (cs c) :=
        (if HasNoEvents (cs c) then None else Some (c, m_events (cs c))))
    \<and> inv (cs(c := SetAdded (\<not> HasNoEvents (cs c)) (cs c))) p'
    \<and> in_step (cs(c := SetAdded (\<not> HasNoEvents (cs c)) (cs c))) (view p')"
proof -
  have same: "d = c" if "view p (m_fd (cs c)) = Some (d, ev)" for d ev
    using in_step_but_viewD [OF step that] owns_fdD [OF own] by simp
  have added: "m_added (cs c) \<longleftrightarrow> view p (m_fd (cs c)) \<noteq> None"
    using same in_step_but_addedD [OF step, of c] in_step_but_viewD [OF step, of "m_fd (cs c)"]
    by (cases "view p (m_fd (cs c))") auto
  have set_same: "cs(c := SetAdded b (cs c)) = cs" if "m_added (cs c) = b" for b
    using that by (simp add: SetAdded_def fun_eq_iff)
  let ?b = "\<not> HasNoEvents (cs c)"
  let ?v = "(view p)(m_fd (cs c) := (if HasNoEvents (cs c) then None else Some (c, m_events (cs c))))"
  have agree: "in_step (cs(c := SetAdded ?b (cs c))) ?v"
    using in_step_register [OF step own, of ?b] by (simp split: if_splits)
  consider (none) "HasNoEvents (cs c)" "view p (m_fd (cs c)) = None"
    | (drop) d ev where "HasNoEvents (cs c)" "view p (m_fd (cs c)) = Some (d, ev)"
    | (add) "\<not> HasNoEvents (cs c)" "view p (m_fd (cs c)) = None"
    | (modify) ev where "\<not> HasNoEvents (cs c)" "view p (m_fd (cs c)) = Some (c, ev)"
    using same by (metis not_None_eq surj_pair)
  then show ?thesis
  proof cases
    case none
    then have "?v = view p" by (simp add: fun_upd_idem)
    with none added set_same [of False] update_none_absent [OF inv none] inv agree show ?thesis
      by simp
  next
    case drop
    with remove_present [OF inv drop(2)] update_none_present [OF inv drop] agree show ?thesis
      by auto
  next
    case add
    with update_add [OF inv add(1) legal add(2)] agree show ?thesis by auto
  next
    case modify
    with update_modify [OF inv modify(1) legal modify(2)] added set_same [of True] agree show ?thesis
      by auto
  qed
qed

lemma remove_restores:
  assumes inv: "inv cs p" and step: "in_step cs (view p)" and added: "m_added (cs c)"
  shows "\<exists>p'. remove c (cs, p) = Inr (cs(c := SetAdded False (cs c)), p')
    \<and> inv (cs(c := SetAdded False (cs c))) p' \<and> in_step (cs(c := SetAdded False (cs c))) (view p')"
proof -
  from step added have v: "view p (m_fd (cs c)) = Some (c, m_events (cs c))"
    by (simp add: in_step_def)
  have "in_step (cs(c := SetAdded False (cs c))) ((view p)(m_fd (cs c) := None))"
    using in_step_register [of c cs "view p" False] in_step_butI [OF step, of c]
      in_step_but_owns [of c cs "view p"] added by auto
  with remove_present [OF inv v] show ?thesis by auto
qed

text \<open>
  Two channel objects on one descriptor. The second one's update is taken as a modification of
  the first one's registration: the second never becomes registered, events go to the first, and
  removing the first stops the watching of the descriptor altogether.
\<close>

lemma alias_takes_over:
  assumes inv: "inv cs p" and v: "view p (m_fd (cs c)) = Some (d, ev)" and other: "d \<noteq> c"
    and ev: "\<not> HasNoEvents (cs c)" "legal_events pf (m_events (cs c))"
    and fd: "m_fd (cs d) = m_fd (cs c)"
  shows "\<exists>p' p''. update c (cs, p) = Inr (cs, p')
    \<and> view p' (m_fd (cs c)) = Some (d, m_events (cs c))
    \<and> remove d (cs, p') = Inr (cs(d := SetAdded False (cs d)), p'')
    \<and> view p'' (m_fd (cs c)) = None"
proof -
  from update_modify [OF inv ev v] obtain p' where p': "update c (cs, p) = Inr (cs, p')"
    "view p' = (view p)(m_fd (cs c) \<mapsto> (d, m_events (cs c)))" "inv cs p'" by blast
  then have "view p' (m_fd (cs d)) = Some (d, m_events (cs c))" by (simp add: fd)
  from remove_present [OF p'(3) this] p' fd show ?thesis by auto
qed

end

section \<open>Sequences of client operations\<close>

text \<open>
  What a client of a poller does to a channel: assign its mask and report it (every \<open>Enable\<close>,
  \<open>Disable\<close> and \<open>DisableAll\<close> of a channel), or have it removed.
\<close>

datatype watch_op = Watch chan_id int32 | Unwatch chan_id

fun op_channel :: "watch_op \<Rightarrow> chan_id" where
  "op_channel (Watch c ev) = c"
| "op_channel (Unwatch c) = c"

fun op_legal :: "platform \<Rightarrow> watch_op \<Rightarrow> bool" where
  "op_legal pf (Watch c ev) = legal_events pf ev"
| "op_legal pf (Unwatch c) = True"

text \<open>The specification: which channel is watched with which mask after the operations.\<close>

fun interest_step :: "(chan_id \<rightharpoonup> int32) \<Rightarrow> watch_op \<Rightarrow> (chan_id \<rightharpoonup> int32)" where
  "interest_step r (Watch c ev) = r(c := (if ev = kNoneEvent then None else Some ev))"
| "interest_step r (Unwatch c) = r(c := None)"

definition interest :: "watch_op list \<Rightarrow> (chan_id \<rightharpoonup> int32)" where
  "interest ops = foldl interest_step Map.empty ops"

fun watch_step ::
  "(chan_id \<Rightarrow> 'cb channels \<times> 'p \<Rightarrow> ('cb channels \<times> 'p) result) \<Rightarrow>
   (chan_id \<Rightarrow> 'cb channels \<times> 'p \<Rightarrow> ('cb channels \<times> 'p) result) \<Rightarrow>
   watch_op \<Rightarrow> 'cb channels \<times> 'p \<Rightarrow> ('cb channels \<times> 'p) result" where
  "watch_step update remove (Watch c ev) (cs, p) = update c (cs(c := (cs c)\<lparr>m_events := ev\<rparr>), p)"
| "watch_step update remove (Unwatch c) (cs, p) = remove c (cs, p)"

text \<open>Poller and channels of the set \<open>C\<close> agree with an interest \<open>r\<close>; the descriptors are \<open>f\<close>.\<close>

definition tracks ::
  "chan_id set \<Rightarrow> (chan_id \<Rightarrow> SocketType) \<Rightarrow> 'cb channels \<Rightarrow> poll_view \<Rightarrow> (chan_id \<rightharpoonup> int32) \<Rightarrow> bool" where
  "tracks C f cs v r \<longleftrightarrow>
     (\<forall>c. m_fd (cs c) = f c) \<and>
     (\<forall>c \<in> C. v (f c) = map_option (\<lambda>ev. (c, ev)) (r c) \<and> (m_added (cs c) \<longleftrightarrow> r c \<noteq> None))"

lemma tracks_upd:
  assumes "tracks C f cs v r" and "inj_on f C" and "c \<in> C"
    and "\<And>d. d \<noteq> c \<Longrightarrow> cs' d = cs d" and "m_fd (cs' c) = f c"
    and "m_added (cs' c) \<longleftrightarrow> e \<noteq> None" and "v' = v(f c := map_option (\<lambda>ev. (c, ev)) e)"
  shows "tracks C f cs' v' (r(c := e))"
proof -
  have "f d \<noteq> f c" if "d \<in> C" "d \<noteq> c" for d
    using that assms(2,3) by (auto dest: inj_onD)
  with assms show ?thesis
    unfolding tracks_def by (metis fun_upd_apply)
qed

locale started_poller = poller +
  fixes p0
  assumes init_inv: "inv cs p0"
    and init_view: "view p0 = Map.empty"
begin

lemma watch_step_tracks:
  assumes inv: "inv cs p" and tr: "tracks C f cs (view p) r" and inj: "inj_on f C"
    and C: "op_channel a \<in> C" and legal: "op_legal pf a"
  shows "\<exists>cs' p'. watch_step update remove a (cs, p) = Inr (cs', p') \<and> inv cs' p'
    \<and> tracks C f cs' (view p') (interest_step r a)"
proof (cases a)
  case (Watch c ev)
  define cs1 where "cs1 = cs(c := (cs c)\<lparr>m_events := ev\<rparr>)"
  have step: "watch_step update remove a (cs, p) = update c (cs1, p)"
    by (simp add: Watch cs1_def)
  have same: "\<And>d. d \<noteq> c \<Longrightarrow> cs1 d = cs d" "m_added (cs1 c) = m_added (cs c)"
    by (simp_all add: cs1_def)
  have fd: "m_fd (cs1 c) = f c" "m_fd (cs c) = f c" and events: "m_events (cs1 c) = ev"
    using tr by (simp_all add: tracks_def cs1_def)
  have inv': "inv cs1 p" using inv by (rule inv_frame) (simp add: cs1_def)
  have mem: "c \<in> C" and legal': "legal_events pf (m_events (cs1 c))" using C legal Watch events by auto
  have v: "view p (m_fd (cs1 c)) = map_option (\<lambda>ev. (c, ev)) (r c)" "m_added (cs c) \<longleftrightarrow> r c \<noteq> None"
    using tr mem unfolding fd by (simp_all add: tracks_def)
  have none: "HasNoEvents (cs1 c) \<longleftrightarrow> ev = kNoneEvent" by (simp add: HasNoEvents_def events)
  note upd = tracks_upd [OF tr inj mem, where e = "if ev = kNoneEvent then None else Some ev"]
  show ?thesis
  proof (cases "r c")
    case None
    then have absent: "view p (m_fd (cs1 c)) = None" using v by simp
    show ?thesis
    proof (cases "ev = kNoneEvent")
      case True
      have "tracks C f cs1 (view p) (interest_step r a)"
        using upd [of cs1 "view p"] fd v None True Watch same by (simp add: fun_upd_idem)
      with update_none_absent [OF inv' _ absent] none True inv' step show ?thesis by auto
    next
      case False
      with update_add [OF inv' _ legal' absent] none obtain p' where p':
        "update c (cs1, p) = Inr (cs1(c := SetAdded True (cs1 c)), p')"
        "view p' = (view p)(f c \<mapsto> (c, ev))" "inv (cs1(c := SetAdded True (cs1 c))) p'"
        unfolding fd events by blast
      have "tracks C f (cs1(c := SetAdded True (cs1 c))) (view p') (interest_step r a)"
        using upd [of "cs1(c := SetAdded True (cs1 c))" "view p'"] p'(2) fd False Watch same
        by (simp add: SetAdded_def)
      with p' step show ?thesis by auto
    qed
  next
    case (Some e)
    then have present: "view p (m_fd (cs1 c)) = Some (c, e)" using v by simp
    show ?thesis
    proof (cases "ev = kNoneEvent")
      case True
      with update_none_present [OF inv' _ present] none remove_present [OF inv' present]
      obtain p' where p': "update c (cs1, p) = Inr (cs1(c := SetAdded False (cs1 c)), p')"
        "view p' = (view p)(f c := None)" "inv (cs1(c := SetAdded False (cs1 c))) p'"
        unfolding fd by auto
      have "tracks C f (cs1(c := SetAdded False (cs1 c))) (view p') (interest_step r a)"
        using upd [of "cs1(c := SetAdded False (cs1 c))" "view p'"] p'(2) fd True Watch same
        by (simp add: SetAdded_def)
      with p' step show ?thesis by auto
    next
      case False
      with update_modify [OF inv' _ legal' present] none obtain p' where p':
        "update c (cs1, p) = Inr (cs1, p')" "view p' = (view p)(f c \<mapsto> (c, ev))" "inv cs1 p'"
        unfolding fd events by blast
      have "tracks C f cs1 (view p') (interest_step r a)"
        using upd [of cs1 "view p'"] p'(2) fd v Some False Watch same by simp
      with p' step show ?thesis by auto
    qed
  qed
next
  case (Unwatch c)
  have fd: "m_fd (cs c) = f c" and mem: "c \<in> C" using tr C Unwatch by (simp_all add: tracks_def)
  have v: "view p (m_fd (cs c)) = map_option (\<lambda>ev. (c, ev)) (r c)" "m_added (cs c) \<longleftrightarrow> r c \<noteq> None"
    using tr mem unfolding fd by (simp_all add: tracks_def)
  show ?thesis
  proof (cases "r c")
    case None
    then have "view p (m_fd (cs c)) = None" "r(c := None) = r" using v by (auto simp: fun_upd_idem)
    with remove_absent [OF inv] inv tr Unwatch show ?thesis by auto
  next
    case (Some e)
    then have present: "view p (m_fd (cs c)) = Some (c, e)" using v by simp
    from remove_present [OF inv present] obtain p' where p':
      "remove c (cs, p) = Inr (cs(c := SetAdded False (cs c)), p')"
      "view p' = (view p)(f c := None)" "inv (cs(c := SetAdded False (cs c))) p'"
      unfolding fd by blast
    have "tracks C f (cs(c := SetAdded False (cs c))) (view p') (r(c := None))"
      using tracks_upd [OF tr inj mem, of "cs(c := SetAdded False (cs c))" None "view p'"] p'(2) fd
      by (simp add: SetAdded_def)
    with p' Unwatch show ?thesis by auto
  qed
qed

lemma watch_steps_track:
  assumes "inv cs p" and "tracks C f cs (view p) r" and "inj_on f C"
    and "op_channel ` set ops \<subseteq> C" and "\<forall>a \<in> set ops. op_legal pf a"
  shows "\<exists>cs' p'. rfold (watch_step update remove) ops (cs, p) = Inr (cs', p') \<and> inv cs' p'
    \<and> tracks C f cs' (view p') (foldl interest_step r ops)"
  using assms
proof (induction ops arbitrary: cs p r)
  case Nil
  then show ?case by auto
next
  case (Cons a ops)
  then obtain cs' p' where "watch_step update remove a (cs, p) = Inr (cs', p')" "inv cs' p'"
    "tracks C f cs' (view p') (interest_step r a)"
    using watch_step_tracks [of cs p C f r a] by auto
  with Cons.IH [of cs' p' "interest_step r a"] Cons.prems show ?case by simp
qed

lemma started_tracks:
  assumes "inj_on (\<lambda>c. m_fd (cs c)) C" and "\<forall>c \<in> C. \<not> m_added (cs c)"
    and "op_channel ` set ops \<subseteq> C" and "\<forall>a \<in> set ops. op_legal pf a"
  shows "\<exists>cs' p'. rfold (watch_step update remove) ops (cs, p0) = Inr (cs', p') \<and> inv cs' p'
    \<and> (\<forall>c \<in> C. view p' (m_fd (cs c)) = map_option (\<lambda>ev. (c, ev)) (interest ops c)
        \<and> (m_added (cs' c) \<longleftrightarrow> interest ops c \<noteq> None))"
proof -
  have "tracks C (\<lambda>c. m_fd (cs c)) cs (view p0) Map.empty"
    using assms(2) by (simp add: tracks_def init_view)
  from watch_steps_track [OF init_inv this assms(1,3,4)] show ?thesis
    unfolding interest_def tracks_def by blast
qed

end

end
