(* ===== verification/WSPoll_Poller.thy ===== *)
theory WSPoll_Poller
  imports Poller
begin

text \<open>
  The Windows poller of \<open>src/wspoll_poller.cpp\<close>: the array handed to \<open>WSAPoll\<close>, the channel of
  each of its entries, and the index of each descriptor. Removing a channel swaps its entry with
  the last one. \<open>WSAPoll\<close> is an argument of \<open>Poll\<close>: an error code, or the \<open>revents\<close> it stores in
  each entry. The poller's \<open>size_t(-1)\<close> for a descriptor without entry is \<^const>\<open>None\<close>.
\<close>

unbundle bit_operations_syntax

section \<open>The poller\<close>

record pollfd =
  fd :: SocketType
  events :: uint16
  revents :: uint16

record wspoll =
  m_pollfds :: "pollfd list"
  m_channels :: "chan_id list"
  m_fd_to_idx :: "SocketType \<rightharpoonup> nat"

definition WSPollPoller :: wspoll where
  "WSPollPoller = \<lparr>m_pollfds = [], m_channels = [], m_fd_to_idx = Map.empty\<rparr>"

definition WSAEWOULDBLOCK :: errno where "WSAEWOULDBLOCK = 10035"
definition WSAEINTR :: errno where "WSAEINTR = 10004"

text \<open>The winsock headers of the sources define no \<open>POLLRDHUP\<close>, so that branch is not compiled.\<close>

definition TransRevents_ws :: "uint16 \<Rightarrow> int32" where
  "TransRevents_ws evs =
     (let r = 0;
          r = (if evs AND ucast (POLLIN Windows) \<noteq> 0 then r OR kReadEvent Windows else r);
          r = (if evs AND ucast (POLLOUT Windows) \<noteq> 0 then r OR kWriteEvent Windows else r);
          r = (if evs AND ucast (POLLERR Windows) \<noteq> 0 then r OR POLLERR Windows else r);
          r = (if evs AND ucast (POLLHUP Windows) \<noteq> 0 then r OR POLLHUP Windows else r)
      in r)"

text \<open>One pass of the scan of \<open>m_pollfds\<close>; an index past the end of \<open>m_channels\<close> is undefined.\<close>

definition scan_pollfd ::
  "wspoll \<Rightarrow> nat \<times> pollfd \<Rightarrow> 'cb channels \<times> chan_id list \<Rightarrow> ('cb channels \<times> chan_id list) result" where
  "scan_pollfd p = (\<lambda>(i, pfd) (cs, active_channels).
     if revents pfd = 0 then Inr (cs, active_channels)
     else if i < length (m_channels p) then
       let c = m_channels p ! i in
       rbind (cpp_assert (m_fd (cs c) = fd pfd)) (\<lambda>_.
       Inr (cs(c := SetRevents (TransRevents_ws (revents pfd)) (cs c)), active_channels @ [c]))
     else Inl UndefinedBehaviour)"

definition Poll_ws ::
  "errno + (nat \<Rightarrow> uint16) \<Rightarrow> 'cb channels \<times> wspoll
   \<Rightarrow> (int \<times> chan_id list \<times> 'cb channels \<times> wspoll) result" where
  "Poll_ws ready = (\<lambda>(cs, p).
     case ready of
       Inl err \<Rightarrow>
         if err = WSAEWOULDBLOCK \<or> err = WSAEINTR then Inr (0, [], cs, p) else Inr (- 1, [], cs, p)
     | Inr revs \<Rightarrow>
         let p = p\<lparr>m_pollfds := map (\<lambda>(i, pfd). pfd\<lparr>revents := revs i\<rparr>) (enumerate 0 (m_pollfds p))\<rparr> in
         if \<forall>pfd \<in> set (m_pollfds p). revents pfd = 0 then Inr (0, [], cs, p)
         else
           rbind (rfold (scan_pollfd p) (enumerate 0 (m_pollfds p)) (cs, [])) (\<lambda>(cs, active_channels).
           Inr (int (length active_channels), active_channels, cs, p)))"

text \<open>\<open>std::swap(xs[i], xs[j])\<close>.\<close>

definition swap :: "nat \<Rightarrow> nat \<Rightarrow> 'a list \<Rightarrow> 'a list" where
  "swap i j xs = xs[i := xs ! j, j := xs ! i]"

definition RemoveChannel_ws ::
  "chan_id \<Rightarrow> 'cb channels \<times> wspoll \<Rightarrow> ('cb channels \<times> wspoll) result" where
  "RemoveChannel_ws c = (\<lambda>(cs, p).
     let f = m_fd (cs c) in
     case m_fd_to_idx p f of
       None \<Rightarrow> Inr (cs, p)
     | Some idx \<Rightarrow>
         rbind (cpp_assert (idx < length (m_pollfds p))) (\<lambda>_.
         rbind (cpp_assert (idx < length (m_channels p))) (\<lambda>_.
         let last_idx = length (m_pollfds p) - 1;
             p = (if idx \<noteq> last_idx then
                    let pollfds = swap idx last_idx (m_pollfds p);
                        channels = swap idx last_idx (m_channels p);
                        last_fd = fd (pollfds ! idx) in
                    p\<lparr>m_pollfds := pollfds, m_channels := channels,
                      m_fd_to_idx := (m_fd_to_idx p)(last_fd \<mapsto> idx)\<rparr>
                  else p) in
         Inr (cs(c := SetAdded False (cs c)),
              p\<lparr>m_pollfds := butlast (m_pollfds p), m_channels := butlast (m_channels p),
                m_fd_to_idx := (m_fd_to_idx p)(f := None)\<rparr>))))"

definition make_pollfd :: "'cb channel \<Rightarrow> pollfd" where
  "make_pollfd c =
     (let pfd = \<lparr>fd = m_fd c, events = 0, revents = 0\<rparr>;
          pfd = (if IsReading Windows c then pfd\<lparr>events := events pfd OR ucast (POLLIN Windows)\<rparr> else pfd);
          pfd = (if IsWriting Windows c then pfd\<lparr>events := events pfd OR ucast (POLLOUT Windows)\<rparr> else pfd)
      in pfd)"

definition UpdateChannel_ws ::
  "chan_id \<Rightarrow> 'cb channels \<times> wspoll \<Rightarrow> ('cb channels \<times> wspoll) result" where
  "UpdateChannel_ws c = (\<lambda>(cs, p).
     let f = m_fd (cs c); idx = m_fd_to_idx p f in
     if HasNoEvents (cs c) then
       (if idx \<noteq> None then RemoveChannel_ws c (cs, p) else Inr (cs, p))
     else
       let pfd = make_pollfd (cs c) in
       case idx of
         None \<Rightarrow>
           let p = p\<lparr>m_pollfds := m_pollfds p @ [pfd], m_channels := m_channels p @ [c]\<rparr>;
               p = p\<lparr>m_fd_to_idx := (m_fd_to_idx p)(f \<mapsto> length (m_pollfds p) - 1)\<rparr> in
           Inr (cs(c := SetAdded True (cs c)), p)
       | Some i \<Rightarrow>
           if i < length (m_pollfds p) then Inr (cs, p\<lparr>m_pollfds := (m_pollfds p)[i := pfd]\<rparr>)
           else Inl UndefinedBehaviour)"

section \<open>The index is consistent\<close>

definition ws_inv :: "'cb channels \<Rightarrow> wspoll \<Rightarrow> bool" where
  "ws_inv cs p \<longleftrightarrow>
     length (m_channels p) = length (m_pollfds p) \<and>
     (\<forall>f i. m_fd_to_idx p f = Some i \<longleftrightarrow> i < length (m_pollfds p) \<and> fd (m_pollfds p ! i) = f) \<and>
     (\<forall>i < length (m_pollfds p). m_fd (cs (m_channels p ! i)) = fd (m_pollfds p ! i))"

definition ws_view :: "wspoll \<Rightarrow> poll_view" where
  "ws_view p f = map_option (\<lambda>i. (m_channels p ! i, ucast (events (m_pollfds p ! i)))) (m_fd_to_idx p f)"

lemma ws_invD:
  assumes "ws_inv cs p"
  shows "length (m_channels p) = length (m_pollfds p)"
    and "m_fd_to_idx p f = Some i \<longleftrightarrow> i < length (m_pollfds p) \<and> fd (m_pollfds p ! i) = f"
    and "i < length (m_pollfds p) \<Longrightarrow> m_fd (cs (m_channels p ! i)) = fd (m_pollfds p ! i)"
  using assms by (simp_all add: ws_inv_def)

lemma ws_view_None: "ws_view p f = None \<longleftrightarrow> m_fd_to_idx p f = None"
  by (simp add: ws_view_def)

lemma ws_view_Some:
  "ws_view p f = Some (c, ev) \<longleftrightarrow>
   (\<exists>i. m_fd_to_idx p f = Some i \<and> m_channels p ! i = c \<and> ucast (events (m_pollfds p ! i)) = ev)"
  by (auto simp: ws_view_def)

lemma fd_make_pollfd [simp]: "fd (make_pollfd c) = m_fd c"
  by (simp add: make_pollfd_def Let_def)

lemma events_make_pollfd:
  "legal_events Windows (m_events c) \<Longrightarrow> ucast (events (make_pollfd c)) = m_events c"
  by (auto simp: legal_events_def make_pollfd_def Let_def IsReading_def IsWriting_def event_bit_defs)

text \<open>Removing the entry at \<open>i\<close>: the last entry takes its place and all others keep theirs.\<close>

definition swap_remove :: "nat \<Rightarrow> 'a list \<Rightarrow> 'a list" where
  "swap_remove i xs = butlast (if i \<noteq> length xs - 1 then swap i (length xs - 1) xs else xs)"

lemma length_swap [simp]: "length (swap i j xs) = length xs"
  by (simp add: swap_def)

lemma swap_remove_nth:
  assumes "i < length xs" and "j < length xs - 1"
  shows "swap_remove i xs ! j = (if j = i then xs ! (length xs - 1) else xs ! j)"
  using assms by (auto simp: swap_remove_def swap_def nth_butlast nth_list_update)

lemma length_swap_remove [simp]: "length (swap_remove i xs) = length xs - 1"
  by (simp add: swap_remove_def)

lemma RemoveChannel_ws_present:
  assumes inv: "ws_inv cs p" and idx: "m_fd_to_idx p (m_fd (cs c)) = Some i"
  defines "n \<equiv> length (m_pollfds p) - 1"
  shows "RemoveChannel_ws c (cs, p) = Inr (cs(c := SetAdded False (cs c)),
    \<lparr>m_pollfds = swap_remove i (m_pollfds p), m_channels = swap_remove i (m_channels p),
     m_fd_to_idx = (if i \<noteq> n then (m_fd_to_idx p)(fd (m_pollfds p ! n) \<mapsto> i) else m_fd_to_idx p)
       (m_fd (cs c) := None)\<rparr>)"
proof -
  have "i < length (m_pollfds p)" "length (m_channels p) = length (m_pollfds p)"
    using ws_invD [OF inv] idx by auto
  then show ?thesis
    using idx
    by (simp add: RemoveChannel_ws_def n_def swap_remove_def Let_def swap_def nth_list_update)
qed

lemma ws_remove_index:
  assumes inv: "ws_inv cs p" and idx: "m_fd_to_idx p g = Some i"
  defines "n \<equiv> length (m_pollfds p) - 1"
  defines "m \<equiv> (if i \<noteq> n then (m_fd_to_idx p)(fd (m_pollfds p ! n) \<mapsto> i) else m_fd_to_idx p)(g := None)"
  shows "m f = Some j \<longleftrightarrow> j < n \<and> fd (swap_remove i (m_pollfds p) ! j) = f"
    and "f \<noteq> g \<Longrightarrow> m f = map_option (\<lambda>k. if k = n then i else k) (m_fd_to_idx p f)"
proof -
  have i: "i \<le> n" "i < length (m_pollfds p)" "fd (m_pollfds p ! i) = g" "n < length (m_pollfds p)"
    using ws_invD(2) [OF inv] idx by (auto simp: n_def)
  have at: "m_fd_to_idx p (fd (m_pollfds p ! k)) = Some k" if "k < length (m_pollfds p)" for k
    using ws_invD(2) [OF inv, of "fd (m_pollfds p ! k)" k] that by simp
  have lookup: "m_fd_to_idx p f = Some k \<longleftrightarrow> k < length (m_pollfds p) \<and> fd (m_pollfds p ! k) = f" for f k
    using ws_invD(2) [OF inv] .
  have inj: "k = l" if "fd (m_pollfds p ! k) = fd (m_pollfds p ! l)"
    "k < length (m_pollfds p)" "l < length (m_pollfds p)" for k l
    using at [OF that(2)] at [OF that(3)] that(1) by (metis option.inject)
  have entry: "swap_remove i (m_pollfds p) ! j = m_pollfds p ! (if j = i then n else j)" if "j < n" for j
    using swap_remove_nth [OF i(2), of j] that by (simp add: n_def)
  have m: "m f = (if f = g then None else if i \<noteq> n \<and> f = fd (m_pollfds p ! n) then Some i
      else m_fd_to_idx p f)" for f
    by (simp add: m_def)
  show "m f = Some j \<longleftrightarrow> j < n \<and> fd (swap_remove i (m_pollfds p) ! j) = f"
  proof (cases "j < n")
    case True
    note e = entry [OF True]
    have l: "j < length (m_pollfds p)" using True by (simp add: n_def)
    have neq: "fd (m_pollfds p ! j) \<noteq> fd (m_pollfds p ! n)" using inj [OF _ l i(4)] True by blast
    show ?thesis
    proof (cases "j = i")
      case True
      then have "m f = Some j \<longleftrightarrow> f = fd (m_pollfds p ! n)"
        using lookup [of f i] i(3) neq \<open>j < n\<close> unfolding m by auto
      then show ?thesis using e True \<open>j < n\<close> by auto
    next
      case False
      then have "fd (m_pollfds p ! j) \<noteq> g" using inj [OF _ l i(2)] i(3) by auto
      then have "m f = Some j \<longleftrightarrow> fd (m_pollfds p ! j) = f"
        using lookup [of f j] l neq False unfolding m by auto
      then show ?thesis using e False True by simp
    qed
  next
    case False
    have "m f \<noteq> Some j"
    proof
      assume "m f = Some j"
      then have f: "f \<noteq> g" "m_fd_to_idx p f = Some j" "i \<noteq> n \<longrightarrow> f \<noteq> fd (m_pollfds p ! n)"
        using False i(1) unfolding m by (auto split: if_splits)
      with lookup [of f j] have "j = n" using False unfolding n_def by linarith
      with f lookup [of f j] i(3) show False by auto
    qed
    with False show ?thesis by simp
  qed
  show "m f = map_option (\<lambda>k. if k = n then i else k) (m_fd_to_idx p f)" if "f \<noteq> g"
  proof (cases "m_fd_to_idx p f")
    case None
    then show ?thesis using at [OF i(4)] that by (auto simp: m)
  next
    case (Some k)
    then show ?thesis using lookup [of f k] at [OF i(4)] i(3) that by (auto simp: m)
  qed
qed

section \<open>The poller implements the interface\<close>

lemma ws_remove:
  assumes inv: "ws_inv cs p" and v: "ws_view p (m_fd (cs c)) = Some de"
  shows "\<exists>p'. RemoveChannel_ws c (cs, p) = Inr (cs(c := SetAdded False (cs c)), p')
    \<and> ws_view p' = (ws_view p)(m_fd (cs c) := None) \<and> ws_inv (cs(c := SetAdded False (cs c))) p'"
proof -
  define n where "n = length (m_pollfds p) - 1"
  from v obtain i where idx: "m_fd_to_idx p (m_fd (cs c)) = Some i" by (auto simp: ws_view_def)
  define m where "m = (if i \<noteq> n then (m_fd_to_idx p)(fd (m_pollfds p ! n) \<mapsto> i) else m_fd_to_idx p)
    (m_fd (cs c) := None)"
  define p' where "p' = \<lparr>m_pollfds = swap_remove i (m_pollfds p),
    m_channels = swap_remove i (m_channels p), m_fd_to_idx = m\<rparr>"
  note index = ws_remove_index [OF inv idx, folded n_def, folded m_def]
  have len: "length (m_channels p) = length (m_pollfds p)" "i < length (m_pollfds p)"
    using ws_invD [OF inv] idx by auto
  have entry: "swap_remove i xs ! j = xs ! (if j = i then n else j)"
    if "j < n" "length xs = length (m_pollfds p)" for j and xs :: "'x list"
    using swap_remove_nth [of i xs j] that len by (simp add: n_def)
  have fds: "m_fd (cs (m_channels p ! k)) = fd (m_pollfds p ! k)" if "k \<le> n" for k
    using ws_invD(3) [OF inv, of k] that len(2) by (simp add: n_def)
  have "ws_inv (cs(c := SetAdded False (cs c))) p'"
    unfolding ws_inv_def
  proof (intro conjI allI impI)
    fix j assume "j < length (m_pollfds p')"
    then have "j < n" by (simp add: p'_def n_def)
    moreover have "i \<le> n" using len(2) by (simp add: n_def)
    ultimately show "m_fd ((cs(c := SetAdded False (cs c))) (m_channels p' ! j)) = fd (m_pollfds p' ! j)"
      using fds [of n] fds [of j] by (auto simp: p'_def entry len)
  qed (simp_all add: p'_def len index(1) n_def)
  moreover have "ws_view p' f = ((ws_view p)(m_fd (cs c) := None)) f" for f
  proof (cases "f = m_fd (cs c)")
    case True
    then show ?thesis by (simp add: ws_view_def p'_def m_def)
  next
    case False
    show ?thesis
    proof (cases "m_fd_to_idx p f")
      case None
      with False index(2) show ?thesis by (simp add: ws_view_def p'_def)
    next
      case (Some k)
      then have k: "k \<le> n" "fd (m_pollfds p ! k) = f" using ws_invD(2) [OF inv] by (auto simp: n_def)
      have "k \<noteq> i" using k(2) False ws_invD(2) [OF inv] idx by metis
      have "i < n" if "k = n" using that \<open>k \<noteq> i\<close> len(2) by (simp add: n_def)
      with False Some k \<open>k \<noteq> i\<close> show ?thesis
        using index(2) [OF False] by (auto simp: ws_view_def p'_def entry len)
    qed
  qed
  ultimately show ?thesis
    using RemoveChannel_ws_present [OF inv idx] by (auto simp: p'_def m_def n_def)
qed

interpretation wspoll: started_poller Windows ws_inv ws_view UpdateChannel_ws RemoveChannel_ws
  WSPollPoller
proof (unfold_locales, goal_cases)
  case (1 cs p cs')
  then show ?case by (simp add: ws_inv_def)
next
  case (2 cs p c)
  then show ?case by (simp add: ws_view_None RemoveChannel_ws_def)
next
  case (3 cs p c de)
  then show ?case by (rule ws_remove)
next
  case (4 cs p c)
  then show ?case by (simp add: ws_view_None UpdateChannel_ws_def)
next
  case (5 cs p c de)
  then have "m_fd_to_idx p (m_fd (cs c)) \<noteq> None" by (auto simp: ws_view_def)
  with 5 show ?case by (simp add: UpdateChannel_ws_def)
next
  case (6 cs p c)
  have len: "length (m_channels p) = length (m_pollfds p)" using ws_invD [OF 6(1)] by simp
  have absent: "m_fd_to_idx p (m_fd (cs c)) = None" using 6(4) by (simp add: ws_view_None)
  then have new: "\<And>i. i < length (m_pollfds p) \<Longrightarrow> fd (m_pollfds p ! i) \<noteq> m_fd (cs c)"
    using ws_invD(2) [OF 6(1), of "m_fd (cs c)"] by auto
  define p' where "p' = p\<lparr>m_pollfds := m_pollfds p @ [make_pollfd (cs c)],
    m_channels := m_channels p @ [c],
    m_fd_to_idx := (m_fd_to_idx p)(m_fd (cs c) \<mapsto> length (m_pollfds p))\<rparr>"
  have "UpdateChannel_ws c (cs, p) = Inr (cs(c := SetAdded True (cs c)), p')"
    using 6(2) absent by (simp add: UpdateChannel_ws_def Let_def p'_def)
  moreover have "ws_inv (cs(c := SetAdded True (cs c))) p'"
    using 6(1) new by (auto simp: ws_inv_def p'_def nth_append less_Suc_eq)
  moreover have "ws_view p' f = ((ws_view p)(m_fd (cs c) \<mapsto> (c, m_events (cs c)))) f" for f
    using events_make_pollfd [OF 6(3)] len ws_invD(2) [OF 6(1), of f]
    by (cases "m_fd_to_idx p f") (auto simp: ws_view_def p'_def nth_append)
  ultimately show ?case by blast
next
  case (7 cs p c d ev)
  then obtain i where i: "m_fd_to_idx p (m_fd (cs c)) = Some i" "m_channels p ! i = d"
    by (auto simp: ws_view_Some)
  then have entry: "i < length (m_pollfds p)" "fd (m_pollfds p ! i) = m_fd (cs c)"
    using ws_invD(2) [OF 7(1)] by auto
  have only: "k \<noteq> i" if "m_fd_to_idx p f = Some k" "f \<noteq> m_fd (cs c)" for f k
    using that entry ws_invD(2) [OF 7(1)] by metis
  define p' where "p' = p\<lparr>m_pollfds := (m_pollfds p)[i := make_pollfd (cs c)]\<rparr>"
  have "UpdateChannel_ws c (cs, p) = Inr (cs, p')"
    using 7(2) i entry by (simp add: UpdateChannel_ws_def Let_def p'_def)
  moreover have "ws_inv cs p'"
    using 7(1) entry unfolding ws_inv_def p'_def by (auto simp: nth_list_update)
  moreover have "ws_view p' f = ((ws_view p)(m_fd (cs c) \<mapsto> (d, m_events (cs c)))) f" for f
    using events_make_pollfd [OF 7(3)] i entry only [of f]
    by (cases "m_fd_to_idx p f") (auto simp: ws_view_def p'_def)
  ultimately show ?case by blast
next
  case (8 cs)
  then show ?case by (simp add: ws_inv_def WSPollPoller_def)
next
  case 9
  then show ?case by (simp add: ws_view_def WSPollPoller_def fun_eq_iff)
qed

section \<open>Properties\<close>

text \<open>C16 (the Windows poller keeps track). Start the poller empty and let channels with different
  descriptors be updated with any legal masks and removed, in any order and number. No call fails
  an assertion, and at the end the array given to \<open>WSAPoll\<close> watches exactly the channels whose
  last operation set a non-empty mask, each with that mask and its own channel object, through all
  the swaps with the last entry that removals make; the added flag of each channel agrees.\<close>

theorem wspoll_tracks_interest:
  assumes "inj_on (\<lambda>c. m_fd (cs c)) C" and "\<forall>c \<in> C. \<not> m_added (cs c)"
    and "op_channel ` set ops \<subseteq> C" and "\<forall>a \<in> set ops. op_legal Windows a"
  shows "\<exists>cs' p'. rfold (watch_step UpdateChannel_ws RemoveChannel_ws) ops (cs, WSPollPoller) = Inr (cs', p')
    \<and> ws_inv cs' p'
    \<and> (\<forall>c \<in> C. ws_view p' (m_fd (cs c)) = map_option (\<lambda>ev. (c, ev)) (interest ops c)
        \<and> (m_added (cs' c) \<longleftrightarrow> interest ops c \<noteq> None))"
  using assms by (rule wspoll.started_tracks)

definition ws_example_ops :: "watch_op list" where
  "ws_example_ops =
     [Watch 0 (kReadEvent Windows), Watch 1 (kReadEvent Windows), Watch 2 (kReadEvent Windows),
      Watch 2 (kReadEvent Windows OR kWriteEvent Windows), Unwatch 0, Watch 1 kNoneEvent]"

theorem wspoll_tracks_interest_witness:
  "\<exists>cs' p'. rfold (watch_step UpdateChannel_ws RemoveChannel_ws) ws_example_ops
       (\<lambda>c. Channel 0 (int c) :: nat channel, WSPollPoller) = Inr (cs', p') \<and>
     ws_view p' 2 = Some (2, 0x310) \<and> ws_view p' 0 = None \<and> ws_view p' 1 = None"
proof -
  have "interest ws_example_ops = [2 \<mapsto> 0x310]"
    by (simp add: interest_def ws_example_ops_def event_bit_defs fun_upd_twist)
  then show ?thesis
    using wspoll_tracks_interest [of "\<lambda>c. Channel 0 (int c) :: nat channel" "{0, 1, 2}" ws_example_ops]
    by (fastforce simp: Channel_def ws_example_ops_def legal_events_def inj_on_def)
qed

end
