(* ===== verification/Epoll_Poller.thy ===== *)
theory Epoll_Poller
  imports Poller
begin

text \<open>
  The Linux poller of \<open>src/epoll_poller.cpp\<close>. \<open>epoll_ctl\<close> is a call to the kernel: the poller
  records every call it makes, in order; the outcome changes nothing in the poller, which only
  logs a failure. \<open>requested\<close> is the interest list those calls ask for, and \<open>ctl_legal\<close> says
  that no call was one the manual page answers with \<open>EEXIST\<close> or \<open>ENOENT\<close>. \<open>epoll_wait\<close> is an
  argument of \<open>Poll\<close>: an \<open>errno\<close>, or the ready descriptors with their event masks.
\<close>

unbundle bit_operations_syntax

section \<open>The poller\<close>

definition EPOLLIN :: uint32 where "EPOLLIN = 0x001"
definition EPOLLOUT :: uint32 where "EPOLLOUT = 0x004"
definition EPOLLERR :: uint32 where "EPOLLERR = 0x008"
definition EPOLLHUP :: uint32 where "EPOLLHUP = 0x010"
definition EPOLLRDHUP :: uint32 where "EPOLLRDHUP = 0x2000"
definition EINTR :: errno where "EINTR = 4"

datatype ctl_op = EPOLL_CTL_ADD | EPOLL_CTL_MOD | EPOLL_CTL_DEL

type_synonym ctl_call = "ctl_op \<times> SocketType \<times> int32"

record epoll =
  m_events_size :: nat
  m_fd_to_channel :: "SocketType \<rightharpoonup> chan_id"
  ctl_log :: "ctl_call list"

definition EpollPoller :: epoll where
  "EpollPoller = \<lparr>m_events_size = 128, m_fd_to_channel = Map.empty, ctl_log = []\<rparr>"

definition TransRevents :: "uint32 \<Rightarrow> int32" where
  "TransRevents events =
     (let revents = 0;
          revents = (if events AND EPOLLIN \<noteq> 0 then revents OR kReadEvent Linux else revents);
          revents = (if events AND EPOLLOUT \<noteq> 0 then revents OR kWriteEvent Linux else revents);
          revents = (if events AND EPOLLERR \<noteq> 0 then revents OR POLLERR Linux else revents);
          revents = (if events AND EPOLLHUP \<noteq> 0 then revents OR POLLHUP Linux else revents);
          revents = (if events AND EPOLLRDHUP \<noteq> 0 then revents OR POLLHUP Linux else revents)
      in revents)"

definition UpdateEpoll :: "ctl_op \<Rightarrow> chan_id \<Rightarrow> 'cb channels \<times> epoll \<Rightarrow> 'cb channels \<times> epoll" where
  "UpdateEpoll op c = (\<lambda>(cs, p).
     (cs, p\<lparr>ctl_log := ctl_log p @ [(op, m_fd (cs c), m_events (cs c))]\<rparr>))"

definition RemoveChannel_epoll ::
  "chan_id \<Rightarrow> 'cb channels \<times> epoll \<Rightarrow> ('cb channels \<times> epoll) result" where
  "RemoveChannel_epoll c = (\<lambda>(cs, p).
     let fd = m_fd (cs c) in
     if m_fd_to_channel p fd = None then Inr (cs, p)
     else
       let (cs, p) = UpdateEpoll EPOLL_CTL_DEL c (cs, p) in
       Inr (cs(c := SetAdded False (cs c)),
            p\<lparr>m_fd_to_channel := (m_fd_to_channel p)(fd := None)\<rparr>))"

definition UpdateChannel_epoll ::
  "chan_id \<Rightarrow> 'cb channels \<times> epoll \<Rightarrow> ('cb channels \<times> epoll) result" where
  "UpdateChannel_epoll c = (\<lambda>(cs, p).
     let fd = m_fd (cs c) in
     if HasNoEvents (cs c) then
       (if m_fd_to_channel p fd \<noteq> None then RemoveChannel_epoll c (cs, p) else Inr (cs, p))
     else if m_fd_to_channel p fd \<noteq> None then
       Inr (UpdateEpoll EPOLL_CTL_MOD c (cs, p))
     else
       let p = p\<lparr>m_fd_to_channel := (m_fd_to_channel p)(fd \<mapsto> c)\<rparr>;
           (cs, p) = UpdateEpoll EPOLL_CTL_ADD c (cs, p) in
       Inr (cs(c := SetAdded True (cs c)), p))"

text \<open>One pass of the loop over the ready events: the channels found are appended to the list.\<close>

definition poll_event ::
  "epoll \<Rightarrow> SocketType \<times> uint32 \<Rightarrow> 'cb channels \<times> chan_id list \<Rightarrow> ('cb channels \<times> chan_id list) result" where
  "poll_event p = (\<lambda>(fd, events) (cs, active_channels).
     case m_fd_to_channel p fd of
       None \<Rightarrow> Inr (cs, active_channels)
     | Some c \<Rightarrow>
         rbind (cpp_assert (m_fd (cs c) = fd)) (\<lambda>_.
         Inr (cs(c := SetRevents (TransRevents events) (cs c)), active_channels @ [c])))"

definition Poll_epoll ::
  "errno + (SocketType \<times> uint32) list \<Rightarrow> 'cb channels \<times> epoll
   \<Rightarrow> (int \<times> chan_id list \<times> 'cb channels \<times> epoll) result" where
  "Poll_epoll ready = (\<lambda>(cs, p).
     case ready of
       Inl err \<Rightarrow> if err = EINTR then Inr (0, [], cs, p) else Inr (- 1, [], cs, p)
     | Inr evs \<Rightarrow>
         if evs = [] then Inr (0, [], cs, p)
         else
           let p = (if length evs = m_events_size p
                    then p\<lparr>m_events_size := m_events_size p * 2\<rparr> else p) in
           rbind (rfold (poll_event p) evs (cs, [])) (\<lambda>(cs, active_channels).
           Inr (int (length evs), active_channels, cs, p)))"

section \<open>The interest list the calls ask for\<close>

fun ctl_effect :: "(SocketType \<rightharpoonup> int32) \<Rightarrow> ctl_call \<Rightarrow> (SocketType \<rightharpoonup> int32)" where
  "ctl_effect m (EPOLL_CTL_ADD, fd, ev) = m(fd \<mapsto> ev)"
| "ctl_effect m (EPOLL_CTL_MOD, fd, ev) = m(fd \<mapsto> ev)"
| "ctl_effect m (EPOLL_CTL_DEL, fd, ev) = m(fd := None)"

definition requested :: "ctl_call list \<Rightarrow> (SocketType \<rightharpoonup> int32)" where
  "requested log = foldl ctl_effect Map.empty log"

fun ctl_legal_from :: "(SocketType \<rightharpoonup> int32) \<Rightarrow> ctl_call list \<Rightarrow> bool" where
  "ctl_legal_from m [] \<longleftrightarrow> True"
| "ctl_legal_from m ((op, fd, ev) # log) \<longleftrightarrow>
     (if op = EPOLL_CTL_ADD then m fd = None else m fd \<noteq> None) \<and>
     ctl_legal_from (ctl_effect m (op, fd, ev)) log"

definition ctl_legal :: "ctl_call list \<Rightarrow> bool" where
  "ctl_legal log \<longleftrightarrow> ctl_legal_from Map.empty log"

lemma requested_snoc: "requested (log @ [c]) = ctl_effect (requested log) c"
  by (simp add: requested_def)

lemma ctl_legal_from_snoc:
  "ctl_legal_from m (log @ [(op, fd, ev)]) \<longleftrightarrow>
   ctl_legal_from m log \<and>
   (if op = EPOLL_CTL_ADD then foldl ctl_effect m log fd = None
    else foldl ctl_effect m log fd \<noteq> None)"
proof (induction log arbitrary: m)
  case Nil
  then show ?case by simp
next
  case (Cons a log)
  show ?case
    by (cases a) (simp add: Cons.IH del: ctl_effect.simps)
qed

lemma ctl_legal_snoc:
  "ctl_legal (log @ [(op, fd, ev)]) \<longleftrightarrow>
   ctl_legal log \<and> (if op = EPOLL_CTL_ADD then requested log fd = None else requested log fd \<noteq> None)"
  by (simp add: ctl_legal_def requested_def ctl_legal_from_snoc)

section \<open>The poller implements the interface\<close>

definition epoll_view :: "epoll \<Rightarrow> poll_view" where
  "epoll_view p fd =
     (case m_fd_to_channel p fd of
        None \<Rightarrow> None
      | Some c \<Rightarrow> map_option (\<lambda>ev. (c, ev)) (requested (ctl_log p) fd))"

definition epoll_inv :: "'cb channels \<Rightarrow> epoll \<Rightarrow> bool" where
  "epoll_inv cs p \<longleftrightarrow>
     ctl_legal (ctl_log p) \<and>
     (\<forall>fd. requested (ctl_log p) fd = None \<longleftrightarrow> m_fd_to_channel p fd = None) \<and>
     (\<forall>fd c. m_fd_to_channel p fd = Some c \<longrightarrow> m_fd (cs c) = fd)"

lemma epoll_view_None: "epoll_inv cs p \<Longrightarrow> epoll_view p fd = None \<longleftrightarrow> m_fd_to_channel p fd = None"
  by (auto simp: epoll_view_def epoll_inv_def split: option.splits)

lemma epoll_view_Some:
  "epoll_inv cs p \<Longrightarrow> epoll_view p fd = Some (c, ev) \<longleftrightarrow>
   m_fd_to_channel p fd = Some c \<and> requested (ctl_log p) fd = Some ev"
  by (auto simp: epoll_view_def split: option.splits)

lemma epoll_inv_SetAdded [simp]: "epoll_inv (cs(c := SetAdded b (cs c))) p = epoll_inv cs p"
  by (auto simp: epoll_inv_def)

lemma epoll_inv_init: "epoll_inv cs EpollPoller"
  by (simp add: epoll_inv_def EpollPoller_def ctl_legal_def requested_def)

lemmas epoll_defs = UpdateEpoll_def RemoveChannel_epoll_def UpdateChannel_epoll_def

interpretation epoll: started_poller Linux epoll_inv epoll_view UpdateChannel_epoll
  RemoveChannel_epoll EpollPoller
proof (unfold_locales, goal_cases)
  case (1 cs p cs')
  then show ?case by (simp add: epoll_inv_def)
next
  case (2 cs p c)
  then show ?case by (simp add: epoll_view_None RemoveChannel_epoll_def)
next
  case (3 cs p c de)
  then obtain d where "m_fd_to_channel p (m_fd (cs c)) = Some d"
    by (cases de) (auto simp: epoll_view_Some)
  with 3(1) show ?case
    by (auto simp: epoll_defs Let_def epoll_inv_def epoll_view_def fun_eq_iff requested_snoc
        ctl_legal_snoc split: option.splits)
next
  case (4 cs p c)
  then show ?case by (simp add: epoll_view_None UpdateChannel_epoll_def)
next
  case (5 cs p c de)
  then have "m_fd_to_channel p (m_fd (cs c)) \<noteq> None"
    by (metis epoll_view_None option.distinct(1))
  with 5 show ?case by (simp add: UpdateChannel_epoll_def)
next
  case (6 cs p c)
  then show ?case
    by (auto simp: epoll_view_None epoll_defs Let_def epoll_inv_def epoll_view_def fun_eq_iff
        requested_snoc ctl_legal_snoc split: option.splits)
next
  case (7 cs p c d ev)
  then have "m_fd_to_channel p (m_fd (cs c)) = Some d"
    by (simp add: epoll_view_Some)
  with 7 show ?case
    by (auto simp: epoll_defs Let_def epoll_inv_def epoll_view_def fun_eq_iff requested_snoc
        ctl_legal_snoc split: option.splits)
next
  case (8 cs)
  then show ?case by (rule epoll_inv_init)
next
  case 9
  then show ?case by (simp add: epoll_view_def EpollPoller_def fun_eq_iff)
qed

section \<open>Polling\<close>

lemma TransRevents_bits:
  "TransRevents events AND POLLERR Linux \<noteq> 0 \<longleftrightarrow> events AND EPOLLERR \<noteq> 0"
  "TransRevents events AND POLLHUP Linux \<noteq> 0 \<longleftrightarrow> events AND EPOLLHUP \<noteq> 0 \<or> events AND EPOLLRDHUP \<noteq> 0"
  "TransRevents events AND kReadEvent Linux \<noteq> 0 \<longleftrightarrow> events AND EPOLLIN \<noteq> 0"
  "TransRevents events AND kWriteEvent Linux \<noteq> 0 \<longleftrightarrow> events AND EPOLLOUT \<noteq> 0"
  by (simp_all add: TransRevents_def Let_def event_bit_defs)

text \<open>What a batch of ready events does to the channels and the active list.\<close>

definition ready_channels :: "epoll \<Rightarrow> (SocketType \<times> uint32) list \<Rightarrow> chan_id list" where
  "ready_channels p evs = List.map_filter (\<lambda>(fd, ev). m_fd_to_channel p fd) evs"

fun mark_ready :: "epoll \<Rightarrow> (SocketType \<times> uint32) list \<Rightarrow> 'cb channels \<Rightarrow> 'cb channels" where
  "mark_ready p [] cs = cs"
| "mark_ready p ((fd, ev) # evs) cs =
     mark_ready p evs (case m_fd_to_channel p fd of
        None \<Rightarrow> cs | Some c \<Rightarrow> cs(c := SetRevents (TransRevents ev) (cs c)))"

lemma ready_channels_member:
  "(fd, ev) \<in> set evs \<Longrightarrow> m_fd_to_channel p fd = Some c \<Longrightarrow> c \<in> set (ready_channels p evs)"
  by (induction evs) (auto simp: ready_channels_def map_filter_simps split: option.splits)

lemma epoll_inv_SetRevents [simp]: "epoll_inv (cs(c := SetRevents r (cs c))) p = epoll_inv cs p"
  by (auto simp: epoll_inv_def)

lemma poll_events:
  assumes "epoll_inv cs p"
  shows "rfold (poll_event p) evs (cs, act) = Inr (mark_ready p evs cs, act @ ready_channels p evs)"
  using assms
proof (induction evs arbitrary: cs act)
  case Nil
  then show ?case by (simp add: ready_channels_def map_filter_simps)
next
  case (Cons a evs)
  obtain fd ev where a: "a = (fd, ev)" by (cases a)
  show ?case
  proof (cases "m_fd_to_channel p fd")
    case None
    then have "poll_event p a (cs, act) = Inr (cs, act)"
      by (simp add: a poll_event_def)
    with None Cons show ?thesis
      by (simp add: a ready_channels_def map_filter_simps)
  next
    case (Some c)
    with Cons.prems have "m_fd (cs c) = fd" by (simp add: epoll_inv_def)
    with Some have "poll_event p a (cs, act)
        = Inr (cs(c := SetRevents (TransRevents ev) (cs c)), act @ [c])"
      by (simp add: a poll_event_def)
    moreover have "epoll_inv (cs(c := SetRevents (TransRevents ev) (cs c))) p"
      using Cons.prems by simp
    note Cons.IH [OF this, of "act @ [c]"]
    ultimately show ?thesis
      using Some by (simp add: a ready_channels_def map_filter_simps fun_upd_def)
  qed
qed

lemma mark_ready_unreported:
  assumes "epoll_inv cs p" and "\<forall>(fd, ev) \<in> set evs. m_fd_to_channel p fd \<noteq> Some c"
  shows "mark_ready p evs cs c = cs c"
  using assms by (induction evs arbitrary: cs) (auto split: option.splits)

lemma mark_ready_reported:
  assumes "epoll_inv cs p" and "distinct (map fst evs)" and "(fd, ev) \<in> set evs"
    and "m_fd_to_channel p fd = Some c"
  shows "mark_ready p evs cs c = SetRevents (TransRevents ev) (cs c)"
  using assms
proof (induction evs arbitrary: cs)
  case Nil
  then show ?case by simp
next
  case (Cons a evs)
  obtain fd' ev' where a: "a = (fd', ev')" by (cases a)
  define cs' where "cs' = (case m_fd_to_channel p fd' of
      None \<Rightarrow> cs | Some d \<Rightarrow> cs(d := SetRevents (TransRevents ev') (cs d)))"
  have inv: "epoll_inv cs' p"
    using Cons.prems(1) by (simp add: cs'_def split: option.splits)
  have only: "m_fd_to_channel p x = Some c \<Longrightarrow> x = fd" for x
    using Cons.prems(1,4) unfolding epoll_inv_def by metis
  show ?case
  proof (cases "fd' = fd")
    case True
    with Cons.prems(2) have "(fd, ev) \<notin> set evs" by (force simp: a)
    with Cons.prems(3) have "ev' = ev" by (simp add: a)
    have "\<forall>(x, e) \<in> set evs. m_fd_to_channel p x \<noteq> Some c"
      using Cons.prems(2) True only by (force simp: a)
    from mark_ready_unreported [OF inv this] True \<open>ev' = ev\<close> Cons.prems(4) show ?thesis
      by (simp add: a cs'_def)
  next
    case False
    with Cons.prems(3) have "(fd, ev) \<in> set evs" by (simp add: a)
    moreover have "cs' c = cs c"
      using False only by (auto simp: cs'_def split: option.splits)
    ultimately show ?thesis
      using Cons.IH [OF inv] Cons.prems(2,4) by (simp add: a flip: cs'_def)
  qed
qed

lemma epoll_inv_mark_ready: "epoll_inv cs p \<Longrightarrow> epoll_inv (mark_ready p evs cs) p"
proof (induction evs arbitrary: cs)
  case Nil
  then show ?case by simp
next
  case (Cons a evs)
  then show ?case by (cases a) (simp split: option.splits)
qed

section \<open>Properties\<close>

text \<open>C17 (from a ready descriptor to the callbacks). When \<open>epoll_wait\<close> reports a registered
  descriptor with some event mask, \<open>Poll\<close> returns normally, puts the descriptor's channel on the
  active list, and the channel's \<open>HandleEvent\<close> then runs: for \<open>EPOLLERR\<close> the error callback and then
  the close callback and nothing else; otherwise for \<open>EPOLLHUP\<close> or \<open>EPOLLRDHUP\<close> the close callback
  only; otherwise the read callback for \<open>EPOLLIN\<close> and then the write callback for \<open>EPOLLOUT\<close>.
  Other descriptors in the batch, registered or not, do not disturb this.\<close>

theorem epoll_event_reaches_callbacks:
  assumes "epoll_inv cs p" and "distinct (map fst evs)" and "(fd, ev) \<in> set evs"
    and "m_fd_to_channel p fd = Some c"
  shows "\<exists>n act cs' p'. Poll_epoll (Inr evs) (cs, p) = Inr (n, act, cs', p') \<and> c \<in> set act \<and>
    (\<forall>w. HandleEvent Linux run (cs' c) w =
      rfold (call run)
        (if ev AND EPOLLERR \<noteq> 0 then [m_error_callback (cs c), m_close_callback (cs c)]
         else if ev AND EPOLLHUP \<noteq> 0 \<or> ev AND EPOLLRDHUP \<noteq> 0 then [m_close_callback (cs c)]
         else (if ev AND EPOLLIN \<noteq> 0 then [m_read_callback (cs c)] else [])
            @ (if ev AND EPOLLOUT \<noteq> 0 then [m_write_callback (cs c)] else [])) w)"
proof -
  have "evs \<noteq> []" using assms(3) by auto
  define p1 where "p1 = (if length evs = m_events_size p
      then p\<lparr>m_events_size := m_events_size p * 2\<rparr> else p)"
  have p1: "m_fd_to_channel p1 = m_fd_to_channel p" "ctl_log p1 = ctl_log p"
    by (simp_all add: p1_def)
  then have inv: "epoll_inv cs p1" using assms(1) by (simp add: epoll_inv_def)
  have poll: "Poll_epoll (Inr evs) (cs, p)
      = Inr (int (length evs), ready_channels p1 evs, mark_ready p1 evs cs, p1)"
    using \<open>evs \<noteq> []\<close> poll_events [OF inv, of evs "[]"] by (simp add: Poll_epoll_def flip: p1_def)
  have act: "c \<in> set (ready_channels p1 evs)"
    using ready_channels_member [OF assms(3)] assms(4) p1(1) by simp
  have "mark_ready p1 evs cs c = SetRevents (TransRevents ev) (cs c)"
    using mark_ready_reported [OF inv assms(2,3)] assms(4) p1(1) by simp
  then have "HandleEvent Linux run (mark_ready p1 evs cs c) w =
      rfold (call run)
        (if ev AND EPOLLERR \<noteq> 0 then [m_error_callback (cs c), m_close_callback (cs c)]
         else if ev AND EPOLLHUP \<noteq> 0 \<or> ev AND EPOLLRDHUP \<noteq> 0 then [m_close_callback (cs c)]
         else (if ev AND EPOLLIN \<noteq> 0 then [m_read_callback (cs c)] else [])
            @ (if ev AND EPOLLOUT \<noteq> 0 then [m_write_callback (cs c)] else [])) w" for w
    unfolding HandleEvent_dispatch dispatch_order_def
    by (simp only: m_revents_SetRevents TransRevents_bits) (simp add: SetRevents_def)
  with poll act show ?thesis by blast
qed

text \<open>A readable descriptor 7 with a second, unregistered one in the same batch.\<close>

definition epoll_example :: epoll where
  "epoll_example = EpollPoller\<lparr>m_fd_to_channel := [7 \<mapsto> 0], ctl_log := [(EPOLL_CTL_ADD, 7, kReadEvent Linux)]\<rparr>"

definition epoll_example_channels :: "nat channels" where
  "epoll_example_channels = (\<lambda>_. SetReadCallback 42 (Channel 0 7))"

lemma epoll_example_inv: "epoll_inv epoll_example_channels epoll_example"
  by (auto simp: epoll_example_def epoll_example_channels_def epoll_inv_def ctl_legal_def
      requested_def SetReadCallback_def Channel_def)

theorem epoll_event_reaches_callbacks_witness:
  "\<exists>n act cs' p'. Poll_epoll (Inr [(9, EPOLLOUT), (7, EPOLLIN)]) (epoll_example_channels, epoll_example)
       = Inr (n, act, cs', p') \<and> 0 \<in> set act \<and>
     HandleEvent Linux (\<lambda>cb w. Inr (w @ [cb])) (cs' 0) [] = Inr [42]"
proof -
  have ev: "EPOLLIN AND EPOLLERR = 0" "EPOLLIN AND EPOLLHUP = 0" "EPOLLIN AND EPOLLRDHUP = 0"
    "EPOLLIN AND EPOLLIN \<noteq> 0" "EPOLLIN AND EPOLLOUT = 0"
    by (simp_all add: EPOLLIN_def EPOLLERR_def EPOLLHUP_def EPOLLRDHUP_def EPOLLOUT_def)
  have cb: "m_read_callback (epoll_example_channels 0) = Some 42"
    by (simp add: epoll_example_channels_def SetReadCallback_def)
  have c: "m_fd_to_channel epoll_example 7 = Some 0"
    by (simp add: epoll_example_def)
  have d: "distinct (map fst [(9::int, EPOLLOUT), (7, EPOLLIN)])"
    "(7::int, EPOLLIN) \<in> set [(9, EPOLLOUT), (7, EPOLLIN)]" by simp_all
  from epoll_event_reaches_callbacks [OF epoll_example_inv d c, of "\<lambda>cb w. Inr (w @ [cb])"]
  obtain n act cs' p' where *: "Poll_epoll (Inr [(9, EPOLLOUT), (7, EPOLLIN)])
       (epoll_example_channels, epoll_example) = Inr (n, act, cs', p')" "0 \<in> set act"
    "HandleEvent Linux (\<lambda>cb w. Inr (w @ [cb])) (cs' 0) [] = rfold (call (\<lambda>cb w. Inr (w @ [cb])))
       [m_read_callback (epoll_example_channels 0)] []"
    by (simp only: ev) auto
  have "HandleEvent Linux (\<lambda>cb w. Inr (w @ [cb])) (cs' 0) [] = Inr [42]"
    unfolding *(3) by (simp add: cb call_def)
  with *(1,2) show ?thesis by blast
qed

text \<open>C10 (the Linux poller keeps track). Start the poller empty and let channels with different
  descriptors be updated with any legal masks and removed, in any order and number. Every call
  returns, the \<open>epoll_ctl\<close> calls made never add a descriptor that is already in the kernel's
  interest list and never modify or delete one that is not, the interest list they ask for holds
  exactly the channels whose last operation set a non-empty mask, each with that mask, and the
  added flag of each channel agrees.\<close>

theorem epoll_tracks_interest:
  assumes "inj_on (\<lambda>c. m_fd (cs c)) C" and "\<forall>c \<in> C. \<not> m_added (cs c)"
    and "op_channel ` set ops \<subseteq> C" and "\<forall>a \<in> set ops. op_legal Linux a"
  shows "\<exists>cs' p'. rfold (watch_step UpdateChannel_epoll RemoveChannel_epoll) ops (cs, EpollPoller) = Inr (cs', p')
    \<and> ctl_legal (ctl_log p')
    \<and> (\<forall>c \<in> C. requested (ctl_log p') (m_fd (cs c)) = interest ops c
        \<and> (m_added (cs' c) \<longleftrightarrow> interest ops c \<noteq> None))"
proof -
  from epoll.started_tracks [OF assms] obtain cs' p' where
    run: "rfold (watch_step UpdateChannel_epoll RemoveChannel_epoll) ops (cs, EpollPoller) = Inr (cs', p')"
    and inv: "epoll_inv cs' p'"
    and view: "\<forall>c \<in> C. epoll_view p' (m_fd (cs c)) = map_option (\<lambda>ev. (c, ev)) (interest ops c)
      \<and> (m_added (cs' c) \<longleftrightarrow> interest ops c \<noteq> None)" by blast
  have "requested (ctl_log p') (m_fd (cs c)) = interest ops c" if "c \<in> C" for c
    using view that epoll_view_None [OF inv] epoll_view_Some [OF inv] inv
    by (cases "interest ops c") (auto simp: epoll_inv_def)
  with run inv view show ?thesis by (auto simp: epoll_inv_def)
qed

definition epoll_example_ops :: "watch_op list" where
  "epoll_example_ops =
     [Watch 0 (kReadEvent Linux), Watch 1 (kReadEvent Linux), Watch 1 (kReadEvent Linux OR kWriteEvent Linux),
      Unwatch 0, Watch 0 (kWriteEvent Linux), Watch 1 kNoneEvent]"

theorem epoll_tracks_interest_witness:
  "\<exists>cs' p'. rfold (watch_step UpdateChannel_epoll RemoveChannel_epoll) epoll_example_ops
       (\<lambda>c. Channel 0 (int c) :: nat channel, EpollPoller) = Inr (cs', p') \<and>
     ctl_legal (ctl_log p') \<and> requested (ctl_log p') 0 = Some 4 \<and> requested (ctl_log p') 1 = None"
proof -
  have "interest epoll_example_ops = [0 \<mapsto> 4]"
    by (simp add: interest_def epoll_example_ops_def event_bit_defs fun_upd_twist)
  then show ?thesis
    using epoll_tracks_interest [of "\<lambda>c. Channel 0 (int c) :: nat channel" "{0, 1}" epoll_example_ops]
    by (fastforce simp: Channel_def epoll_example_ops_def legal_events_def inj_on_def)
qed

end
