(* ===== verification/Timer_Queue.thy ===== *)
theory Timer_Queue
  imports Reactor_Prelude
begin

text \<open>
  The timers of \<open>include/eventloop.h\<close> and \<open>src/eventloop.cpp\<close>: the tasks, the queue ordered by
  expiry, the table of live timers and the id counter, with the operations that touch only them.
  The wake-ups that some of them end with and the thread checks belong to the event loop.

  Tasks are shared objects: \<open>tasks\<close> is their store and a \<open>TimerTaskPtr\<close> an index into it. Time
  points are integers, in nanoseconds. \<open>std::priority_queue\<close> is a list kept in order of expiry
  (the standard leaves the order of equal elements open, and no theorem depends on it).
  The model records in \<open>fired\<close> which tasks' callbacks were called, in order.
\<close>

type_synonym TimerId = uint64
type_synonym time_point = int
type_synonym TimerTaskPtr = nat

definition ns_per_ms :: int where
  "ns_per_ms = 1000000"

section \<open>State\<close>

record 'cb TimerTask =
  timer_id :: TimerId
  expire_time :: time_point
  interval :: int
  repeat :: bool
  cancelled :: bool
  timer_cb :: "'cb option"

record 'cb timers =
  tasks :: "'cb TimerTask list"
  m_delayed_tasks :: "TimerTaskPtr list"
  m_timers :: "TimerId \<rightharpoonup> TimerTaskPtr"
  m_next_timer_id :: TimerId
  fired :: "TimerTaskPtr list"

definition no_timers :: "'cb timers" where
  "no_timers = \<lparr>tasks = [], m_delayed_tasks = [], m_timers = Map.empty, m_next_timer_id = 1, fired = []\<rparr>"

definition expiry :: "'cb timers \<Rightarrow> TimerTaskPtr \<Rightarrow> time_point" where
  "expiry t p = expire_time (tasks t ! p)"

text \<open>A task still counts as live when it is not cancelled and its id is in the table.\<close>

definition dead :: "'cb timers \<Rightarrow> TimerTaskPtr \<Rightarrow> bool" where
  "dead t p \<longleftrightarrow> cancelled (tasks t ! p) \<or> m_timers t (timer_id (tasks t ! p)) = None"

section \<open>Operations\<close>

definition heap_push :: "TimerTaskPtr \<Rightarrow> 'cb timers \<Rightarrow> 'cb timers" where
  "heap_push p t = t\<lparr>m_delayed_tasks := insort_key (expiry t) p (m_delayed_tasks t)\<rparr>"

text \<open>The part \<open>RunAt\<close> and \<open>RunEvery\<close> share: a new task, entered in the table and the queue.\<close>

definition add_task :: "time_point \<Rightarrow> int \<Rightarrow> bool \<Rightarrow> 'cb option \<Rightarrow> 'cb timers \<Rightarrow> TimerId \<times> 'cb timers" where
  "add_task when iv rep cb t =
     (let timer = m_next_timer_id t;
          p = length (tasks t);
          task = \<lparr>timer_id = timer, expire_time = when, interval = iv, repeat = rep, cancelled = False,
                  timer_cb = cb\<rparr>;
          t = t\<lparr>m_next_timer_id := m_next_timer_id t + 1, tasks := tasks t @ [task]\<rparr>;
          t = t\<lparr>m_timers := (m_timers t)(timer \<mapsto> p)\<rparr>
      in (timer, heap_push p t))"

definition cancel_timer :: "TimerId \<Rightarrow> 'cb timers \<Rightarrow> bool \<times> 'cb timers" where
  "cancel_timer timer t =
     (case m_timers t timer of
        None \<Rightarrow> (False, t)
      | Some p \<Rightarrow>
          (True, t\<lparr>tasks := (tasks t)[p := (tasks t ! p)\<lparr>cancelled := True\<rparr>],
                   m_timers := (m_timers t)(timer := None)\<rparr>))"

text \<open>The locked part of \<open>ProcessDelayedTasks\<close>: pop every task that is due, keep the live ones.\<close>

function take_expired :: "time_point \<Rightarrow> 'cb timers \<Rightarrow> TimerTaskPtr list \<times> 'cb timers" where
  "take_expired now t =
     (case m_delayed_tasks t of
        [] \<Rightarrow> ([], t)
      | p # q \<Rightarrow>
          if expiry t p \<le> now then
            let (ready, t') = take_expired now (t\<lparr>m_delayed_tasks := q\<rparr>) in
            if dead t p then (ready, t') else (p # ready, t')
          else ([], t))"
  by pat_completeness auto
termination by (relation "measure (\<lambda>(now, t). length (m_delayed_tasks t))") auto

declare take_expired.simps [simp del]

text \<open>
  The body of the loop over the ready tasks. The state \<open>'s\<close> holds the timers (\<open>get\<close>, \<open>put\<close>);
  \<open>tick\<close> reads the steady clock and \<open>run\<close> executes a callback, which may use any of it.
\<close>

definition run_task ::
  "('s \<Rightarrow> 'cb timers) \<Rightarrow> ('cb timers \<Rightarrow> 's \<Rightarrow> 's) \<Rightarrow> ('cb \<Rightarrow> 's \<Rightarrow> 's result) \<Rightarrow> TimerTaskPtr \<Rightarrow> 's \<Rightarrow> 's result" where
  "run_task get put run p s =
     (case timer_cb (tasks (get s) ! p) of
        None \<Rightarrow> Inr s
      | Some c \<Rightarrow>
          if cancelled (tasks (get s) ! p) then Inr s
          else run c (put ((get s)\<lparr>fired := fired (get s) @ [p]\<rparr>) s))"

definition requeue_task ::
  "('s \<Rightarrow> 'cb timers) \<Rightarrow> ('cb timers \<Rightarrow> 's \<Rightarrow> 's) \<Rightarrow> ('s \<Rightarrow> time_point \<times> 's) \<Rightarrow> TimerTaskPtr \<Rightarrow> 's \<Rightarrow> 's" where
  "requeue_task get put tick p s =
     (if repeat (tasks (get s) ! p) then
        (if \<not> dead (get s) p then
           let (now, s) = tick s;
               t = get s;
               task = tasks t ! p;
               t = t\<lparr>tasks := (tasks t)[p := task\<lparr>expire_time := now + interval task * ns_per_ms\<rparr>]\<rparr>
           in put (heap_push p t) s
         else s)
      else
        let t = get s in
        put (t\<lparr>m_timers := (m_timers t)(timer_id (tasks t ! p) := None)\<rparr>) s)"

definition fire_task ::
  "('s \<Rightarrow> 'cb timers) \<Rightarrow> ('cb timers \<Rightarrow> 's \<Rightarrow> 's) \<Rightarrow> ('s \<Rightarrow> time_point \<times> 's) \<Rightarrow>
   ('cb \<Rightarrow> 's \<Rightarrow> 's result) \<Rightarrow> TimerTaskPtr \<Rightarrow> 's \<Rightarrow> 's result" where
  "fire_task get put tick run p s =
     rbind (run_task get put run p s) (\<lambda>s. Inr (requeue_task get put tick p s))"

definition process_timers ::
  "('s \<Rightarrow> 'cb timers) \<Rightarrow> ('cb timers \<Rightarrow> 's \<Rightarrow> 's) \<Rightarrow> ('s \<Rightarrow> time_point \<times> 's) \<Rightarrow>
   ('cb \<Rightarrow> 's \<Rightarrow> 's result) \<Rightarrow> 's \<Rightarrow> 's result" where
  "process_timers get put tick run s =
     (let (now, s) = tick s;
          (ready_tasks, t) = take_expired now (get s)
      in rfold (fire_task get put tick run) ready_tasks (put t s))"

text \<open>\<open>GetPollTimeoutMs\<close>, with the clock reading it starts with.\<close>

function poll_timeout :: "time_point \<Rightarrow> 'cb timers \<Rightarrow> int \<times> 'cb timers" where
  "poll_timeout now t =
     (case m_delayed_tasks t of
        [] \<Rightarrow> (10000, t)
      | p # q \<Rightarrow>
          if dead t p then poll_timeout now (t\<lparr>m_delayed_tasks := q\<rparr>)
          else if expiry t p \<le> now then (0, t)
          else
            let remain = (expiry t p - now) div ns_per_ms in
            if remain \<le> 0 then (0, t)
            else if remain > 10000 then (10000, t)
            else (remain, t))"
  by pat_completeness auto
termination by (relation "measure (\<lambda>(now, t). length (m_delayed_tasks t))") auto

declare poll_timeout.simps [simp del]

section \<open>Invariant\<close>

text \<open>
  The queue is ordered and holds each task at most once; the table points to the task with the id,
  which is not cancelled, is queued or about to be queued again (\<open>due\<close>), and is a periodic task if
  its callback was already called; a one-shot task is called at most once and leaves the queue.
  Fewer than \<open>2 ^ 64\<close> timers were created, so that the counter has not wrapped around.
\<close>

definition timers_ok :: "TimerTaskPtr set \<Rightarrow> 'cb timers \<Rightarrow> bool" where
  "timers_ok due t \<longleftrightarrow>
     sorted (map (expiry t) (m_delayed_tasks t)) \<and> distinct (m_delayed_tasks t) \<and>
     set (m_delayed_tasks t) \<subseteq> {..<length (tasks t)} \<and> due \<subseteq> {..<length (tasks t)} \<and>
     set (m_delayed_tasks t) \<inter> due = {} \<and>
     (\<forall>timer p. m_timers t timer = Some p \<longrightarrow>
        p < length (tasks t) \<and> timer_id (tasks t ! p) = timer \<and> \<not> cancelled (tasks t ! p) \<and>
        p \<in> set (m_delayed_tasks t) \<union> due) \<and>
     Suc (length (tasks t)) < 2 ^ 64 \<and> m_next_timer_id t = of_nat (Suc (length (tasks t))) \<and>
     (\<forall>p < length (tasks t). timer_id (tasks t ! p) = of_nat (Suc p)) \<and>
     (\<forall>p \<in> set (fired t). p < length (tasks t) \<and>
        (\<not> repeat (tasks t ! p) \<longrightarrow> p \<notin> set (m_delayed_tasks t) \<and> count_list (fired t) p = 1))"

text \<open>What a client can do to the timers: add new tasks and cancel tasks, nothing else.\<close>

definition timers_le :: "'cb timers \<Rightarrow> 'cb timers \<Rightarrow> bool" where
  "timers_le t t' \<longleftrightarrow>
     length (tasks t) \<le> length (tasks t') \<and> fired t' = fired t \<and>
     (\<forall>p < length (tasks t).
        tasks t' ! p = (tasks t ! p)\<lparr>cancelled := cancelled (tasks t' ! p)\<rparr> \<and>
        (cancelled (tasks t ! p) \<longrightarrow> cancelled (tasks t' ! p)) \<and>
        (p \<in> set (m_delayed_tasks t') \<longleftrightarrow> p \<in> set (m_delayed_tasks t)) \<and>
        (dead t p \<longrightarrow> dead t' p) \<and>
        (\<not> dead t p \<longrightarrow> \<not> cancelled (tasks t' ! p) \<longrightarrow> \<not> dead t' p))"

section \<open>The loops over the queue in closed form\<close>

lemma expiry_frame [simp]:
  "expiry (t\<lparr>m_delayed_tasks := q\<rparr>) = expiry t" "expiry (t\<lparr>m_timers := m\<rparr>) = expiry t"
  "expiry (t\<lparr>fired := f\<rparr>) = expiry t" "expiry (t\<lparr>m_next_timer_id := n\<rparr>) = expiry t"
  by (simp_all add: expiry_def fun_eq_iff)

lemma dead_frame [simp]:
  "dead (t\<lparr>m_delayed_tasks := q\<rparr>) = dead t" "dead (t\<lparr>fired := f\<rparr>) = dead t"
  "dead (t\<lparr>m_next_timer_id := n\<rparr>) = dead t"
  by (simp_all add: dead_def fun_eq_iff)

lemma take_expired_eq:
  "take_expired now t =
   (filter (\<lambda>p. \<not> dead t p) (takeWhile (\<lambda>p. expiry t p \<le> now) (m_delayed_tasks t)),
    t\<lparr>m_delayed_tasks := dropWhile (\<lambda>p. expiry t p \<le> now) (m_delayed_tasks t)\<rparr>)"
proof (induction "m_delayed_tasks t" arbitrary: t)
  case Nil
  then show ?case by (simp add: take_expired.simps [of now t])
next
  case (Cons p q)
  show ?case
    using Cons.hyps(1) [of "t\<lparr>m_delayed_tasks := q\<rparr>"] Cons.hyps(2) [symmetric]
    by (simp add: take_expired.simps [of now t])
qed

lemma poll_timeout_eq:
  "poll_timeout now t =
   (case dropWhile (dead t) (m_delayed_tasks t) of
      [] \<Rightarrow> 10000
    | p # q \<Rightarrow> max 0 (min 10000 ((expiry t p - now) div ns_per_ms)),
    t\<lparr>m_delayed_tasks := dropWhile (dead t) (m_delayed_tasks t)\<rparr>)"
proof (induction "m_delayed_tasks t" arbitrary: t)
  case Nil
  then show ?case by (simp add: poll_timeout.simps [of now t])
next
  case (Cons p q)
  have "(expiry t p - now) div ns_per_ms \<le> 0" if "expiry t p \<le> now"
    using that by (simp add: ns_per_ms_def)
  then show ?case
    using Cons.hyps(1) [of "t\<lparr>m_delayed_tasks := q\<rparr>"] Cons.hyps(2) [symmetric]
    by (cases "dead t p"; cases "dropWhile (dead t) q")
      (auto simp: poll_timeout.simps [of now t] Let_def simp del: dropWhile_eq_Nil_conv)
qed

section \<open>The operations keep the invariant\<close>

lemma timers_okD:
  assumes "timers_ok due t"
  shows "sorted (map (expiry t) (m_delayed_tasks t))" and "distinct (m_delayed_tasks t)"
    and "p \<in> set (m_delayed_tasks t) \<Longrightarrow> p < length (tasks t)" and "p \<in> due \<Longrightarrow> p < length (tasks t)"
    and "p \<in> due \<Longrightarrow> p \<notin> set (m_delayed_tasks t)"
    and "m_timers t timer = Some p \<Longrightarrow> p < length (tasks t) \<and> timer_id (tasks t ! p) = timer \<and>
      \<not> cancelled (tasks t ! p) \<and> p \<in> set (m_delayed_tasks t) \<union> due"
    and "Suc (length (tasks t)) < 2 ^ 64" and "m_next_timer_id t = of_nat (Suc (length (tasks t)))"
    and "p < length (tasks t) \<Longrightarrow> timer_id (tasks t ! p) = of_nat (Suc p)"
    and "p \<in> set (fired t) \<Longrightarrow> p < length (tasks t)"
    and "p \<in> set (fired t) \<Longrightarrow> \<not> repeat (tasks t ! p) \<Longrightarrow> p \<notin> set (m_delayed_tasks t)"
    and "p \<in> set (fired t) \<Longrightarrow> \<not> repeat (tasks t ! p) \<Longrightarrow> count_list (fired t) p = 1"
  using assms unfolding timers_ok_def by (blast+)

lemma timer_id_inject:
  assumes "timers_ok due t" and "p < length (tasks t)" and "q < length (tasks t)"
    and "timer_id (tasks t ! p) = timer_id (tasks t ! q)"
  shows "p = q"
proof -
  have "(of_nat (Suc p) :: 64 word) = of_nat (Suc q)"
    using assms(4) timers_okD(9) [OF assms(1)] assms(2,3) by simp
  moreover have "Suc p < 18446744073709551616" "Suc q < 18446744073709551616"
    using timers_okD(7) [OF assms(1)] assms(2,3) by simp_all
  ultimately have "Suc p = Suc q"
    using unat_of_nat_size_t [of "Suc p"] unat_of_nat_size_t [of "Suc q"] by metis
  then show ?thesis by simp
qed

text \<open>With unique ids, the lookup by id finds the task itself or nothing.\<close>

lemma dead_iff:
  assumes ok: "timers_ok due t" and p: "p < length (tasks t)"
  shows "dead t p \<longleftrightarrow> m_timers t (timer_id (tasks t ! p)) \<noteq> Some p"
proof (cases "m_timers t (timer_id (tasks t ! p))")
  case None
  then show ?thesis by (simp add: dead_def)
next
  case (Some q)
  then have "\<not> cancelled (tasks t ! q)" "q = p"
    using timers_okD(6) [OF ok Some] timer_id_inject [OF ok p, of q] by metis+
  with Some show ?thesis by (simp add: dead_def)
qed

lemma table_entry:
  assumes ok: "timers_ok due t" and "m_timers t timer = Some p"
  shows "\<not> dead t p" and "p < length (tasks t)"
  using assms timers_okD(6) [OF assms] by (auto simp: dead_def)

lemma timers_le_refl [simp]: "timers_le t t"
  by (simp add: timers_le_def)

lemma timers_ok_no_timers: "timers_ok {} no_timers"
  by (simp add: timers_ok_def no_timers_def)


lemma heap_push_simps [simp]:
  "tasks (heap_push p t) = tasks t" "m_timers (heap_push p t) = m_timers t"
  "m_next_timer_id (heap_push p t) = m_next_timer_id t" "fired (heap_push p t) = fired t"
  "expiry (heap_push p t) = expiry t" "dead (heap_push p t) = dead t"
  "set (m_delayed_tasks (heap_push p t)) = insert p (set (m_delayed_tasks t))"
  by (auto simp: heap_push_def set_insort_key)

lemma distinct_heap_push:
  "distinct (m_delayed_tasks (heap_push p t)) \<longleftrightarrow> p \<notin> set (m_delayed_tasks t) \<and> distinct (m_delayed_tasks t)"
  by (simp add: heap_push_def distinct_insort)

lemma sorted_heap_push:
  "sorted (map (expiry t) (m_delayed_tasks t)) \<Longrightarrow>
   sorted (map (expiry t) (m_delayed_tasks (heap_push p t)))"
  by (simp add: heap_push_def sorted_insort_key)

lemma expiry_cong: "(\<And>p. p \<in> set q \<Longrightarrow> tasks t' ! p = tasks t ! p) \<Longrightarrow> map (expiry t') q = map (expiry t) q"
  by (simp add: expiry_def)

lemma add_task_simps:
  fixes t :: "'cb timers"
  assumes "add_task when iv rep cb t = (timer, t')"
  defines "task \<equiv> \<lparr>timer_id = m_next_timer_id t, expire_time = when, interval = iv, repeat = rep,
    cancelled = False, timer_cb = cb\<rparr>"
  shows "timer = m_next_timer_id t" and "tasks t' = tasks t @ [task]"
    and "m_timers t' = (m_timers t)(timer \<mapsto> length (tasks t))" and "fired t' = fired t"
    and "m_next_timer_id t' = m_next_timer_id t + 1"
    and "set (m_delayed_tasks t') = insert (length (tasks t)) (set (m_delayed_tasks t))"
  using assms by (auto simp: add_task_def Let_def)

lemma add_task_ok:
  assumes ok: "timers_ok due t" and room: "Suc (Suc (length (tasks t))) < 2 ^ 64"
    and add: "add_task when iv rep cb t = (timer, t')"
  shows "timers_ok due t'"
proof -
  note s = add_task_simps [OF add]
  let ?n = "length (tasks t)"
  have old: "tasks t' ! p = tasks t ! p" if "p < ?n" for p using that by (simp add: s nth_append)
  have fresh: "?n \<notin> set (m_delayed_tasks t)" "?n \<notin> due" "?n \<notin> set (fired t)"
    using timers_okD(3,4,10) [OF ok, of ?n] by auto
  obtain u where u: "t' = heap_push ?n u" "m_delayed_tasks u = m_delayed_tasks t" "tasks u = tasks t'"
    using add by (auto simp: add_task_def Let_def)
  have "map (expiry u) (m_delayed_tasks u) = map (expiry t) (m_delayed_tasks t)"
    unfolding u(2) using timers_okD(3) [OF ok] old u(3) by (intro expiry_cong) simp
  then have "sorted (map (expiry t') (m_delayed_tasks t'))"
    using timers_okD(1) [OF ok] by (simp add: u(1) sorted_heap_push)
  moreover have "distinct (m_delayed_tasks t')"
    using timers_okD(2) [OF ok] fresh by (simp add: u distinct_heap_push)
  moreover have "q < length (tasks t') \<and> timer_id (tasks t' ! q) = tm \<and> \<not> cancelled (tasks t' ! q)
      \<and> q \<in> set (m_delayed_tasks t') \<union> due" if "m_timers t' tm = Some q" for tm q
  proof (cases "tm = timer")
    case True
    with that show ?thesis by (simp add: s nth_append)
  next
    case False
    with that timers_okD(6) [OF ok, of tm q] show ?thesis by (auto simp: s nth_append)
  qed
  moreover have "timer_id (tasks t' ! q) = of_nat (Suc q)" if "q < length (tasks t')" for q
    using that timers_okD(8,9) [OF ok] by (auto simp: s nth_append less_Suc_eq)
  moreover have "q < length (tasks t') \<and> (\<not> repeat (tasks t' ! q) \<longrightarrow>
      q \<notin> set (m_delayed_tasks t') \<and> count_list (fired t') q = 1)" if "q \<in> set (fired t')" for q
    using that timers_okD(10-12) [OF ok, of q] old [of q] fresh(3) by (auto simp: s)
  moreover have "set (m_delayed_tasks t') \<subseteq> {..<length (tasks t')}" "due \<subseteq> {..<length (tasks t')}"
    "set (m_delayed_tasks t') \<inter> due = {}" "m_next_timer_id t' = of_nat (Suc (length (tasks t')))"
    using timers_okD(3-5,8) [OF ok] fresh by (fastforce simp: s intro: less_SucI)+
  ultimately show ?thesis
    unfolding timers_ok_def using room by (simp add: s)
qed

lemma add_task_le:
  assumes ok: "timers_ok due t" and add: "add_task when iv rep cb t = (timer, t')"
  shows "timers_le t t'"
proof -
  note s = add_task_simps [OF add]
  have "timer_id (tasks t ! p) \<noteq> timer" if "p < length (tasks t)" for p
  proof
    assume "timer_id (tasks t ! p) = timer"
    then have "(of_nat (Suc p) :: 64 word) = of_nat (Suc (length (tasks t)))"
      using timers_okD(8,9) [OF ok] that s(1) by simp
    moreover have "Suc p < 18446744073709551616" "Suc (length (tasks t)) < 18446744073709551616"
      using that timers_okD(7) [OF ok] by simp_all
    ultimately have "Suc p = Suc (length (tasks t))"
      using unat_of_nat_size_t [of "Suc p"] unat_of_nat_size_t [of "Suc (length (tasks t))"] by metis
    with that show False by simp
  qed
  then show ?thesis
    unfolding timers_le_def by (auto simp: s nth_append dead_def)
qed

lemma cancel_timer_simps:
  assumes "cancel_timer timer t = (b, t')" and "m_timers t timer = Some p"
  shows "b" and "t' = t\<lparr>tasks := (tasks t)[p := (tasks t ! p)\<lparr>cancelled := True\<rparr>],
    m_timers := (m_timers t)(timer := None)\<rparr>"
  using assms by (simp_all add: cancel_timer_def)

lemma cancel_timer_ok:
  assumes ok: "timers_ok due t" and c: "cancel_timer timer t = (b, t')"
  shows "timers_ok due t'"
proof (cases "m_timers t timer")
  case None
  with c ok show ?thesis by (simp add: cancel_timer_def)
next
  case (Some p)
  note t' = cancel_timer_simps(2) [OF c Some]
  have "p < length (tasks t)" using table_entry(2) [OF ok Some] .
  then have same: "expire_time (tasks t' ! q) = expire_time (tasks t ! q)"
    "timer_id (tasks t' ! q) = timer_id (tasks t ! q)" "repeat (tasks t' ! q) = repeat (tasks t ! q)"
    "q \<noteq> p \<Longrightarrow> tasks t' ! q = tasks t ! q" for q
    by (simp_all add: t' nth_list_update)
  then have exp: "expiry t' = expiry t" by (simp add: expiry_def fun_eq_iff)
  have "q < length (tasks t') \<and> timer_id (tasks t' ! q) = tm \<and> \<not> cancelled (tasks t' ! q)
      \<and> q \<in> set (m_delayed_tasks t') \<union> due" if "m_timers t' tm = Some q" for tm q
  proof -
    from that have tm: "tm \<noteq> timer" "m_timers t tm = Some q" by (auto simp: t' split: if_splits)
    with timers_okD(6) [OF ok tm(2)] timers_okD(6) [OF ok Some] have "q \<noteq> p" by metis
    then have "tasks t' ! q = tasks t ! q" by (rule same(4))
    moreover have "length (tasks t') = length (tasks t)" "m_delayed_tasks t' = m_delayed_tasks t"
      by (simp_all add: t')
    ultimately show ?thesis using timers_okD(6) [OF ok tm(2)] by simp
  qed
  then show ?thesis
    using ok unfolding timers_ok_def exp same by (simp add: t')
qed

lemma cancel_timer_le:
  assumes ok: "timers_ok due t" and c: "cancel_timer timer t = (b, t')"
  shows "timers_le t t'"
proof (cases "m_timers t timer")
  case None
  with c show ?thesis by (simp add: cancel_timer_def)
next
  case (Some p)
  note t' = cancel_timer_simps(2) [OF c Some]
  have p: "timer_id (tasks t ! p) = timer" "p < length (tasks t)" using timers_okD(6) [OF ok Some] by auto
  have other: "timer_id (tasks t ! q) \<noteq> timer" if "q < length (tasks t)" "q \<noteq> p" for q
    using timer_id_inject [OF ok that(1) p(2)] that(2) p(1) by auto
  show ?thesis
    unfolding timers_le_def
  proof (intro conjI allI impI)
    fix q assume "q < length (tasks t)"
    with other [of q] p show "tasks t' ! q = (tasks t ! q)\<lparr>cancelled := cancelled (tasks t' ! q)\<rparr>"
      "cancelled (tasks t ! q) \<Longrightarrow> cancelled (tasks t' ! q)"
      "dead t q \<Longrightarrow> dead t' q" "\<not> dead t q \<Longrightarrow> \<not> cancelled (tasks t' ! q) \<Longrightarrow> \<not> dead t' q"
      by (cases "q = p"; simp add: t' dead_def)+
  qed (simp_all add: t')
qed

text \<open>A cancelled timer is dead at once.\<close>

lemma cancel_timer_dead:
  assumes "timers_ok due t" and "m_timers t timer = Some p" and "cancel_timer timer t = (b, t')"
  shows "b" and "cancelled (tasks t' ! p)"
  using cancel_timer_simps [OF assms(3,2)] table_entry(2) [OF assms(1,2)] by auto

lemma timers_le_trans:
  assumes "timers_le t u" and "timers_le u v"
  shows "timers_le t v"
  unfolding timers_le_def
proof (intro conjI allI impI)
  fix p assume p: "p < length (tasks t)"
  then have q: "p < length (tasks u)" using assms(1) by (simp add: timers_le_def)
  from p assms(1) have tu: "tasks u ! p = (tasks t ! p)\<lparr>cancelled := cancelled (tasks u ! p)\<rparr>"
    by (simp add: timers_le_def)
  from q assms(2) have uv: "tasks v ! p = (tasks u ! p)\<lparr>cancelled := cancelled (tasks v ! p)\<rparr>"
    by (simp add: timers_le_def)
  show "tasks v ! p = (tasks t ! p)\<lparr>cancelled := cancelled (tasks v ! p)\<rparr>"
    using uv by (subst uv, subst tu) simp
  show "cancelled (tasks t ! p) \<Longrightarrow> cancelled (tasks v ! p)"
    "p \<in> set (m_delayed_tasks v) \<longleftrightarrow> p \<in> set (m_delayed_tasks t)"
    "dead t p \<Longrightarrow> dead v p" "\<not> dead t p \<Longrightarrow> \<not> cancelled (tasks v ! p) \<Longrightarrow> \<not> dead v p"
    using assms p q unfolding timers_le_def by blast+
qed (use assms in \<open>simp_all add: timers_le_def\<close>)

section \<open>Processing the due tasks\<close>

text \<open>
  How the timers evolve while the tasks of \<open>S\<close> are processed: the others keep their place in the
  queue and their expiry time, and no task that was cancelled or done comes back to life.
\<close>

definition timers_evolve :: "TimerTaskPtr set \<Rightarrow> 'cb timers \<Rightarrow> 'cb timers \<Rightarrow> bool" where
  "timers_evolve S t t' \<longleftrightarrow>
     length (tasks t) \<le> length (tasks t') \<and>
     (\<forall>q < length (tasks t).
        tasks t' ! q = (tasks t ! q)\<lparr>cancelled := cancelled (tasks t' ! q), expire_time := expiry t' q\<rparr> \<and>
        (cancelled (tasks t ! q) \<longrightarrow> cancelled (tasks t' ! q)) \<and> (dead t q \<longrightarrow> dead t' q) \<and>
        (q \<notin> S \<longrightarrow> expiry t' q = expiry t q \<and>
           (q \<in> set (m_delayed_tasks t') \<longleftrightarrow> q \<in> set (m_delayed_tasks t)) \<and>
           (\<not> dead t q \<longrightarrow> \<not> cancelled (tasks t' ! q) \<longrightarrow> \<not> dead t' q)))"

lemma timers_evolveD:
  assumes "timers_evolve S t t'" and "q < length (tasks t)"
  shows "q < length (tasks t')"
    and "timer_id (tasks t' ! q) = timer_id (tasks t ! q)" "interval (tasks t' ! q) = interval (tasks t ! q)"
    and "repeat (tasks t' ! q) = repeat (tasks t ! q)" "timer_cb (tasks t' ! q) = timer_cb (tasks t ! q)"
    and "cancelled (tasks t ! q) \<Longrightarrow> cancelled (tasks t' ! q)" "dead t q \<Longrightarrow> dead t' q"
    and "q \<notin> S \<Longrightarrow> expiry t' q = expiry t q"
    and "q \<notin> S \<Longrightarrow> q \<in> set (m_delayed_tasks t') \<longleftrightarrow> q \<in> set (m_delayed_tasks t)"
    and "q \<notin> S \<Longrightarrow> \<not> dead t q \<Longrightarrow> \<not> cancelled (tasks t' ! q) \<Longrightarrow> \<not> dead t' q"
proof -
  have eq: "tasks t' ! q = (tasks t ! q)\<lparr>cancelled := cancelled (tasks t' ! q), expire_time := expiry t' q\<rparr>"
    using assms by (simp add: timers_evolve_def)
  show "timer_id (tasks t' ! q) = timer_id (tasks t ! q)" "interval (tasks t' ! q) = interval (tasks t ! q)"
    "repeat (tasks t' ! q) = repeat (tasks t ! q)" "timer_cb (tasks t' ! q) = timer_cb (tasks t ! q)"
    by (subst eq, simp)+
qed (use assms in \<open>auto simp: timers_evolve_def\<close>)

lemma timers_evolve_trans:
  assumes tu: "timers_evolve S t u" and uv: "timers_evolve R u v"
  shows "timers_evolve (S \<union> R) t v"
  unfolding timers_evolve_def
proof (intro conjI allI impI)
  show "length (tasks t) \<le> length (tasks v)"
    using tu uv by (simp add: timers_evolve_def)
  fix q assume q: "q < length (tasks t)"
  note a = timers_evolveD [OF tu q] note b = timers_evolveD [OF uv a(1)]
  show "tasks v ! q = (tasks t ! q)\<lparr>cancelled := cancelled (tasks v ! q), expire_time := expiry v q\<rparr>"
    using a(2-5) b(2-5) by (intro TimerTask.equality) (simp_all add: expiry_def)
  show "cancelled (tasks t ! q) \<Longrightarrow> cancelled (tasks v ! q)" "dead t q \<Longrightarrow> dead v q"
    using a(6,7) b(6,7) by blast+
  assume "q \<notin> S \<union> R"
  then show "expiry v q = expiry t q"
    "q \<in> set (m_delayed_tasks v) \<longleftrightarrow> q \<in> set (m_delayed_tasks t)"
    "\<not> dead t q \<Longrightarrow> \<not> cancelled (tasks v ! q) \<Longrightarrow> \<not> dead v q"
    using a b by auto
qed

lemma timers_evolve_mono: "timers_evolve S t u \<Longrightarrow> S \<subseteq> R \<Longrightarrow> timers_evolve R t u"
  unfolding timers_evolve_def by blast

lemma timers_le_evolve:
  assumes "timers_le t t'"
  shows "timers_evolve S t t'"
  unfolding timers_evolve_def
proof (intro conjI allI impI)
  fix q assume q: "q < length (tasks t)"
  then have eq: "tasks t' ! q = (tasks t ! q)\<lparr>cancelled := cancelled (tasks t' ! q)\<rparr>"
    using assms by (simp add: timers_le_def)
  then show "expiry t' q = expiry t q"
    unfolding expiry_def by (metis TimerTask.select_convs(2) TimerTask.surjective TimerTask.update_convs(5))
  with eq show "tasks t' ! q = (tasks t ! q)\<lparr>cancelled := cancelled (tasks t' ! q), expire_time := expiry t' q\<rparr>"
    by (simp add: expiry_def)
qed (use assms in \<open>simp_all add: timers_le_def\<close>)

text \<open>A callback uses the timers only through the operations, and the clock only moves forward.\<close>

definition timer_client ::
  "('s \<Rightarrow> 'cb timers) \<Rightarrow> (time_point \<Rightarrow> 's \<Rightarrow> bool) \<Rightarrow> ('cb \<Rightarrow> 's \<Rightarrow> 's result) \<Rightarrow> bool" where
  "timer_client get after run \<longleftrightarrow>
     (\<forall>c s s'. run c s = Inr s' \<longrightarrow>
        (\<forall>due. timers_ok due (get s) \<longrightarrow> timers_le (get s) (get s') \<and> timers_ok due (get s')) \<and>
        (\<forall>\<tau>. after \<tau> s \<longrightarrow> after \<tau> s'))"

text \<open>The three ways the second half of the loop body ends.\<close>

definition requeue :: "TimerTaskPtr \<Rightarrow> time_point \<Rightarrow> 'cb timers \<Rightarrow> 'cb timers" where
  "requeue p e t = heap_push p (t\<lparr>tasks := (tasks t)[p := (tasks t ! p)\<lparr>expire_time := e\<rparr>]\<rparr>)"

lemma requeue_simps:
  "fired (requeue p e t) = fired t" "m_timers (requeue p e t) = m_timers t"
  "m_next_timer_id (requeue p e t) = m_next_timer_id t"
  "set (m_delayed_tasks (requeue p e t)) = insert p (set (m_delayed_tasks t))"
  "tasks (requeue p e t) = (tasks t)[p := (tasks t ! p)\<lparr>expire_time := e\<rparr>]"
  by (simp_all add: requeue_def)

lemma requeue_fields:
  assumes "p < length (tasks t)"
  shows "tasks (requeue p e t) ! q = (tasks t ! q)\<lparr>expire_time := if q = p then e else expiry t q\<rparr>"
    and "expiry (requeue p e t) q = (if q = p then e else expiry t q)"
    and "dead (requeue p e t) q = dead t q"
  using assms by (simp_all add: requeue_simps nth_list_update expiry_def dead_def)

lemma requeue_ok:
  assumes ok: "timers_ok (insert p due) t" and new: "p \<notin> due" and rep: "repeat (tasks t ! p)"
  shows "timers_ok due (requeue p e t)"
proof -
  have p: "p < length (tasks t)" "p \<notin> set (m_delayed_tasks t)"
    using timers_okD(4,5) [OF ok, of p] by auto
  define u where "u = t\<lparr>tasks := (tasks t)[p := (tasks t ! p)\<lparr>expire_time := e\<rparr>]\<rparr>"
  have u: "requeue p e t = heap_push p u" by (simp add: requeue_def u_def)
  have "map (expiry u) (m_delayed_tasks u) = map (expiry t) (m_delayed_tasks t)"
    using p by (auto simp: u_def expiry_def nth_list_update)
  then have "sorted (map (expiry (requeue p e t)) (m_delayed_tasks (requeue p e t)))"
    using timers_okD(1) [OF ok] by (simp add: u sorted_heap_push)
  moreover have "distinct (m_delayed_tasks (requeue p e t))"
    using timers_okD(2) [OF ok] p(2) by (simp add: u distinct_heap_push) (simp add: u_def)
  moreover have "q < length (tasks t) \<and> (\<not> repeat (tasks t ! q) \<longrightarrow>
      q \<noteq> p \<and> q \<notin> set (m_delayed_tasks t) \<and> count_list (fired t) q = 1)" if "q \<in> set (fired t)" for q
    using timers_okD(10-12) [OF ok that] rep by metis
  ultimately show ?thesis
    using ok new p unfolding timers_ok_def
    by (simp add: requeue_simps(1-4) requeue_fields(1) [OF p(1)] requeue_simps(5) [THEN arg_cong, of length])
qed

lemma requeue_evolve:
  assumes "p < length (tasks t)"
  shows "timers_evolve {p} t (requeue p e t)"
  unfolding timers_evolve_def
proof (intro conjI allI impI)
  fix q assume "q < length (tasks t)"
  show "tasks (requeue p e t) ! q = (tasks t ! q)
      \<lparr>cancelled := cancelled (tasks (requeue p e t) ! q), expire_time := expiry (requeue p e t) q\<rparr>"
    unfolding requeue_fields [OF assms] by simp
qed (simp_all add: requeue_fields [OF assms] requeue_simps(4) requeue_simps(5) [THEN arg_cong, of length])

lemma timers_ok_drop:
  assumes ok: "timers_ok (insert p due) t" and "p \<notin> due" and "dead t p"
  shows "timers_ok due t"
proof -
  have "m_timers t timer \<noteq> Some p" for timer
    using table_entry(1) [OF ok] assms(3) by blast
  then show ?thesis using ok unfolding timers_ok_def by blast
qed

definition finish :: "TimerTaskPtr \<Rightarrow> 'cb timers \<Rightarrow> 'cb timers" where
  "finish p t = t\<lparr>m_timers := (m_timers t)(timer_id (tasks t ! p) := None)\<rparr>"

lemma finish_dead: "dead (finish p t) p"
  by (simp add: finish_def dead_def)

lemma finish_ok:
  assumes ok: "timers_ok (insert p due) t" and "p \<notin> due"
  shows "timers_ok due (finish p t)"
proof -
  have "timers_ok (insert p due) (finish p t)"
    using ok unfolding timers_ok_def finish_def by (auto split: if_splits)
  from timers_ok_drop [OF this assms(2) finish_dead] show ?thesis .
qed

lemma finish_evolve:
  assumes ok: "timers_ok due t" and p: "p < length (tasks t)"
  shows "timers_evolve {p} t (finish p t)"
proof -
  have "timer_id (tasks t ! q) \<noteq> timer_id (tasks t ! p)" if "q < length (tasks t)" "q \<noteq> p" for q
    using timer_id_inject [OF ok that(1) p] that(2) by blast
  then show ?thesis
    unfolding timers_evolve_def by (auto simp: finish_def expiry_def dead_def)
qed

text \<open>What processing a live due task means for it.\<close>

definition processed :: "time_point \<Rightarrow> TimerTaskPtr \<Rightarrow> 'cb timers \<Rightarrow> 'cb timers \<Rightarrow> bool" where
  "processed \<tau> p t t' \<longleftrightarrow>
     (timer_cb (tasks t ! p) \<noteq> None \<and> \<not> cancelled (tasks t' ! p) \<longrightarrow> p \<in> set (drop (length (fired t)) (fired t'))) \<and>
     (\<not> repeat (tasks t ! p) \<longrightarrow> dead t' p \<and> p \<notin> set (m_delayed_tasks t')) \<and>
     (repeat (tasks t ! p) \<and> \<not> dead t p \<and> \<not> cancelled (tasks t' ! p) \<longrightarrow>
        \<not> dead t' p \<and> p \<in> set (m_delayed_tasks t') \<and>
        \<tau> + interval (tasks t ! p) * ns_per_ms \<le> expiry t' p)"

text \<open>Storage for timers inside a larger state, with a steady clock.\<close>

locale timer_host =
  fixes get :: "'s \<Rightarrow> 'cb timers"
    and put :: "'cb timers \<Rightarrow> 's \<Rightarrow> 's"
    and tick :: "'s \<Rightarrow> time_point \<times> 's"
    and after :: "time_point \<Rightarrow> 's \<Rightarrow> bool"
  assumes get_put [simp]: "get (put t s) = t"
    and get_tick [simp]: "get (snd (tick s)) = get s"
    and after_put [simp]: "after \<tau> (put t s) \<longleftrightarrow> after \<tau> s"
    and after_tick: "after \<tau> s \<Longrightarrow> \<tau> \<le> fst (tick s) \<and> after \<tau> (snd (tick s))"
    and tick_after: "after (fst (tick s)) (snd (tick s))"
begin

text \<open>The call of the callback, the first half of the loop body.\<close>

lemma call_task:
  assumes ok: "timers_ok due (get s)" and client: "timer_client get after run" and p: "p \<in> due"
    and new: "repeat (tasks (get s) ! p) \<or> p \<notin> set (fired (get s))"
    and r: "run_task get put run p s = Inr s'"
  shows "timers_ok due (get s')" and "timers_evolve {} (get s) (get s')"
    and "fired (get s') = fired (get s) @
      (if timer_cb (tasks (get s) ! p) \<noteq> None \<and> \<not> cancelled (tasks (get s) ! p) then [p] else [])"
    and "after \<tau> s \<Longrightarrow> after \<tau> s'"
proof -
  define t1 where "t1 = (get s)\<lparr>fired := fired (get s) @ [p]\<rparr>"
  have plen: "p < length (tasks (get s))" and pheap: "p \<notin> set (m_delayed_tasks (get s))"
    using timers_okD(4,5) [OF ok p] by auto
  have ok1: "timers_ok due t1"
    using ok plen pheap new timers_okD(12) [OF ok]
    unfolding timers_ok_def t1_def expiry_frame by (auto simp: count_notin)
  have ev1: "timers_evolve {} (get s) t1" by (simp add: timers_evolve_def t1_def expiry_def)
  have same: "timers_evolve {} (get s) (get s)" by (simp add: timers_evolve_def expiry_def)
  let ?ran = "timer_cb (tasks (get s) ! p) \<noteq> None \<and> \<not> cancelled (tasks (get s) ! p)"
  have "timers_ok due (get s') \<and> timers_evolve {} (get s) (get s') \<and>
    fired (get s') = fired (get s) @ (if ?ran then [p] else []) \<and> (\<forall>\<tau>. after \<tau> s \<longrightarrow> after \<tau> s')"
  proof (cases ?ran)
    case False
    with r have "s' = s" by (auto simp: run_task_def split: option.splits)
    with False ok same show ?thesis by simp
  next
    case True
    with r obtain c where c: "run c (put t1 s) = Inr s'" by (auto simp: t1_def run_task_def)
    then have step: "timers_le t1 (get s') \<and> timers_ok due (get s')" "\<forall>\<tau>. after \<tau> s \<longrightarrow> after \<tau> s'"
      using client ok1 unfolding timer_client_def by (metis get_put, metis after_put)
    then have "timers_evolve {} (get s) (get s')"
      using timers_evolve_trans [OF ev1 timers_le_evolve [of t1 "get s'" "{}"]] by simp
    with True step show ?thesis by (simp add: timers_le_def t1_def)
  qed
  then show "timers_ok due (get s')" "timers_evolve {} (get s) (get s')"
    "fired (get s') = fired (get s) @ (if ?ran then [p] else [])" "after \<tau> s \<Longrightarrow> after \<tau> s'"
    by blast+
qed

lemma fire_task_step:
  assumes ok: "timers_ok (insert p due) (get s)" and client: "timer_client get after run" and p: "p \<notin> due"
    and new: "repeat (tasks (get s) ! p) \<or> p \<notin> set (fired (get s))"
    and r: "fire_task get put tick run p s = Inr s'" and \<tau>: "after \<tau> s"
  shows "timers_ok due (get s')" and "timers_evolve {p} (get s) (get s')" and "after \<tau> s'"
    and "fired (get s') = fired (get s) @
      (if timer_cb (tasks (get s) ! p) \<noteq> None \<and> \<not> cancelled (tasks (get s) ! p) then [p] else [])"
    and "\<not> repeat (tasks (get s) ! p) \<Longrightarrow> dead (get s') p \<and> p \<notin> set (m_delayed_tasks (get s'))"
    and "repeat (tasks (get s) ! p) \<Longrightarrow> \<not> dead (get s) p \<Longrightarrow> \<not> cancelled (tasks (get s') ! p) \<Longrightarrow>
      \<not> dead (get s') p \<and> p \<in> set (m_delayed_tasks (get s')) \<and>
      \<tau> + interval (tasks (get s) ! p) * ns_per_ms \<le> expiry (get s') p"
proof -
  from r obtain s1 where s1: "run_task get put run p s = Inr s1"
    and s': "requeue_task get put tick p s1 = s'"
    by (auto simp: fire_task_def rbind_eq_Inr_iff)
  note c = call_task [OF ok client insertI1 new s1]
  have plen: "p < length (tasks (get s))" using timers_okD(4) [OF ok, of p] by simp
  note e1 = timers_evolveD [OF c(2) plen]
  have heap1: "p \<notin> set (m_delayed_tasks (get s1))" using timers_okD(5) [OF c(1), of p] by simp
  obtain now s2 where tick: "tick s1 = (now, s2)" by (cases "tick s1")
  then have get2: "get s2 = get s1" using get_tick [of s1] by simp
  have s'_eq: "s' = (if repeat (tasks (get s) ! p) then
      if \<not> dead (get s1) p
      then put (requeue p (now + interval (tasks (get s) ! p) * ns_per_ms) (get s1)) s2 else s1
    else put (finish p (get s1)) s1)"
    unfolding s' [symmetric] requeue_task_def tick e1(4)
    by (simp add: get2 requeue_def finish_def Let_def e1(3))
  consider (again) now s2 where "repeat (tasks (get s) ! p)" "\<not> dead (get s1) p" "tick s1 = (now, s2)"
      "s' = put (requeue p (now + interval (tasks (get s) ! p) * ns_per_ms) (get s1)) s2" "get s2 = get s1"
    | (gone) "repeat (tasks (get s) ! p)" "dead (get s1) p" "s' = s1"
    | (once) "\<not> repeat (tasks (get s) ! p)" "s' = put (finish p (get s1)) s1"
    using s'_eq tick get2 by metis
  then have "timers_ok due (get s') \<and> timers_evolve {p} (get s1) (get s') \<and> after \<tau> s' \<and>
    fired (get s') = fired (get s1) \<and>
    (\<not> repeat (tasks (get s) ! p) \<longrightarrow> dead (get s') p \<and> p \<notin> set (m_delayed_tasks (get s'))) \<and>
    (repeat (tasks (get s) ! p) \<and> \<not> dead (get s1) p \<longrightarrow> \<not> dead (get s') p \<and>
      p \<in> set (m_delayed_tasks (get s')) \<and>
      \<tau> + interval (tasks (get s) ! p) * ns_per_ms \<le> expiry (get s') p) \<and>
    (repeat (tasks (get s) ! p) \<and> dead (get s1) p \<longrightarrow> s' = s1)"
  proof cases
    case again
    have "\<tau> \<le> now" "after \<tau> s2" using after_tick [OF c(4) [OF \<tau>]] again(3) by auto
    with again requeue_ok [OF c(1) p] requeue_evolve [OF e1(1)] e1(4) show ?thesis
      by (simp add: requeue_simps requeue_fields [OF e1(1)])
  next
    case gone
    with timers_ok_drop [OF c(1) p] c(4) [OF \<tau>] show ?thesis
      by (simp add: timers_evolve_def expiry_def)
  next
    case once
    with finish_ok [OF c(1) p] finish_evolve [OF c(1) e1(1)] c(4) [OF \<tau>] finish_dead heap1 show ?thesis
      by (auto simp: finish_def)
  qed
  note f = this
  show "timers_ok due (get s')" "after \<tau> s'"
    "\<not> repeat (tasks (get s) ! p) \<Longrightarrow> dead (get s') p \<and> p \<notin> set (m_delayed_tasks (get s'))"
    using f by blast+
  show "timers_evolve {p} (get s) (get s')" using timers_evolve_trans [OF c(2)] f by fastforce
  show "fired (get s') = fired (get s) @
      (if timer_cb (tasks (get s) ! p) \<noteq> None \<and> \<not> cancelled (tasks (get s) ! p) then [p] else [])"
    using f c(3) by simp
  assume "repeat (tasks (get s) ! p)" "\<not> dead (get s) p" "\<not> cancelled (tasks (get s') ! p)"
  moreover have "\<not> dead (get s1) p" if "\<not> dead (get s) p" "\<not> cancelled (tasks (get s1) ! p)"
    using e1(10) that by simp
  moreover have "\<not> cancelled (tasks (get s1) ! p)" if "\<not> cancelled (tasks (get s') ! p)"
    using timers_evolveD(6) [OF _ e1(1)] f that by blast
  ultimately show "\<not> dead (get s') p \<and> p \<in> set (m_delayed_tasks (get s')) \<and>
      \<tau> + interval (tasks (get s) ! p) * ns_per_ms \<le> expiry (get s') p"
    using f by blast
qed

lemma fire_tasks:
  assumes "timers_ok (set ps) (get s)" and client: "timer_client get after run" and "distinct ps"
    and "\<forall>p \<in> set ps. repeat (tasks (get s) ! p) \<or> p \<notin> set (fired (get s))"
    and "rfold (fire_task get put tick run) ps s = Inr s'" and "after \<tau> s"
  shows "timers_ok {} (get s') \<and> timers_evolve (set ps) (get s) (get s') \<and>
    (\<exists>B. fired (get s') = fired (get s) @ filter B ps \<and>
         (\<forall>p \<in> set ps. B p \<longrightarrow> \<not> cancelled (tasks (get s) ! p))) \<and>
    (\<forall>p \<in> set ps. processed \<tau> p (get s) (get s'))"
  using assms(1,3-)
proof (induction ps arbitrary: s)
  case Nil
  then show ?case by (simp add: timers_evolve_def expiry_def)
next
  case (Cons p ps)
  from Cons.prems(4) obtain s1 where s1: "fire_task get put tick run p s = Inr s1"
    and rest: "rfold (fire_task get put tick run) ps s1 = Inr s'"
    by (auto simp: rbind_eq_Inr_iff)
  have ok: "timers_ok (insert p (set ps)) (get s)" and p: "p \<notin> set ps" and
    new: "repeat (tasks (get s) ! p) \<or> p \<notin> set (fired (get s))"
    using Cons.prems(1-3) by auto
  note f = fire_task_step [OF ok client p new s1 Cons.prems(5)]
  have len: "q < length (tasks (get s))" if "q \<in> set (p # ps)" for q
    using timers_okD(4) [OF Cons.prems(1)] that by blast
  note e = timers_evolveD [OF f(2) len]
  have new1: "\<forall>q \<in> set ps. repeat (tasks (get s1) ! q) \<or> q \<notin> set (fired (get s1))"
    using Cons.prems(3) e(4) p f(4) by auto
  from Cons.IH [OF f(1) _ new1 rest f(3)] Cons.prems(2)
  obtain B where ih: "timers_ok {} (get s')" "timers_evolve (set ps) (get s1) (get s')"
    "fired (get s') = fired (get s1) @ filter B ps"
    "\<forall>q \<in> set ps. B q \<longrightarrow> \<not> cancelled (tasks (get s1) ! q)"
    "\<forall>q \<in> set ps. processed \<tau> q (get s1) (get s')" by auto
  note e' = timers_evolveD [OF ih(2) e(1)]
  let ?ran = "timer_cb (tasks (get s) ! p) \<noteq> None \<and> \<not> cancelled (tasks (get s) ! p)"
  define B' where "B' q = (if q = p then ?ran else B q)" for q
  have filt: "filter B' (p # ps) = (if ?ran then [p] else []) @ filter B ps"
  proof -
    have "filter B' ps = filter B ps" using p by (intro filter_cong) (auto simp: B'_def)
    then show ?thesis by (simp add: B'_def)
  qed
  have fired: "fired (get s') = fired (get s) @ filter B' (p # ps)"
    unfolding ih(3) f(4) filt by simp
  have B': "\<forall>q \<in> set (p # ps). B' q \<longrightarrow> \<not> cancelled (tasks (get s) ! q)"
    using ih(4) e(6) by (auto simp: B'_def)
  have "processed \<tau> p (get s) (get s')"
    unfolding processed_def fired filt
    using f(5,6) e' [of p] e(6) [of p] p by auto
  moreover have "processed \<tau> q (get s) (get s')" if q: "q \<in> set ps" for q
  proof -
    have "q \<noteq> p" using q p by blast
    with q e [of q] have same: "timer_cb (tasks (get s1) ! q) = timer_cb (tasks (get s) ! q)"
      "repeat (tasks (get s1) ! q) = repeat (tasks (get s) ! q)"
      "interval (tasks (get s1) ! q) = interval (tasks (get s) ! q)"
      "\<not> dead (get s) q \<Longrightarrow> \<not> cancelled (tasks (get s1) ! q) \<Longrightarrow> \<not> dead (get s1) q"
      by auto
    have mono: "cancelled (tasks (get s1) ! q) \<Longrightarrow> cancelled (tasks (get s') ! q)"
      using e'(6) [of q] q by simp
    have "set (drop (length (fired (get s1))) (fired (get s')))
        \<subseteq> set (drop (length (fired (get s))) (fired (get s')))"
      unfolding ih(3) f(4) by auto
    moreover have "processed \<tau> q (get s1) (get s')" using ih(5) q by blast
    ultimately show ?thesis using same mono unfolding processed_def by auto
  qed
  moreover have "timers_evolve (set (p # ps)) (get s) (get s')"
    using timers_evolve_trans [OF f(2) ih(2)] by simp
  ultimately show ?case using ih(1) fired B' by auto
qed

text \<open>One pass over the timers.\<close>

lemma process_timers_step:
  assumes ok: "timers_ok {} (get s)" and client: "timer_client get after run"
    and r: "process_timers get put tick run s = Inr s'"
  defines "now \<equiv> fst (tick s)"
  defines "ready \<equiv> filter (\<lambda>p. \<not> dead (get s) p) (takeWhile (\<lambda>p. expiry (get s) p \<le> now) (m_delayed_tasks (get s)))"
  shows "timers_ok {} (get s')" and "timers_evolve (set (takeWhile (\<lambda>p. expiry (get s) p \<le> now)
      (m_delayed_tasks (get s)))) (get s) (get s')"
    and "\<exists>B. fired (get s') = fired (get s) @ filter B ready"
    and "p \<in> set ready \<Longrightarrow> processed now p (get s) (get s')"
proof -
  obtain s0 where s0: "tick s = (now, s0)" by (cases "tick s") (simp add: now_def)
  then have get0: "get s0 = get s" and \<tau>: "after now s0"
    using get_tick [of s] tick_after [of s] by auto
  define q where "q = m_delayed_tasks (get s)"
  define due where "due = takeWhile (\<lambda>p. expiry (get s) p \<le> now) q"
  define t where "t = (get s)\<lparr>m_delayed_tasks := dropWhile (\<lambda>p. expiry (get s) p \<le> now) q\<rparr>"
  have ready: "ready = filter (\<lambda>p. \<not> dead (get s) p) due" by (simp add: ready_def due_def q_def)
  have split: "q = due @ m_delayed_tasks t" by (simp add: due_def t_def)
  have run: "rfold (fire_task get put tick run) ready (put t s0) = Inr s'"
    using r by (simp add: process_timers_def s0 take_expired_eq get0 ready due_def q_def t_def)
  have okt: "timers_ok (set ready) t"
  proof -
    have parts: "distinct (due @ m_delayed_tasks t)" "sorted (map (expiry (get s)) (due @ m_delayed_tasks t))"
      "\<And>p. p \<in> set (due @ m_delayed_tasks t) \<Longrightarrow> p < length (tasks (get s))"
      using timers_okD(1-3) [OF ok] by (simp_all add: split [symmetric] q_def)
    have live: "p \<in> set (m_delayed_tasks t) \<union> set ready" if "m_timers (get s) timer = Some p" for timer p
      using timers_okD(6) [OF ok that] table_entry(1) [OF ok that] split
      by (auto simp: ready q_def)
    have fired: "p < length (tasks (get s)) \<and> (\<not> repeat (tasks (get s) ! p) \<longrightarrow>
        p \<notin> set (m_delayed_tasks t) \<and> count_list (fired (get s)) p = 1)" if "p \<in> set (fired (get s))" for p
      using timers_okD(10-12) [OF ok that] split by (auto simp: q_def)
    have exp: "expiry t = expiry (get s)" "tasks t = tasks (get s)" "m_timers t = m_timers (get s)"
      "m_next_timer_id t = m_next_timer_id (get s)" "fired t = fired (get s)" by (simp_all add: t_def)
    show ?thesis
      unfolding timers_ok_def exp
      using parts live fired timers_okD(6-9) [OF ok]
      by (auto simp: ready sorted_append)
  qed
  have "distinct ready" using timers_okD(2) [OF ok] by (simp add: ready_def)
  moreover have "\<forall>p \<in> set ready. repeat (tasks t ! p) \<or> p \<notin> set (fired t)"
  proof -
    have "set ready \<subseteq> set (m_delayed_tasks (get s))"
      by (auto simp: ready_def dest: set_takeWhileD)
    then show ?thesis using timers_okD(11) [OF ok] by (auto simp: t_def)
  qed
  ultimately obtain B where res: "timers_ok {} (get s')" "timers_evolve (set ready) t (get s')"
    "fired (get s') = fired t @ filter B ready" "\<forall>p \<in> set ready. processed now p t (get s')"
    using fire_tasks [OF _ client _ _ run, of now] okt \<tau> by auto
  have "timers_evolve (set due) (get s) t"
  proof -
    have "set (m_delayed_tasks (get s)) = set due \<union> set (m_delayed_tasks t)"
      using split by (metis q_def set_append)
    then show ?thesis
      unfolding timers_evolve_def by (auto simp: t_def expiry_def dead_def)
  qed
  from timers_evolve_trans [OF this res(2)]
  have evolve: "timers_evolve (set due) (get s) (get s')"
    by (rule timers_evolve_mono) (auto simp: ready)
  show "timers_ok {} (get s')" by (rule res(1))
  show "timers_evolve (set (takeWhile (\<lambda>p. expiry (get s) p \<le> now) (m_delayed_tasks (get s)))) (get s) (get s')"
    using evolve by (simp add: due_def q_def)
  show "\<exists>B. fired (get s') = fired (get s) @ filter B ready"
    using res(3) by (auto simp: t_def)
  show "processed now p (get s) (get s')" if "p \<in> set ready"
    using res(4) that by (auto simp: processed_def t_def dead_def)
qed

end

end
