(* ===== verification/Event_Loop.thy ===== *)
theory Event_Loop
  imports Epoll_Poller Timer_Queue
begin

text \<open>
  The event loop of \<open>src/eventloop.cpp\<close> on Linux: its state, the thread checks, channel updates,
  cross-thread functors with their wake-up descriptor, the timers, and the loop itself; with it
  the operations of \<open>src/channel.cpp\<close> that report to the owner loop.

  All loops and channels of the program live in one state, so that callbacks can reach any of
  them. Functors and callbacks are codes of a type \<open>'cb\<close>; an argument \<open>run\<close> of the operations that
  call them executes a code. \<open>this_thread\<close> is the thread that executes; \<open>dt\<close> gives the
  nanoseconds that pass between successive readings of the steady clock, any numbers at all. Descriptors come from the caller, the wake-up descriptor is an
  \<open>eventfd\<close>, whose counter the state keeps. Later theories extend the record with their own state.
\<close>

section \<open>State\<close>

type_synonym thread_id = nat

record 'cb loop =
  m_threadId :: thread_id
  m_quit :: bool
  m_callingPendingFunctors :: bool
  m_poller :: epoll
  m_activeChannels :: "chan_id list"
  m_wakeupFd :: SocketType
  m_wakeupChannel :: chan_id
  wakeup_counter :: nat
  m_pendingFunctors :: "'cb list"
  m_timer_state :: "'cb timers"

record 'cb world =
  loops :: "loop_id \<Rightarrow> 'cb loop"
  channels :: "'cb channels"
  this_thread :: thread_id
  clock_now :: time_point
  clock_reads :: nat

definition upd_loop ::
  "loop_id \<Rightarrow> ('cb loop \<Rightarrow> 'cb loop) \<Rightarrow> ('cb, 'z) world_scheme \<Rightarrow> ('cb, 'z) world_scheme" where
  "upd_loop l f w = w\<lparr>loops := (loops w)(l := f (loops w l))\<rparr>"

definition upd_channel ::
  "chan_id \<Rightarrow> ('cb channel \<Rightarrow> 'cb channel) \<Rightarrow> ('cb, 'z) world_scheme \<Rightarrow> ('cb, 'z) world_scheme" where
  "upd_channel c f w = w\<lparr>channels := (channels w)(c := f (channels w c))\<rparr>"

definition steady_now ::
  "(nat \<Rightarrow> nat) \<Rightarrow> ('cb, 'z) world_scheme \<Rightarrow> time_point \<times> ('cb, 'z) world_scheme" where
  "steady_now dt w =
     (let now = clock_now w + int (dt (clock_reads w))
      in (now, w\<lparr>clock_now := now, clock_reads := Suc (clock_reads w)\<rparr>))"

definition get_timers :: "loop_id \<Rightarrow> ('cb, 'z) world_scheme \<Rightarrow> 'cb timers" where
  "get_timers l w = m_timer_state (loops w l)"

definition put_timers ::
  "loop_id \<Rightarrow> 'cb timers \<Rightarrow> ('cb, 'z) world_scheme \<Rightarrow> ('cb, 'z) world_scheme" where
  "put_timers l t = upd_loop l (\<lambda>lp. lp\<lparr>m_timer_state := t\<rparr>)"

section \<open>Threads and wake-ups\<close>

definition IsInLoopThread :: "loop_id \<Rightarrow> ('cb, 'z) world_scheme \<Rightarrow> bool" where
  "IsInLoopThread l w \<longleftrightarrow> m_threadId (loops w l) = this_thread w"

definition AssertInLoopThread :: "loop_id \<Rightarrow> ('cb, 'z) world_scheme \<Rightarrow> unit result" where
  "AssertInLoopThread l w = (if \<not> IsInLoopThread l w then Inl AbortCalled else Inr ())"

text \<open>The largest value an \<open>eventfd\<close> counter takes; a further write fails and changes nothing.\<close>

definition eventfd_max :: nat where
  "eventfd_max = 18446744073709551614"

definition Wakeup :: "loop_id \<Rightarrow> ('cb, 'z) world_scheme \<Rightarrow> ('cb, 'z) world_scheme" where
  "Wakeup l = upd_loop l (\<lambda>lp.
     if wakeup_counter lp < eventfd_max then lp\<lparr>wakeup_counter := wakeup_counter lp + 1\<rparr> else lp)"

text \<open>Reading an \<open>eventfd\<close> takes its whole counter; at zero the read fails with \<open>EAGAIN\<close>.\<close>

definition eventfd_read :: "loop_id \<Rightarrow> ('cb, 'z) world_scheme \<Rightarrow> int \<times> ('cb, 'z) world_scheme" where
  "eventfd_read l w =
     (if wakeup_counter (loops w l) = 0 then (- 1, w)
      else (8, upd_loop l (\<lambda>lp. lp\<lparr>wakeup_counter := 0\<rparr>) w))"

function HandleWakeupRead :: "loop_id \<Rightarrow> ('cb, 'z) world_scheme \<Rightarrow> ('cb, 'z) world_scheme" where
  "HandleWakeupRead l w =
     (let (n, w') = eventfd_read l w in
      if n \<le> 0 then w' else HandleWakeupRead l w')"
  by pat_completeness auto
termination
  by (relation "measure (\<lambda>(l, w). wakeup_counter (loops w l))")
    (auto simp: eventfd_read_def upd_loop_def split: if_splits)

declare HandleWakeupRead.simps [simp del]

definition Quit :: "loop_id \<Rightarrow> ('cb, 'z) world_scheme \<Rightarrow> ('cb, 'z) world_scheme" where
  "Quit l w =
     (let w = upd_loop l (\<lambda>lp. lp\<lparr>m_quit := True\<rparr>) w in
      if \<not> IsInLoopThread l w then Wakeup l w else w)"

section \<open>Channels\<close>

definition with_poller ::
  "loop_id \<Rightarrow> ('cb channels \<times> epoll \<Rightarrow> ('cb channels \<times> epoll) result) \<Rightarrow>
   ('cb, 'z) world_scheme \<Rightarrow> ('cb, 'z) world_scheme result" where
  "with_poller l f w =
     rbind (f (channels w, m_poller (loops w l))) (\<lambda>(cs, p).
     Inr (upd_loop l (\<lambda>lp. lp\<lparr>m_poller := p\<rparr>) (w\<lparr>channels := cs\<rparr>)))"

definition UpdateChannel ::
  "loop_id \<Rightarrow> chan_id \<Rightarrow> ('cb, 'z) world_scheme \<Rightarrow> ('cb, 'z) world_scheme result" where
  "UpdateChannel l c w =
     rbind (AssertInLoopThread l w) (\<lambda>_. with_poller l (UpdateChannel_epoll c) w)"

definition RemoveChannel ::
  "loop_id \<Rightarrow> chan_id \<Rightarrow> ('cb, 'z) world_scheme \<Rightarrow> ('cb, 'z) world_scheme result" where
  "RemoveChannel l c w =
     rbind (AssertInLoopThread l w) (\<lambda>_. with_poller l (RemoveChannel_epoll c) w)"

definition EnableReading :: "chan_id \<Rightarrow> ('cb, 'z) world_scheme \<Rightarrow> ('cb, 'z) world_scheme result" where
  "EnableReading c w =
     (let w = upd_channel c (events_enable (kReadEvent Linux)) w
      in UpdateChannel (m_ownerLoop (channels w c)) c w)"

definition DisableReading :: "chan_id \<Rightarrow> ('cb, 'z) world_scheme \<Rightarrow> ('cb, 'z) world_scheme result" where
  "DisableReading c w =
     (let w = upd_channel c (events_disable (kReadEvent Linux)) w
      in UpdateChannel (m_ownerLoop (channels w c)) c w)"

definition EnableWriting :: "chan_id \<Rightarrow> ('cb, 'z) world_scheme \<Rightarrow> ('cb, 'z) world_scheme result" where
  "EnableWriting c w =
     (let w = upd_channel c (events_enable (kWriteEvent Linux)) w
      in UpdateChannel (m_ownerLoop (channels w c)) c w)"

definition DisableWriting :: "chan_id \<Rightarrow> ('cb, 'z) world_scheme \<Rightarrow> ('cb, 'z) world_scheme result" where
  "DisableWriting c w =
     (let w = upd_channel c (events_disable (kWriteEvent Linux)) w
      in UpdateChannel (m_ownerLoop (channels w c)) c w)"

definition DisableAll :: "chan_id \<Rightarrow> ('cb, 'z) world_scheme \<Rightarrow> ('cb, 'z) world_scheme result" where
  "DisableAll c w =
     (let w = upd_channel c (\<lambda>ch. ch\<lparr>m_events := kNoneEvent\<rparr>) w
      in UpdateChannel (m_ownerLoop (channels w c)) c w)"

definition destroy_Channel :: "chan_id \<Rightarrow> ('cb, 'z) world_scheme \<Rightarrow> ('cb, 'z) world_scheme result" where
  "destroy_Channel c w =
     (if \<not> HasNoEvents (channels w c) then
        (if IsInLoopThread (m_ownerLoop (channels w c)) w then DisableAll c w
         else Inr (upd_channel c (\<lambda>ch. ch\<lparr>m_events := kNoneEvent\<rparr>) w))
      else Inr w)"

section \<open>Functors\<close>

definition push_functor :: "loop_id \<Rightarrow> 'cb \<Rightarrow> ('cb, 'z) world_scheme \<Rightarrow> ('cb, 'z) world_scheme" where
  "push_functor l cb = upd_loop l (\<lambda>lp. lp\<lparr>m_pendingFunctors := m_pendingFunctors lp @ [cb]\<rparr>)"

definition wake_if_needed :: "loop_id \<Rightarrow> ('cb, 'z) world_scheme \<Rightarrow> ('cb, 'z) world_scheme" where
  "wake_if_needed l w =
     (if \<not> IsInLoopThread l w \<or> m_callingPendingFunctors (loops w l) then Wakeup l w else w)"

definition QueueInLoop :: "loop_id \<Rightarrow> 'cb \<Rightarrow> ('cb, 'z) world_scheme \<Rightarrow> ('cb, 'z) world_scheme" where
  "QueueInLoop l cb w = wake_if_needed l (push_functor l cb w)"

definition RunInLoop ::
  "('cb \<Rightarrow> ('cb, 'z) world_scheme \<Rightarrow> ('cb, 'z) world_scheme result) \<Rightarrow>
   loop_id \<Rightarrow> 'cb \<Rightarrow> ('cb, 'z) world_scheme \<Rightarrow> ('cb, 'z) world_scheme result" where
  "RunInLoop run l cb w = (if IsInLoopThread l w then run cb w else Inr (QueueInLoop l cb w))"

definition take_functors :: "loop_id \<Rightarrow> ('cb, 'z) world_scheme \<Rightarrow> 'cb list \<times> ('cb, 'z) world_scheme" where
  "take_functors l w =
     (let w = upd_loop l (\<lambda>lp. lp\<lparr>m_callingPendingFunctors := True\<rparr>) w in
      (m_pendingFunctors (loops w l), upd_loop l (\<lambda>lp. lp\<lparr>m_pendingFunctors := []\<rparr>) w))"

definition DoPendingFunctors ::
  "('cb \<Rightarrow> ('cb, 'z) world_scheme \<Rightarrow> ('cb, 'z) world_scheme result) \<Rightarrow>
   loop_id \<Rightarrow> ('cb, 'z) world_scheme \<Rightarrow> ('cb, 'z) world_scheme result" where
  "DoPendingFunctors run l w =
     (let (functors, w) = take_functors l w in
      rbind (rfold run functors w) (\<lambda>w.
      Inr (upd_loop l (\<lambda>lp. lp\<lparr>m_callingPendingFunctors := False\<rparr>) w)))"

section \<open>Timers\<close>

definition RunAt ::
  "loop_id \<Rightarrow> time_point \<Rightarrow> 'cb option \<Rightarrow> ('cb, 'z) world_scheme \<Rightarrow> TimerId \<times> ('cb, 'z) world_scheme" where
  "RunAt l when cb w =
     (let (timer, t) = add_task when 0 False cb (get_timers l w)
      in (timer, wake_if_needed l (put_timers l t w)))"

text \<open>The delay is the millisecond count the cast of the \<open>double\<close> argument gives.\<close>

definition RunAfter ::
  "(nat \<Rightarrow> nat) \<Rightarrow> loop_id \<Rightarrow> int \<Rightarrow> 'cb option \<Rightarrow>
   ('cb, 'z) world_scheme \<Rightarrow> TimerId \<times> ('cb, 'z) world_scheme" where
  "RunAfter dt l delay_ms cb w =
     (let delay_ms = (if delay_ms < 0 then 0 else delay_ms);
          (now, w) = steady_now dt w
      in RunAt l (now + delay_ms * ns_per_ms) cb w)"

definition RunEvery ::
  "(nat \<Rightarrow> nat) \<Rightarrow> loop_id \<Rightarrow> int \<Rightarrow> 'cb option \<Rightarrow>
   ('cb, 'z) world_scheme \<Rightarrow> TimerId \<times> ('cb, 'z) world_scheme" where
  "RunEvery dt l interval_ms cb w =
     (let interval_ms = (if interval_ms \<le> 0 then 1 else interval_ms);
          (now, w) = steady_now dt w;
          (timer, t) = add_task (now + interval_ms * ns_per_ms) interval_ms True cb (get_timers l w)
      in (timer, wake_if_needed l (put_timers l t w)))"

definition Cancel ::
  "loop_id \<Rightarrow> TimerId \<Rightarrow> ('cb, 'z) world_scheme \<Rightarrow> bool \<times> ('cb, 'z) world_scheme" where
  "Cancel l timer w =
     (let (cancelled, t) = cancel_timer timer (get_timers l w);
          w = put_timers l t w
      in if cancelled \<and> \<not> IsInLoopThread l w then (cancelled, Wakeup l w) else (cancelled, w))"

definition ProcessDelayedTasks ::
  "(nat \<Rightarrow> nat) \<Rightarrow> ('cb \<Rightarrow> ('cb, 'z) world_scheme \<Rightarrow> ('cb, 'z) world_scheme result) \<Rightarrow>
   loop_id \<Rightarrow> ('cb, 'z) world_scheme \<Rightarrow> ('cb, 'z) world_scheme result" where
  "ProcessDelayedTasks dt run l w =
     rbind (AssertInLoopThread l w) (\<lambda>_.
     process_timers (get_timers l) (put_timers l) (steady_now dt) run w)"

definition GetPollTimeoutMs ::
  "(nat \<Rightarrow> nat) \<Rightarrow> loop_id \<Rightarrow> ('cb, 'z) world_scheme \<Rightarrow> int \<times> ('cb, 'z) world_scheme" where
  "GetPollTimeoutMs dt l w =
     (let (now, w) = steady_now dt w;
          (timeout, t) = poll_timeout now (get_timers l w)
      in (timeout, put_timers l t w))"

section \<open>The loop\<close>

text \<open>
  \<open>ready\<close> is what \<open>epoll_wait\<close> returns in one turn. \<open>Loop\<close> takes these for the turns to come and
  stops at the end of the list, or when the loop has been asked to quit.
\<close>

definition dispatch ::
  "('cb \<Rightarrow> ('cb, 'z) world_scheme \<Rightarrow> ('cb, 'z) world_scheme result) \<Rightarrow>
   chan_id list \<Rightarrow> ('cb, 'z) world_scheme \<Rightarrow> ('cb, 'z) world_scheme result" where
  "dispatch run cs = rfold (\<lambda>c w. HandleEvent Linux run (channels w c) w) cs"

definition loop_turn ::
  "(nat \<Rightarrow> nat) \<Rightarrow> ('cb \<Rightarrow> ('cb, 'z) world_scheme \<Rightarrow> ('cb, 'z) world_scheme result) \<Rightarrow>
   loop_id \<Rightarrow> errno + (SocketType \<times> uint32) list \<Rightarrow>
   ('cb, 'z) world_scheme \<Rightarrow> ('cb, 'z) world_scheme result" where
  "loop_turn dt run l ready w =
     (let (timeout_ms, w) = GetPollTimeoutMs dt l (upd_loop l (\<lambda>lp. lp\<lparr>m_activeChannels := []\<rparr>) w) in
      rbind (Poll_epoll ready (channels w, m_poller (loops w l))) (\<lambda>(numEvents, active, cs, p).
      let w = upd_loop l (\<lambda>lp. lp\<lparr>m_poller := p, m_activeChannels := active\<rparr>) (w\<lparr>channels := cs\<rparr>) in
      rbind (dispatch run active w) (\<lambda>w.
      rbind (DoPendingFunctors run l w) (\<lambda>w.
      ProcessDelayedTasks dt run l w))))"

fun loop_turns ::
  "(nat \<Rightarrow> nat) \<Rightarrow> ('cb \<Rightarrow> ('cb, 'z) world_scheme \<Rightarrow> ('cb, 'z) world_scheme result) \<Rightarrow>
   loop_id \<Rightarrow> (errno + (SocketType \<times> uint32) list) list \<Rightarrow>
   ('cb, 'z) world_scheme \<Rightarrow> ('cb, 'z) world_scheme result" where
  "loop_turns dt run l [] w = Inr w"
| "loop_turns dt run l (r # rs) w =
     (if m_quit (loops w l) then Inr w
      else rbind (loop_turn dt run l r w) (loop_turns dt run l rs))"

definition Loop ::
  "(nat \<Rightarrow> nat) \<Rightarrow> ('cb \<Rightarrow> ('cb, 'z) world_scheme \<Rightarrow> ('cb, 'z) world_scheme result) \<Rightarrow>
   loop_id \<Rightarrow> (errno + (SocketType \<times> uint32) list) list \<Rightarrow>
   ('cb, 'z) world_scheme \<Rightarrow> ('cb, 'z) world_scheme result" where
  "Loop dt run l rs w =
     rbind (AssertInLoopThread l w) (\<lambda>_.
     loop_turns dt run l rs (upd_loop l (\<lambda>lp. lp\<lparr>m_quit := False\<rparr>) w))"

text \<open>
  The constructor, for the loop \<open>l\<close> with a wake-up channel \<open>c\<close> on the descriptor \<open>efd\<close> and the code
  \<open>wake\<close> of its read callback; with \<open>auto_start\<close> a new thread \<open>tid\<close> then takes the loop over.
\<close>

definition EventLoop ::
  "loop_id \<Rightarrow> chan_id \<Rightarrow> SocketType \<Rightarrow> 'cb \<Rightarrow> thread_id option \<Rightarrow>
   ('cb, 'z) world_scheme \<Rightarrow> ('cb, 'z) world_scheme result" where
  "EventLoop l c efd wake auto_start w =
     (let w = upd_loop l (\<lambda>_. \<lparr>m_threadId = this_thread w, m_quit = False, m_callingPendingFunctors = False,
                m_poller = EpollPoller, m_activeChannels = [], m_wakeupFd = efd, m_wakeupChannel = c,
                wakeup_counter = 0, m_pendingFunctors = [], m_timer_state = no_timers\<rparr>) w;
          w = upd_channel c (\<lambda>_. SetReadCallback wake (Channel l efd)) w in
      rbind (EnableReading c w) (\<lambda>w.
      case auto_start of
        None \<Rightarrow> Inr w
      | Some tid \<Rightarrow> Inr (upd_loop l (\<lambda>lp. lp\<lparr>m_threadId := tid\<rparr>) w)))"

text \<open>
  The destructor up to the closing of the descriptors. \<open>own\<close> is the loop's own thread, if it has one to
  join; joined, it has left \<open>Loop\<close>.
\<close>

definition destroy_EventLoop ::
  "loop_id \<Rightarrow> thread_id option \<Rightarrow> ('cb, 'z) world_scheme \<Rightarrow> ('cb, 'z) world_scheme result" where
  "destroy_EventLoop l own w =
     (let w = Quit l w; c = m_wakeupChannel (loops w l) in
      if own = Some (this_thread w) then Inl AbortCalled
      else if m_added (channels w c) then
        rbind (with_poller l (RemoveChannel_epoll c) w) (\<lambda>w. Inr (upd_channel c (SetAdded False) w))
      else Inr w)"

section \<open>What the updates leave unchanged\<close>

lemma upd_loop_simps [simp]:
  "loops (upd_loop l f w) = (loops w)(l := f (loops w l))"
  "channels (upd_loop l f w) = channels w" "this_thread (upd_loop l f w) = this_thread w"
  "clock_now (upd_loop l f w) = clock_now w" "clock_reads (upd_loop l f w) = clock_reads w"
  by (simp_all add: upd_loop_def)

lemma upd_channel_simps [simp]:
  "channels (upd_channel c g w) = (channels w)(c := g (channels w c))"
  "loops (upd_channel c g w) = loops w" "this_thread (upd_channel c g w) = this_thread w"
  "clock_now (upd_channel c g w) = clock_now w" "clock_reads (upd_channel c g w) = clock_reads w"
  by (simp_all add: upd_channel_def)

lemma steady_now_simps [simp]:
  "loops (snd (steady_now dt w)) = loops w" "channels (snd (steady_now dt w)) = channels w"
  "this_thread (snd (steady_now dt w)) = this_thread w"
  "clock_now (snd (steady_now dt w)) = fst (steady_now dt w)" "clock_now w \<le> fst (steady_now dt w)"
  by (simp_all add: steady_now_def Let_def)

lemma timers_get_put [simp]: "get_timers l (put_timers l t w) = t"
  by (simp add: get_timers_def put_timers_def)

lemma put_timers_simps [simp]:
  "this_thread (put_timers l t w) = this_thread w" "channels (put_timers l t w) = channels w"
  "clock_now (put_timers l t w) = clock_now w"
  "m_threadId (loops (put_timers l t w) k) = m_threadId (loops w k)"
  "m_callingPendingFunctors (loops (put_timers l t w) k) = m_callingPendingFunctors (loops w k)"
  "wakeup_counter (loops (put_timers l t w) k) = wakeup_counter (loops w k)"
  "m_pendingFunctors (loops (put_timers l t w) k) = m_pendingFunctors (loops w k)"
  by (simp_all add: put_timers_def)

lemma Wakeup_simps [simp]:
  "this_thread (Wakeup l w) = this_thread w" "channels (Wakeup l w) = channels w"
  "clock_now (Wakeup l w) = clock_now w" "get_timers k (Wakeup l w) = get_timers k w"
  "m_threadId (loops (Wakeup l w) k) = m_threadId (loops w k)"
  "m_callingPendingFunctors (loops (Wakeup l w) k) = m_callingPendingFunctors (loops w k)"
  "m_pendingFunctors (loops (Wakeup l w) k) = m_pendingFunctors (loops w k)"
  by (simp_all add: Wakeup_def get_timers_def)

lemma Wakeup_counter: "0 < wakeup_counter (loops (Wakeup l w) l)"
  by (simp add: Wakeup_def eventfd_max_def)

lemma wake_if_needed_simps [simp]:
  "this_thread (wake_if_needed l w) = this_thread w" "clock_now (wake_if_needed l w) = clock_now w"
  "get_timers k (wake_if_needed l w) = get_timers k w" "channels (wake_if_needed l w) = channels w"
  "m_pendingFunctors (loops (wake_if_needed l w) k) = m_pendingFunctors (loops w k)"
  "m_callingPendingFunctors (loops (wake_if_needed l w) k) = m_callingPendingFunctors (loops w k)"
  "m_threadId (loops (wake_if_needed l w) k) = m_threadId (loops w k)"
  by (simp_all add: wake_if_needed_def)

lemma push_functor_simps [simp]:
  "this_thread (push_functor l cb w) = this_thread w" "clock_now (push_functor l cb w) = clock_now w"
  "get_timers k (push_functor l cb w) = get_timers k w" "channels (push_functor l cb w) = channels w"
  "m_pendingFunctors (loops (push_functor l cb w) l) = m_pendingFunctors (loops w l) @ [cb]"
  "m_callingPendingFunctors (loops (push_functor l cb w) k) = m_callingPendingFunctors (loops w k)"
  "wakeup_counter (loops (push_functor l cb w) k) = wakeup_counter (loops w k)"
  "m_threadId (loops (push_functor l cb w) k) = m_threadId (loops w k)"
  by (simp_all add: push_functor_def get_timers_def)

lemma HandleWakeupRead_eq:
  "HandleWakeupRead l w = upd_loop l (\<lambda>lp. lp\<lparr>wakeup_counter := 0\<rparr>) w"
proof (cases "wakeup_counter (loops w l) = 0")
  case True
  then have "(loops w l)\<lparr>wakeup_counter := 0\<rparr> = loops w l"
    by (cases "loops w l") simp
  then have "upd_loop l (\<lambda>lp. lp\<lparr>wakeup_counter := 0\<rparr>) w = w"
    by (simp add: upd_loop_def)
  with True show ?thesis by (simp add: HandleWakeupRead.simps [of l w] eventfd_read_def)
next
  case False
  then show ?thesis
    by (simp add: HandleWakeupRead.simps [of l] eventfd_read_def)
qed

section \<open>Channel updates\<close>

text \<open>
  What every update of a channel's mask amounts to for the rest of the program: the mask changes as
  asked, the added flag may change, and so may the poller of the loop; nothing else does.
\<close>

definition masked ::
  "chan_id \<Rightarrow> ('cb channel \<Rightarrow> 'cb channel) \<Rightarrow> ('cb, 'z) world_scheme \<Rightarrow> ('cb, 'z) world_scheme \<Rightarrow> bool" where
  "masked c f w w' \<longleftrightarrow>
     (\<exists>ls cs b. w' = w\<lparr>loops := ls, channels := cs\<rparr> \<and> (\<forall>d. d \<noteq> c \<longrightarrow> cs d = channels w d) \<and>
        cs c = SetAdded b (f (channels w c)) \<and> (\<forall>k. \<exists>p. ls k = (loops w k)\<lparr>m_poller := p\<rparr>))"

lemma RemoveChannel_epoll_masks:
  assumes "RemoveChannel_epoll c (cs, p) = Inr (cs', p')"
  shows "(\<forall>d. d \<noteq> c \<longrightarrow> cs' d = cs d) \<and> (\<exists>b. cs' c = SetAdded b (cs c))"
  using assms
  by (auto simp: RemoveChannel_epoll_def UpdateEpoll_def Let_def SetAdded_def split: if_splits
      intro: exI [of _ "m_added (cs c)"])

lemma UpdateChannel_epoll_masks:
  assumes "UpdateChannel_epoll c (cs, p) = Inr (cs', p')"
  shows "(\<forall>d. d \<noteq> c \<longrightarrow> cs' d = cs d) \<and> (\<exists>b. cs' c = SetAdded b (cs c))"
  using assms RemoveChannel_epoll_masks [of c cs p cs' p']
  by (auto simp: UpdateChannel_epoll_def UpdateEpoll_def Let_def SetAdded_def split: if_splits
      intro: exI [of _ "m_added (cs c)"])

lemma with_poller_masks:
  assumes "with_poller l f (upd_channel c g w) = Inr w'"
    and "\<And>cs p cs' p'. f (cs, p) = Inr (cs', p') \<Longrightarrow>
      (\<forall>d. d \<noteq> c \<longrightarrow> cs' d = cs d) \<and> (\<exists>b. cs' c = SetAdded b (cs c))"
  shows "masked c g w w'"
proof -
  from assms(1) obtain cs' p' where f: "f ((channels w)(c := g (channels w c)), m_poller (loops w l)) = Inr (cs', p')"
    and w': "w' = upd_loop l (\<lambda>lp. lp\<lparr>m_poller := p'\<rparr>) ((upd_channel c g w)\<lparr>channels := cs'\<rparr>)"
    by (auto simp: with_poller_def rbind_eq_Inr_iff)
  from assms(2) [OF f] obtain b where cs': "\<forall>d. d \<noteq> c \<longrightarrow> cs' d = channels w d" "cs' c = SetAdded b (g (channels w c))"
    by auto
  have same: "lp\<lparr>m_poller := m_poller lp\<rparr> = lp" for lp :: "'a loop" by (cases lp) simp
  have "\<exists>p. ((loops w)(l := (loops w l)\<lparr>m_poller := p'\<rparr>)) k = (loops w k)\<lparr>m_poller := p\<rparr>" for k
    using same [of "loops w k"] by (cases "k = l") (auto intro: exI [of _ "m_poller (loops w k)"])
  with cs' show ?thesis
    unfolding masked_def w'
    by (intro exI [of _ "(loops w)(l := (loops w l)\<lparr>m_poller := p'\<rparr>)"] exI [of _ cs'] exI [of _ b])
      (simp add: upd_loop_def upd_channel_def)
qed

lemma UpdateChannel_masks:
  "UpdateChannel l c (upd_channel c g w) = Inr w' \<Longrightarrow> masked c g w w'"
  using with_poller_masks [of l "UpdateChannel_epoll c" c g w w', OF _ UpdateChannel_epoll_masks]
  by (auto simp: UpdateChannel_def rbind_eq_Inr_iff)

lemma upd_channel_id: "upd_channel c id w = w"
  by (simp add: upd_channel_def)

lemma RemoveChannel_masks:
  "RemoveChannel l c w = Inr w' \<Longrightarrow> masked c id w w'"
  using with_poller_masks [of l "RemoveChannel_epoll c" c id w w', OF _ RemoveChannel_epoll_masks]
  by (auto simp: RemoveChannel_def rbind_eq_Inr_iff upd_channel_id)

lemma mask_ops:
  "EnableReading c w = Inr w' \<Longrightarrow> masked c (events_enable (kReadEvent Linux)) w w'"
  "DisableReading c w = Inr w' \<Longrightarrow> masked c (events_disable (kReadEvent Linux)) w w'"
  "EnableWriting c w = Inr w' \<Longrightarrow> masked c (events_enable (kWriteEvent Linux)) w w'"
  "DisableWriting c w = Inr w' \<Longrightarrow> masked c (events_disable (kWriteEvent Linux)) w w'"
  "DisableAll c w = Inr w' \<Longrightarrow> masked c (\<lambda>ch. ch\<lparr>m_events := kNoneEvent\<rparr>) w w'"
  by (simp_all add: EnableReading_def DisableReading_def EnableWriting_def DisableWriting_def
      DisableAll_def Let_def UpdateChannel_masks)

text \<open>On Linux an update by the loop's own thread always returns.\<close>

lemma UpdateChannel_returns:
  "IsInLoopThread l w \<Longrightarrow> \<exists>w'. UpdateChannel l c w = Inr w'"
  "IsInLoopThread l w \<Longrightarrow> \<exists>w'. RemoveChannel l c w = Inr w'"
  by (auto simp: UpdateChannel_def RemoveChannel_def AssertInLoopThread_def with_poller_def
      UpdateChannel_epoll_def RemoveChannel_epoll_def UpdateEpoll_def Let_def)

section \<open>The timers of a loop\<close>

interpretation loop_timers: timer_host "get_timers l" "put_timers l" "steady_now dt"
  "\<lambda>\<tau> w. \<tau> \<le> clock_now w" for l dt
  by unfold_locales (auto simp: get_timers_def put_timers_def steady_now_def Let_def)

text \<open>The public operations on timers are what a client may do with them.\<close>

lemma get_put_other: "k \<noteq> l \<Longrightarrow> get_timers k (put_timers l t w) = get_timers k w"
  by (simp add: get_timers_def put_timers_def)

lemma timers_put_client:
  assumes "timers_ok due (get_timers k w)"
    and "timers_ok due (get_timers l w) \<Longrightarrow> timers_le (get_timers l w) t \<and> timers_ok due t"
  shows "timers_le (get_timers k w) (get_timers k (put_timers l t w)) \<and> timers_ok due (get_timers k (put_timers l t w))"
  using assms by (cases "k = l") (simp_all add: get_put_other)

lemma RunAt_client:
  assumes "RunAt l when cb w = (timer, w')" and "timers_ok due (get_timers k w)"
    and "Suc (Suc (length (tasks (get_timers l w)))) < 2 ^ 64"
  shows "timers_le (get_timers k w) (get_timers k w') \<and> timers_ok due (get_timers k w')"
proof -
  obtain t where add: "add_task when 0 False cb (get_timers l w) = (timer, t)"
    and w': "w' = wake_if_needed l (put_timers l t w)"
    using assms(1) by (auto simp: RunAt_def split: prod.splits)
  show ?thesis
    unfolding w' wake_if_needed_simps
    using timers_put_client [OF assms(2), of l t] add_task_le [OF _ add] add_task_ok [OF _ assms(3) add] by blast
qed

lemma RunEvery_client:
  assumes "RunEvery dt l iv cb w = (timer, w')" and "timers_ok due (get_timers k w)"
    and "Suc (Suc (length (tasks (get_timers l w)))) < 2 ^ 64"
  shows "timers_le (get_timers k w) (get_timers k w') \<and> timers_ok due (get_timers k w')"
proof -
  define w1 where "w1 = snd (steady_now dt w)"
  have same: "get_timers j w1 = get_timers j w" for j by (simp add: w1_def get_timers_def)
  obtain e i t where add: "add_task e i True cb (get_timers l w1) = (timer, t)"
    and w': "w' = wake_if_needed l (put_timers l t w1)"
    using assms(1) by (cases "steady_now dt w") (auto simp: RunEvery_def Let_def w1_def split: prod.splits)
  have room: "Suc (Suc (length (tasks (get_timers l w1)))) < 2 ^ 64" using assms(3) by (simp add: same)
  have ok: "timers_ok due (get_timers k w1)" using assms(2) by (simp add: same)
  show ?thesis
    unfolding w' wake_if_needed_simps
    using timers_put_client [OF ok, of l t] add_task_le [OF _ add] add_task_ok [OF _ room add]
    by (simp only: same)
qed

lemma Cancel_client:
  assumes "Cancel l timer w = (b, w')" and "timers_ok due (get_timers k w)"
  shows "timers_le (get_timers k w) (get_timers k w') \<and> timers_ok due (get_timers k w')"
proof -
  obtain t where c: "cancel_timer timer (get_timers l w) = (b, t)"
    and w': "get_timers k w' = get_timers k (put_timers l t w)"
    using assms(1) by (auto simp: Cancel_def Let_def split: prod.splits if_splits)
  show ?thesis
    unfolding w'
    using timers_put_client [OF assms(2), of l t] cancel_timer_le [OF _ c] cancel_timer_ok [OF _ c] by blast
qed

lemma ProcessDelayedTasks_returns:
  assumes "ProcessDelayedTasks dt run l w = Inr w'"
  shows "IsInLoopThread l w"
    and "process_timers (get_timers l) (put_timers l) (steady_now dt) run w = Inr w'"
  using assms by (auto simp: ProcessDelayedTasks_def AssertInLoopThread_def split: if_splits)

lemma ProcessDelayedTasks_total:
  assumes "IsInLoopThread l w" and "\<forall>c w. \<exists>w'. run c w = Inr w'"
  shows "\<exists>w'. ProcessDelayedTasks dt run l w = Inr w'"
proof -
  have "\<exists>s'. fire_task (get_timers l) (put_timers l) (steady_now dt) run p s = Inr s'" for p s
    using assms(2) by (auto simp: fire_task_def run_task_def rbind_eq_Inr_iff split: option.splits)
  then have "\<exists>s'. rfold (fire_task (get_timers l) (put_timers l) (steady_now dt) run) ps s = Inr s'" for ps s
    using rfold_succeeds [of "\<lambda>_. True" s ps "fire_task (get_timers l) (put_timers l) (steady_now dt) run"]
    by simp
  with assms(1) show ?thesis
    by (simp add: ProcessDelayedTasks_def AssertInLoopThread_def process_timers_def split: prod.splits)
qed

section \<open>Queued functors\<close>

text \<open>
  What running code may do to the queue of the loop \<open>l\<close> while the loop is calling functors: append
  to it through \<open>QueueInLoop\<close>, which then wakes the loop up.
\<close>

definition queue_client ::
  "loop_id \<Rightarrow> ('cb \<Rightarrow> ('cb, 'z) world_scheme \<Rightarrow> ('cb, 'z) world_scheme result) \<Rightarrow> bool" where
  "queue_client l run \<longleftrightarrow>
     (\<forall>f w w'. run f w = Inr w' \<longrightarrow>
        m_callingPendingFunctors (loops w' l) = m_callingPendingFunctors (loops w l) \<and>
        (\<exists>new. m_pendingFunctors (loops w' l) = m_pendingFunctors (loops w l) @ new \<and>
           (m_callingPendingFunctors (loops w l) \<longrightarrow> new \<noteq> [] \<longrightarrow> 0 < wakeup_counter (loops w' l))) \<and>
        (m_callingPendingFunctors (loops w l) \<longrightarrow> 0 < wakeup_counter (loops w l) \<longrightarrow>
           0 < wakeup_counter (loops w' l)))"

lemma QueueInLoop_other: "k \<noteq> l \<Longrightarrow> loops (QueueInLoop k cb w) l = loops w l"
  by (simp add: QueueInLoop_def wake_if_needed_def push_functor_def Wakeup_def)

lemma Wakeup_keeps: "0 < wakeup_counter (loops w l) \<Longrightarrow> 0 < wakeup_counter (loops (Wakeup k w) l)"
  by (auto simp: Wakeup_def)

lemma QueueInLoop_client:
  "queue_client l (\<lambda>f w. Inr (QueueInLoop k (g f) w))"
proof (cases "k = l")
  case True
  then show ?thesis
    unfolding queue_client_def
    by (auto simp: QueueInLoop_def wake_if_needed_def Wakeup_counter Wakeup_keeps)
next
  case False
  then show ?thesis
    by (simp add: queue_client_def QueueInLoop_other)
qed

lemma rfold_queue_client:
  assumes "queue_client l run" and "rfold run fs w = Inr w'" and "m_callingPendingFunctors (loops w l)"
  shows "m_callingPendingFunctors (loops w' l) \<and>
    (\<exists>new. m_pendingFunctors (loops w' l) = m_pendingFunctors (loops w l) @ new \<and>
      (new \<noteq> [] \<longrightarrow> 0 < wakeup_counter (loops w' l))) \<and>
    (0 < wakeup_counter (loops w l) \<longrightarrow> 0 < wakeup_counter (loops w' l))"
  using assms(2,3)
proof (induction fs arbitrary: w)
  case Nil
  then show ?case by simp
next
  case (Cons f fs)
  then obtain w1 where w1: "run f w = Inr w1" "rfold run fs w1 = Inr w'"
    by (auto simp: rbind_eq_Inr_iff)
  from assms(1) w1(1) Cons.prems(2) obtain new where step:
    "m_callingPendingFunctors (loops w1 l)" "m_pendingFunctors (loops w1 l) = m_pendingFunctors (loops w l) @ new"
    "new \<noteq> [] \<longrightarrow> 0 < wakeup_counter (loops w1 l)"
    "0 < wakeup_counter (loops w l) \<longrightarrow> 0 < wakeup_counter (loops w1 l)"
    unfolding queue_client_def by metis
  from Cons.IH [OF w1(2) step(1)] obtain new' where
    "m_callingPendingFunctors (loops w' l)" "m_pendingFunctors (loops w' l) = m_pendingFunctors (loops w1 l) @ new'"
    "new' \<noteq> [] \<longrightarrow> 0 < wakeup_counter (loops w' l)"
    "0 < wakeup_counter (loops w1 l) \<longrightarrow> 0 < wakeup_counter (loops w' l)" by (elim conjE exE) (rule that)
  then have "m_pendingFunctors (loops w' l) = m_pendingFunctors (loops w l) @ (new @ new')"
    "new @ new' \<noteq> [] \<longrightarrow> 0 < wakeup_counter (loops w' l)"
    "0 < wakeup_counter (loops w l) \<longrightarrow> 0 < wakeup_counter (loops w' l)"
    using step by auto
  then show ?case using \<open>m_callingPendingFunctors (loops w' l)\<close> by blast
qed

section \<open>Properties\<close>


definition example_loop :: "'cb loop" where
  "example_loop = \<lparr>m_threadId = 1, m_quit = False, m_callingPendingFunctors = False, m_poller = EpollPoller,
     m_activeChannels = [], m_wakeupFd = 3, m_wakeupChannel = 0, wakeup_counter = 0,
     m_pendingFunctors = [], m_timer_state = no_timers\<rparr>"

definition example_world :: "'cb world" where
  "example_world = \<lparr>loops = (\<lambda>_. example_loop), channels = (\<lambda>c. Channel 0 (int c)), this_thread = 1,
     clock_now = 0, clock_reads = 0\<rparr>"

lemmas example_defs = example_loop_def example_world_def


text \<open>The history of one loop's timers: calls of the public operations, from any thread, passes over
  the due tasks, timeout computations, and steps that do not concern these timers.\<close>

inductive timer_history ::
  "(nat \<Rightarrow> nat) \<Rightarrow> loop_id \<Rightarrow> ('cb, 'z) world_scheme \<Rightarrow> ('cb, 'z) world_scheme \<Rightarrow> bool" for dt l w where
  history_start: "timer_history dt l w w"
| history_run_at: "timer_history dt l w w1 \<Longrightarrow> Suc (Suc (length (tasks (get_timers l w1)))) < 2 ^ 64 \<Longrightarrow>
    RunAt l when cb w1 = (timer, w2) \<Longrightarrow> timer_history dt l w w2"
| history_run_every: "timer_history dt l w w1 \<Longrightarrow> Suc (Suc (length (tasks (get_timers l w1)))) < 2 ^ 64 \<Longrightarrow>
    RunEvery dt l iv cb w1 = (timer, w2) \<Longrightarrow> timer_history dt l w w2"
| history_cancel: "timer_history dt l w w1 \<Longrightarrow> Cancel l timer w1 = (b, w2) \<Longrightarrow> timer_history dt l w w2"
| history_process: "timer_history dt l w w1 \<Longrightarrow> timer_client (get_timers l) (\<lambda>\<tau> w. \<tau> \<le> clock_now w) run \<Longrightarrow>
    ProcessDelayedTasks dt run l w1 = Inr w2 \<Longrightarrow> timer_history dt l w w2"
| history_timeout: "timer_history dt l w w1 \<Longrightarrow> GetPollTimeoutMs dt l w1 = (n, w2) \<Longrightarrow> timer_history dt l w w2"
| history_other: "timer_history dt l w w1 \<Longrightarrow> get_timers l w2 = get_timers l w1 \<Longrightarrow> timer_history dt l w w2"

lemma GetPollTimeoutMs_timers:
  assumes "GetPollTimeoutMs dt l w = (n, w')"
  shows "get_timers l w' = (get_timers l w)
      \<lparr>m_delayed_tasks := dropWhile (dead (get_timers l w)) (m_delayed_tasks (get_timers l w))\<rparr>"
    and "n = (case dropWhile (dead (get_timers l w)) (m_delayed_tasks (get_timers l w)) of
      [] \<Rightarrow> 10000
    | p # q \<Rightarrow> max 0 (min 10000 ((expiry (get_timers l w) p - fst (steady_now dt w)) div ns_per_ms)))"
proof -
  obtain now w1 where s: "steady_now dt w = (now, w1)" by (cases "steady_now dt w")
  then have "get_timers l w1 = get_timers l w"
    using steady_now_simps(1) [of dt w] by (simp add: get_timers_def)
  with assms s have "n = fst (poll_timeout now (get_timers l w))"
    "w' = put_timers l (snd (poll_timeout now (get_timers l w))) w1"
    by (auto simp: GetPollTimeoutMs_def split: prod.splits)
  then show "get_timers l w' = (get_timers l w)
      \<lparr>m_delayed_tasks := dropWhile (dead (get_timers l w)) (m_delayed_tasks (get_timers l w))\<rparr>"
    "n = (case dropWhile (dead (get_timers l w)) (m_delayed_tasks (get_timers l w)) of
      [] \<Rightarrow> 10000
    | p # q \<Rightarrow> max 0 (min 10000 ((expiry (get_timers l w) p - fst (steady_now dt w)) div ns_per_ms)))"
    unfolding s fst_conv by (simp_all add: poll_timeout_eq)
qed

lemma prune_ok:
  assumes ok: "timers_ok {} t"
  shows "timers_ok {} (t\<lparr>m_delayed_tasks := dropWhile (dead t) (m_delayed_tasks t)\<rparr>)"
proof -
  let ?q = "dropWhile (dead t) (m_delayed_tasks t)"
  have q: "m_delayed_tasks t = takeWhile (dead t) (m_delayed_tasks t) @ ?q" by simp
  then have sub: "set ?q \<subseteq> set (m_delayed_tasks t)" by (metis Un_upper2 set_append)
  have "sorted (map (expiry t) ?q)" "distinct ?q"
    using timers_okD(1,2) [OF ok] q by (metis map_append sorted_append, metis distinct_append)
  moreover have "p \<in> set ?q" if "m_timers t timer = Some p" for timer p
  proof -
    have "p \<in> set (takeWhile (dead t) (m_delayed_tasks t)) \<union> set ?q"
      using timers_okD(6) [OF ok that] q by (metis Un_iff empty_iff set_append)
    moreover have "\<not> dead t p" using table_entry(1) [OF ok that] .
    ultimately show ?thesis by (auto dest: set_takeWhileD)
  qed
  moreover have "p \<notin> set ?q" if "p \<notin> set (m_delayed_tasks t)" for p using sub that by blast
  ultimately show ?thesis
    using ok sub unfolding timers_ok_def expiry_frame by simp blast
qed

text \<open>One step of the history keeps the invariant and lets no dead task fire.\<close>

definition quiet :: "TimerTaskPtr \<Rightarrow> 'cb timers \<Rightarrow> 'cb timers \<Rightarrow> bool" where
  "quiet p t t' \<longleftrightarrow> cancelled (tasks t' ! p) \<and> p < length (tasks t') \<and>
     count_list (fired t') p = count_list (fired t) p"

lemma timers_le_quiet:
  "timers_le t t' \<Longrightarrow> p < length (tasks t) \<Longrightarrow> cancelled (tasks t ! p) \<Longrightarrow> quiet p t t'"
  by (simp add: quiet_def timers_le_def)

lemma process_quiet:
  assumes ok: "timers_ok {} (get_timers l w)"
    and client: "timer_client (get_timers l) (\<lambda>\<tau> w. \<tau> \<le> clock_now w) run"
    and r: "ProcessDelayedTasks dt run l w = Inr w'"
    and p: "p < length (tasks (get_timers l w))" "cancelled (tasks (get_timers l w) ! p)"
  shows "quiet p (get_timers l w) (get_timers l w')"
proof -
  note step = loop_timers.process_timers_step [OF ok client ProcessDelayedTasks_returns(2) [OF r]]
  from step(3) obtain B where "fired (get_timers l w') = fired (get_timers l w) @ filter B
    (filter (\<lambda>p. \<not> dead (get_timers l w) p) (takeWhile (\<lambda>p. expiry (get_timers l w) p \<le> fst (steady_now dt w))
      (m_delayed_tasks (get_timers l w))))" ..
  moreover have "dead (get_timers l w) p" using p(2) by (simp add: dead_def)
  ultimately have "count_list (fired (get_timers l w')) p = count_list (fired (get_timers l w)) p"
    by (simp add: count_notin)
  with timers_evolveD(1,6) [OF step(2) p(1)] p(2) show ?thesis by (simp add: quiet_def)
qed

lemma timer_history_ok:
  assumes "timer_history dt l w w'" and "timers_ok {} (get_timers l w)"
  shows "timers_ok {} (get_timers l w')"
  using assms
proof induction
  case (history_process w1 run w2)
  then show ?case
    using loop_timers.process_timers_step(1) ProcessDelayedTasks_returns(2) by blast
next
  case (history_timeout w1 n w2)
  then show ?case using prune_ok GetPollTimeoutMs_timers(1) by metis
qed (use RunAt_client RunEvery_client Cancel_client in \<open>(metis | blast)+\<close>)

lemma timer_history_quiet:
  assumes "timer_history dt l w w'" and "timers_ok {} (get_timers l w)"
    and "p < length (tasks (get_timers l w))" and "cancelled (tasks (get_timers l w) ! p)"
  shows "quiet p (get_timers l w) (get_timers l w')"
  using assms
proof induction
  case history_start
  then show ?case by (simp add: quiet_def)
next
  case (history_process w1 run w2)
  then have "quiet p (get_timers l w) (get_timers l w1)" by blast
  moreover from this have "quiet p (get_timers l w1) (get_timers l w2)"
    using process_quiet [OF timer_history_ok [OF history_process(1,5)] history_process(2,3)]
    by (simp add: quiet_def)
  ultimately show ?case by (simp add: quiet_def)
next
  case (history_timeout w1 n w2)
  then show ?case by (simp add: quiet_def GetPollTimeoutMs_timers(1))
next
  case (history_run_at w1 e cb timer w2)
  then have "timers_le (get_timers l w1) (get_timers l w2)"
    using RunAt_client timer_history_ok by metis
  with history_run_at show ?case using timers_le_quiet by (auto simp: quiet_def)
next
  case (history_run_every w1 iv cb timer w2)
  then have "timers_le (get_timers l w1) (get_timers l w2)"
    using RunEvery_client timer_history_ok by metis
  with history_run_every show ?case using timers_le_quiet by (auto simp: quiet_def)
next
  case (history_cancel w1 timer b w2)
  then have "timers_le (get_timers l w1) (get_timers l w2)"
    using Cancel_client timer_history_ok by metis
  with history_cancel show ?case using timers_le_quiet by (auto simp: quiet_def)
next
  case (history_other w1 w2)
  then show ?case by simp
qed


text \<open>A timer for time 5, cancelled, and a pass over the due tasks at time 10.\<close>

definition timer_example :: "nat world" where
  "timer_example = snd (RunAt 0 5 (Some 9) example_world)"

lemma timer_example_timers: "get_timers 0 timer_example =
    \<lparr>tasks = [\<lparr>timer_id = 1, expire_time = 5, interval = 0, repeat = False, cancelled = False, timer_cb = Some 9\<rparr>],
     m_delayed_tasks = [0], m_timers = [1 \<mapsto> 0], m_next_timer_id = 2, fired = []\<rparr>"
  by (simp add: timer_example_def RunAt_def add_task_def Let_def get_timers_def heap_push_def put_timers_def
      wake_if_needed_def IsInLoopThread_def example_defs no_timers_def)

lemma timer_example_ok: "timers_ok {} (get_timers 0 timer_example)"
  by (auto simp: timer_example_timers timers_ok_def expiry_def split: if_splits)

lemma skip_client: "timer_client get after (\<lambda>c w. Inr w)"
  by (simp add: timer_client_def)




text \<open>C28 (the poll timeout). The timeout computed before each poll lies between 0 and 10000
  milliseconds. It never makes the loop sleep past the expiry of a live timer; when it is less than
  10000, some live timer expires within the next millisecond after it, so the loop does not spin;
  and computing it drops no live timer from table or queue.\<close>

theorem poll_timeout_exact:
  fixes w :: "('cb, 'z) world_scheme"
  assumes ok: "timers_ok {} (get_timers l w)" and r: "GetPollTimeoutMs dt l w = (n, w')"
  shows "0 \<le> n \<and> n \<le> 10000 \<and> timers_ok {} (get_timers l w') \<and>
    m_timers (get_timers l w') = m_timers (get_timers l w) \<and>
    (\<forall>timer p. m_timers (get_timers l w) timer = Some p \<longrightarrow>
       n = 0 \<or> fst (steady_now dt w) + n * ns_per_ms \<le> expiry (get_timers l w) p) \<and>
    (n < 10000 \<longrightarrow> (\<exists>timer p. m_timers (get_timers l w) timer = Some p \<and>
       expiry (get_timers l w) p < fst (steady_now dt w) + (n + 1) * ns_per_ms))"
proof -
  define t where "t = get_timers l w"
  define now where "now = fst (steady_now dt w)"
  define q where "q = dropWhile (dead t) (m_delayed_tasks t)"
  note g = GetPollTimeoutMs_timers [OF r, folded t_def now_def, folded q_def]
  have ok': "timers_ok {} (get_timers l w')" using prune_ok [OF ok] g(1) by (simp add: t_def q_def)
  have live: "p \<in> set q" if "m_timers t timer = Some p" for timer p
    using timers_okD(6) [OF ok', of timer p] that g(1) by simp
  have sorted: "sorted (map (expiry t) q)" using timers_okD(1) [OF ok'] g(1) by simp
  have "(m_timers t timer = Some p \<longrightarrow> n = 0 \<or> now + n * ns_per_ms \<le> expiry t p)" for timer p
  proof (cases q)
    case (Cons a q')
    then have "expiry t a \<le> expiry t p" if "m_timers t timer = Some p"
      using sorted live [OF that] by auto
    moreover have "n * ns_per_ms \<le> (expiry t a - now) div ns_per_ms * ns_per_ms" if "n \<noteq> 0"
      using g(2) Cons that by (auto simp: ns_per_ms_def)
    moreover have "(expiry t a - now) div ns_per_ms * ns_per_ms \<le> expiry t a - now"
      by (simp add: ns_per_ms_def)
    ultimately show ?thesis by fastforce
  qed (use live in auto)
  moreover have "\<exists>timer p. m_timers t timer = Some p \<and> expiry t p < now + (n + 1) * ns_per_ms" if n: "n < 10000"
  proof (cases q)
    case Nil
    then show ?thesis using g(2) n by simp
  next
    case (Cons a q')
    have "\<not> dead t a" using Cons q_def by (metis hd_dropWhile list.distinct(1) list.sel(1))
    moreover have "a < length (tasks t)"
      using timers_okD(3) [OF ok', of a] g(1) Cons by simp
    ultimately have "m_timers t (timer_id (tasks t ! a)) = Some a"
      using dead_iff [OF ok] by (auto simp: t_def)
    moreover have "(expiry t a - now) div ns_per_ms \<le> n" using g(2) Cons n by simp
    then have "expiry t a - now < (n + 1) * ns_per_ms" by (simp add: ns_per_ms_def)
    ultimately show ?thesis by (auto intro!: exI [of _ "timer_id (tasks t ! a)"])
  qed
  moreover have "0 \<le> n \<and> n \<le> 10000" using g(2) by (simp split: list.splits)
  ultimately show ?thesis using ok' g(1) by (simp add: t_def now_def)
qed

theorem poll_timeout_exact_witness:
  "\<exists>n w'. GetPollTimeoutMs (\<lambda>_. 2) 0 timer_example = (n, w') \<and> n = 0 \<and> 0 \<le> n \<and> n \<le> 10000 \<and>
     timers_ok {} (get_timers 0 w')"
proof -
  obtain n w' where r: "GetPollTimeoutMs (\<lambda>_. 2) 0 timer_example = (n, w')"
    by (cases "GetPollTimeoutMs (\<lambda>_. 2) 0 timer_example")
  have "fst (steady_now (\<lambda>_. 2) timer_example) = 2"
    by (simp add: steady_now_def timer_example_def RunAt_def example_defs put_timers_def upd_loop_def
        wake_if_needed_def Wakeup_def Let_def split: prod.splits)
  then have "n = 0"
    using GetPollTimeoutMs_timers(2) [OF r]
    by (simp add: timer_example_timers dead_def expiry_def ns_per_ms_def)
  with r poll_timeout_exact [OF timer_example_ok r] show ?thesis by blast
qed

section \<open>Wake-ups between threads\<close>

text \<open>
  The loop and the other threads, interleaved at the places where one can overtake the other:
  another thread's \<open>QueueInLoop\<close> is two steps, the push under the lock and the wake-up after it
  (\<open>k\<close> counts the threads between the two), and a turn of the loop passes through the phases below.
  \<open>timers_queue\<close> says whether timer callbacks queue functors.
\<close>

datatype 'cb phase = AtPoll | Dispatching | Calling "'cb list" | InTimers

definition by_loop :: "loop_id \<Rightarrow> ('cb, 'z) world_scheme \<Rightarrow> ('cb, 'z) world_scheme" where
  "by_loop l w = w\<lparr>this_thread := m_threadId (loops w l)\<rparr>"

inductive interleaving ::
  "bool \<Rightarrow> loop_id \<Rightarrow> ('cb, 'z) world_scheme \<Rightarrow> 'cb phase \<Rightarrow> nat \<Rightarrow> ('cb, 'z) world_scheme \<Rightarrow> bool"
  for timers_queue l w0 where
  start: "interleaving timers_queue l w0 AtPoll 0 w0"
| other_push: "interleaving timers_queue l w0 ph k w \<Longrightarrow> tid \<noteq> m_threadId (loops w l) \<Longrightarrow>
    interleaving timers_queue l w0 ph (Suc k) (push_functor l cb (w\<lparr>this_thread := tid\<rparr>))"
| other_wake: "interleaving timers_queue l w0 ph (Suc k) w \<Longrightarrow> tid \<noteq> m_threadId (loops w l) \<Longrightarrow>
    interleaving timers_queue l w0 ph k (wake_if_needed l (w\<lparr>this_thread := tid\<rparr>))"
| poll_returns: "interleaving timers_queue l w0 AtPoll k w \<Longrightarrow>
    interleaving timers_queue l w0 Dispatching k w"
| wakeup_read: "interleaving timers_queue l w0 Dispatching k w \<Longrightarrow>
    interleaving timers_queue l w0 Dispatching k (HandleWakeupRead l (by_loop l w))"
| handler_queues: "interleaving timers_queue l w0 Dispatching k w \<Longrightarrow>
    interleaving timers_queue l w0 Dispatching k (QueueInLoop l cb (by_loop l w))"
| functors_taken: "interleaving timers_queue l w0 Dispatching k w \<Longrightarrow>
    take_functors l (by_loop l w) = (fs, w') \<Longrightarrow> interleaving timers_queue l w0 (Calling fs) k w'"
| functor_queues: "interleaving timers_queue l w0 (Calling fs) k w \<Longrightarrow>
    interleaving timers_queue l w0 (Calling fs) k (QueueInLoop l cb (by_loop l w))"
| functor_returns: "interleaving timers_queue l w0 (Calling (f # fs)) k w \<Longrightarrow>
    interleaving timers_queue l w0 (Calling fs) k w"
| functors_done: "interleaving timers_queue l w0 (Calling []) k w \<Longrightarrow>
    interleaving timers_queue l w0 InTimers k (upd_loop l (\<lambda>lp. lp\<lparr>m_callingPendingFunctors := False\<rparr>) w)"
| timer_queues: "interleaving timers_queue l w0 InTimers k w \<Longrightarrow> timers_queue \<Longrightarrow>
    interleaving timers_queue l w0 InTimers k (QueueInLoop l cb (by_loop l w))"
| next_turn: "interleaving timers_queue l w0 InTimers k w \<Longrightarrow> interleaving timers_queue l w0 AtPoll k w"

definition wakeup_inv :: "loop_id \<Rightarrow> 'cb phase \<Rightarrow> nat \<Rightarrow> ('cb, 'z) world_scheme \<Rightarrow> bool" where
  "wakeup_inv l ph k w \<longleftrightarrow>
     (m_callingPendingFunctors (loops w l) \<longleftrightarrow> (\<exists>fs. ph = Calling fs)) \<and>
     (ph \<noteq> Dispatching \<longrightarrow> m_pendingFunctors (loops w l) \<noteq> [] \<longrightarrow> 0 < wakeup_counter (loops w l) \<or> 0 < k)"

lemma wakeup_inv_interleaving:
  assumes "interleaving False l w0 ph k w"
    and "m_pendingFunctors (loops w0 l) = []" and "\<not> m_callingPendingFunctors (loops w0 l)"
  shows "wakeup_inv l ph k w"
  using assms
proof induction
  case (other_wake ph k w tid)
  then have "0 < wakeup_counter (loops (wake_if_needed l (w\<lparr>this_thread := tid\<rparr>)) l)"
    by (simp add: wake_if_needed_def IsInLoopThread_def Wakeup_counter)
  with other_wake show ?case by (simp add: wakeup_inv_def)
next
  case (functor_queues fs k w cb)
  then have "0 < wakeup_counter (loops (QueueInLoop l cb (by_loop l w)) l)"
    by (simp add: QueueInLoop_def wake_if_needed_def wakeup_inv_def by_loop_def Wakeup_counter)
  with functor_queues show ?case by (simp add: wakeup_inv_def QueueInLoop_def by_loop_def)
next
  case (functors_taken k w fs w')
  then show ?case by (auto simp: wakeup_inv_def take_functors_def by_loop_def Let_def)
qed (simp_all add: wakeup_inv_def QueueInLoop_def by_loop_def HandleWakeupRead_eq)



text \<open>A loop that is destroyed from another thread has been asked to quit and is told so by its wake-up descriptor.\<close>

lemma destroy_EventLoop_quits:
  assumes "destroy_EventLoop l own w = Inr w'"
  shows "m_quit (loops w' l)" and "\<not> IsInLoopThread l w \<Longrightarrow> 0 < wakeup_counter (loops w' l)"
    and "\<not> m_added (channels w' (m_wakeupChannel (loops w l)))"
proof -
  let ?w = "Quit l w" and ?c = "m_wakeupChannel (loops w l)"
  have q: "m_quit (loops ?w l)" "m_wakeupChannel (loops ?w l) = ?c" "\<not> IsInLoopThread l w \<Longrightarrow> 0 < wakeup_counter (loops ?w l)"
    by (auto simp: Quit_def Let_def Wakeup_def IsInLoopThread_def eventfd_max_def)
  have "m_quit (loops w' l) \<and> wakeup_counter (loops w' l) = wakeup_counter (loops ?w l) \<and> \<not> m_added (channels w' ?c)"
    using assms q(1,2)
    by (auto simp: destroy_EventLoop_def Let_def with_poller_def rbind_eq_Inr_iff split: if_splits)
  with q(3) show "m_quit (loops w' l)" and "\<not> IsInLoopThread l w \<Longrightarrow> 0 < wakeup_counter (loops w' l)"
    and "\<not> m_added (channels w' ?c)" by auto
qed

text \<open>A functor queued by a timer callback waits. A timer callback runs after the turn's
  functors. When it queues a functor, nothing wakes the loop up: there is a turn of the loop after
  which a functor is queued, the wake-up descriptor is not readable, and the next poll is to block
  for the full 10000 milliseconds.\<close>

theorem timer_functor_waits:
  "\<exists>w'. loop_turn (\<lambda>_. 10) (\<lambda>c w. Inr (QueueInLoop 0 7 w)) 0 (Inr []) timer_example = Inr w' \<and>
     m_pendingFunctors (loops w' 0) = [7] \<and> wakeup_counter (loops w' 0) = 0 \<and>
     fst (GetPollTimeoutMs (\<lambda>_. 10) 0 w') = 10000"
proof -
  have "(case loop_turn (\<lambda>_. 10) (\<lambda>c w. Inr (QueueInLoop 0 7 w)) 0 (Inr []) timer_example of
      Inl e \<Rightarrow> False
    | Inr w' \<Rightarrow> m_pendingFunctors (loops w' 0) = [7] \<and> wakeup_counter (loops w' 0) = 0 \<and>
       fst (GetPollTimeoutMs (\<lambda>_. 10) 0 w') = 10000)"
    by code_simp
  then show ?thesis by (simp split: sum.splits)
qed

end
