(* ===== verification/Byte_Buffer.thy ===== *)
theory Byte_Buffer
  imports Reactor_Prelude
begin

text \<open>
  The connection buffer of \<open>include/buffer.h\<close> and \<open>src/buffer.cpp\<close>: one contiguous vector
  with a read and a write index. Every member function is one definition, with the asserts,
  the vector's exceptions and out-of-range accesses as failures. Pointers into the vector are
  offsets. The abstraction \<open>content\<close> is the list of readable bytes; the locale
  \<open>byte_fifo\<close> states what the codec and the connection rely on.

  The system calls are arguments: \<open>ReadFromFd\<close> takes what \<open>readv\<close> delivered (an \<open>errno\<close> or
  the bytes), \<open>WriteToFd\<close> what \<open>write\<close> returned (an \<open>errno\<close> or the byte count).
\<close>

section \<open>Byte order\<close>

text \<open>
  \<open>SocketUtils::HostToNetLong\<close> and \<open>NetToHostLong\<close> (\<open>htonl\<close>, \<open>ntohl\<close>) and the bytes an
  unsigned 32-bit object has in memory, for either byte order of the host.
\<close>

datatype endian = LittleEndian | BigEndian

definition be_bytes :: "uint32 \<Rightarrow> string" where
  "be_bytes x = [char_of (unat x div 16777216), char_of (unat x div 65536),
                 char_of (unat x div 256), char_of (unat x)]"

text \<open>The same by integer arithmetic, for evaluation.\<close>

lemma char_of_int: "char_of (int n) = char_of n"
  by (simp add: char_of_def bit_of_nat_iff_bit even_of_nat)

lemma be_bytes_code [code]:
  "be_bytes x = [char_of (uint x div 16777216), char_of (uint x div 65536), char_of (uint x div 256), char_of (uint x)]"
proof -
  have u: "uint x = int (unat x)" by simp
  show ?thesis unfolding be_bytes_def u
    using char_of_int [of "unat x div 16777216"] char_of_int [of "unat x div 65536"]
      char_of_int [of "unat x div 256"] char_of_int [of "unat x"] by (simp add: zdiv_int)
qed

definition be_value :: "string \<Rightarrow> uint32" where
  "be_value bs = of_nat (foldl (\<lambda>acc c. 256 * acc + of_char c) 0 bs)"

definition object_bytes :: "endian \<Rightarrow> uint32 \<Rightarrow> string" where
  "object_bytes e x = (case e of BigEndian \<Rightarrow> be_bytes x | LittleEndian \<Rightarrow> rev (be_bytes x))"

definition object_value :: "endian \<Rightarrow> string \<Rightarrow> uint32" where
  "object_value e bs = (case e of BigEndian \<Rightarrow> be_value bs | LittleEndian \<Rightarrow> be_value (rev bs))"

definition byte_swap :: "uint32 \<Rightarrow> uint32" where
  "byte_swap x = be_value (rev (be_bytes x))"

definition HostToNetLong :: "endian \<Rightarrow> uint32 \<Rightarrow> uint32" where
  "HostToNetLong e host32 = (case e of BigEndian \<Rightarrow> host32 | LittleEndian \<Rightarrow> byte_swap host32)"

definition NetToHostLong :: "endian \<Rightarrow> uint32 \<Rightarrow> uint32" where
  "NetToHostLong e net32 = (case e of BigEndian \<Rightarrow> net32 | LittleEndian \<Rightarrow> byte_swap net32)"

section \<open>The buffer\<close>

record buffer =
  m_buf :: string
  m_read_idx :: size_t
  m_write_idx :: size_t

definition kInitialSize :: size_t where
  "kInitialSize = 1024"

definition Buffer :: "size_t \<Rightarrow> buffer" where
  "Buffer initial_size =
     \<lparr>m_buf = replicate (unat initial_size) (CHR 0x00), m_read_idx = 0, m_write_idx = 0\<rparr>"

definition vector_size :: "buffer \<Rightarrow> size_t" where
  "vector_size b = of_nat (length (m_buf b))"

definition ReadableBytes :: "buffer \<Rightarrow> size_t" where
  "ReadableBytes b = m_write_idx b - m_read_idx b"

definition WritableBytes :: "buffer \<Rightarrow> size_t" where
  "WritableBytes b = vector_size b - m_write_idx b"

definition PrependableBytes :: "buffer \<Rightarrow> size_t" where
  "PrependableBytes b = m_read_idx b"

definition Peek :: "buffer \<Rightarrow> size_t" where
  "Peek b = m_read_idx b"

definition Retrieve :: "size_t \<Rightarrow> buffer \<Rightarrow> buffer result" where
  "Retrieve len b =
     rbind (cpp_assert (len \<le> ReadableBytes b)) (\<lambda>_.
     Inr (b\<lparr>m_read_idx := m_read_idx b + len\<rparr>))"

definition RetrieveUntil :: "size_t \<Rightarrow> buffer \<Rightarrow> buffer result" where
  "RetrieveUntil end b =
     rbind (cpp_assert (Peek b \<le> end)) (\<lambda>_. Retrieve (end - Peek b) b)"

definition RetrieveAll :: "buffer \<Rightarrow> buffer" where
  "RetrieveAll b = b\<lparr>m_read_idx := 0, m_write_idx := 0\<rparr>"

definition RetrieveAsString :: "size_t \<Rightarrow> buffer \<Rightarrow> (string \<times> buffer) result" where
  "RetrieveAsString len b =
     rbind (cpp_assert (len \<le> ReadableBytes b)) (\<lambda>_.
     rbind (read_range (unat (Peek b)) (unat len) (m_buf b)) (\<lambda>s.
     rbind (Retrieve len b) (\<lambda>b'.
     Inr (s, b'))))"

definition RetrieveAllAsString :: "buffer \<Rightarrow> (string \<times> buffer) result" where
  "RetrieveAllAsString b = RetrieveAsString (ReadableBytes b) b"

text \<open>\<open>std::vector<char>::resize\<close>: truncates, or appends zero bytes, or throws.\<close>

definition vector_resize :: "size_t \<Rightarrow> string \<Rightarrow> string result" where
  "vector_resize n v =
     (if max_size < unat n then Inl LengthError
      else Inr (take (unat n) v @ replicate (unat n - length v) (CHR 0x00)))"

definition MakeSpace :: "size_t \<Rightarrow> buffer \<Rightarrow> buffer result" where
  "MakeSpace len b =
     (if len \<le> PrependableBytes b + WritableBytes b then
        let readable = ReadableBytes b in
        rbind (read_range (unat (m_read_idx b)) (unat readable) (m_buf b)) (\<lambda>d.
        rbind (write_range 0 d (m_buf b)) (\<lambda>v.
        let b' = b\<lparr>m_buf := v, m_read_idx := 0, m_write_idx := readable\<rparr> in
        rbind (cpp_assert (readable = ReadableBytes b')) (\<lambda>_. Inr b')))
      else
        rbind (vector_resize (m_write_idx b + len) (m_buf b)) (\<lambda>v. Inr (b\<lparr>m_buf := v\<rparr>)))"

definition EnsureWritableBytes :: "size_t \<Rightarrow> buffer \<Rightarrow> buffer result" where
  "EnsureWritableBytes len b =
     (if len \<le> WritableBytes b then Inr b
      else rbind (MakeSpace len b) (\<lambda>b'.
           rbind (cpp_assert (len \<le> WritableBytes b')) (\<lambda>_. Inr b')))"

definition HasWritten :: "size_t \<Rightarrow> buffer \<Rightarrow> buffer result" where
  "HasWritten len b =
     rbind (cpp_assert (len \<le> WritableBytes b)) (\<lambda>_.
     Inr (b\<lparr>m_write_idx := m_write_idx b + len\<rparr>))"

text \<open>
  \<open>Append(const char* data, size_t len)\<close>: \<open>data\<close> is the array the pointer points to, of which
  \<open>len\<close> bytes are copied.
\<close>

definition Append :: "string \<Rightarrow> size_t \<Rightarrow> buffer \<Rightarrow> buffer result" where
  "Append data len b =
     rbind (EnsureWritableBytes len b) (\<lambda>b.
     rbind (read_range 0 (unat len) data) (\<lambda>d.
     rbind (write_range (unat (m_write_idx b)) d (m_buf b)) (\<lambda>v.
     Inr (b\<lparr>m_buf := v, m_write_idx := m_write_idx b + len\<rparr>))))"

definition Append_string :: "string \<Rightarrow> buffer \<Rightarrow> buffer result" where
  "Append_string str b = Append str (of_nat (length str)) b"

definition Prepend :: "string \<Rightarrow> size_t \<Rightarrow> buffer \<Rightarrow> buffer result" where
  "Prepend data len b =
     rbind (cpp_assert (len \<le> PrependableBytes b)) (\<lambda>_.
     let i = m_read_idx b - len in
     rbind (read_range 0 (unat len) data) (\<lambda>d.
     rbind (write_range (unat i) d (m_buf b)) (\<lambda>v.
     Inr (b\<lparr>m_buf := v, m_read_idx := i\<rparr>))))"

section \<open>Searching the readable bytes\<close>

fun char_index :: "nat \<Rightarrow> char \<Rightarrow> string \<Rightarrow> nat option" where
  "char_index p c [] = None"
| "char_index p c (x # xs) = (if x = c then Some p else char_index (Suc p) c xs)"

text \<open>\<open>memchr(p, c, n)\<close> on the array \<open>arr\<close>: the first position of \<open>c\<close> in \<open>[p, p + n)\<close>.\<close>

definition memchr :: "string \<Rightarrow> nat \<Rightarrow> char \<Rightarrow> nat \<Rightarrow> nat option result" where
  "memchr arr p c n = rbind (read_range p n arr) (\<lambda>s. Inr (char_index p c s))"

lemma char_index_SomeD:
  "char_index p c s = Some q \<Longrightarrow>
   p \<le> q \<and> q < p + length s \<and> s ! (q - p) = c \<and> (\<forall>k < q - p. s ! k \<noteq> c)"
proof (induction p c s rule: char_index.induct)
  case (1 p c)
  then show ?case by simp
next
  case (2 p c x xs)
  show ?case
  proof (cases "x = c")
    case True
    with "2.prems" show ?thesis by simp
  next
    case False
    with 2 have IH: "Suc p \<le> q \<and> q < Suc p + length xs \<and> xs ! (q - Suc p) = c
        \<and> (\<forall>k < q - Suc p. xs ! k \<noteq> c)" by simp
    then obtain j where j: "q = Suc p + j" by (metis le_add_diff_inverse)
    with IH False show ?thesis by (auto simp: less_Suc_eq_0_disj)
  qed
qed

lemma char_index_NoneD: "char_index p c s = None \<Longrightarrow> c \<notin> set s"
  by (induction p c s rule: char_index.induct) (auto split: if_splits)

lemma memchr_bounds:
  "memchr arr p c n = Inr (Some q) \<Longrightarrow> p \<le> q \<and> q < p + n"
  by (auto simp: memchr_def read_range_def rbind_def dest!: char_index_SomeD split: if_splits)

function find_crlf :: "string \<Rightarrow> nat \<Rightarrow> nat \<Rightarrow> nat option result" where
  "find_crlf arr p end =
     rbind (memchr arr p (CHR 0x0D) (end - p)) (\<lambda>r.
     case r of
       None \<Rightarrow> Inr None
     | Some q \<Rightarrow>
         if q + 1 < end \<and> arr ! (q + 1) = CHR 0x0A then Inr (Some q)
         else find_crlf arr (q + 1) end)"
  by pat_completeness auto
termination
  by (relation "measure (\<lambda>(arr, p, end). end - p)") (auto dest!: memchr_bounds)

declare find_crlf.simps [simp del]

definition FindCRLF_from :: "size_t \<Rightarrow> buffer \<Rightarrow> nat option result" where
  "FindCRLF_from start b =
     rbind (cpp_assert (Peek b \<le> start)) (\<lambda>_.
     let end = Peek b + ReadableBytes b in
     if end < start then Inl UndefinedBehaviour
     else find_crlf (m_buf b) (unat start) (unat end))"

definition FindCRLF :: "buffer \<Rightarrow> nat option result" where
  "FindCRLF b = FindCRLF_from (Peek b) b"

definition FindEOL_from :: "size_t \<Rightarrow> buffer \<Rightarrow> nat option result" where
  "FindEOL_from start b =
     rbind (cpp_assert (Peek b \<le> start)) (\<lambda>_.
     memchr (m_buf b) (unat start) (CHR 0x0A) (unat (Peek b + ReadableBytes b - start)))"

definition FindEOL :: "buffer \<Rightarrow> nat option result" where
  "FindEOL b = FindEOL_from (Peek b) b"

section \<open>Descriptors\<close>

text \<open>
  \<open>ReadFromFd\<close> on Linux. \<open>readv\<close> scatters what it delivers over the writable part of the
  vector and then over the 64 KiB stack array; \<open>Inl err\<close> is its return value -1 with that
  \<open>errno\<close>. The result is the return value, the saved \<open>errno\<close> if it was set, and the buffer.
\<close>

definition extrabuf_size :: nat where
  "extrabuf_size = 65536"

definition readv_capacity :: "buffer \<Rightarrow> nat" where
  "readv_capacity b =
     (let writable = unat (WritableBytes b)
      in if writable < extrabuf_size then writable + extrabuf_size else writable)"

definition ReadFromFd ::
  "errno + string \<Rightarrow> buffer \<Rightarrow> (ssize_t \<times> errno option \<times> buffer) result" where
  "ReadFromFd rv b =
     (let writable = WritableBytes b;
          data = (case rv of Inl err \<Rightarrow> [] | Inr d \<Rightarrow> d);
          n = (case rv of Inl err \<Rightarrow> - 1 | Inr d \<Rightarrow> of_nat (length d)) :: ssize_t;
          saved_errno = (case rv of Inl err \<Rightarrow> Some err | Inr d \<Rightarrow> None);
          extra = drop (unat writable) data;
          extrabuf = extra @ replicate (extrabuf_size - length extra) (CHR 0x00) in
      rbind (write_range (unat (m_write_idx b)) (take (unat writable) data) (m_buf b)) (\<lambda>v.
      let b = b\<lparr>m_buf := v\<rparr> in
      if n \<le> writable then
        Inr (n, saved_errno, b\<lparr>m_write_idx := m_write_idx b + n\<rparr>)
      else
        rbind (Append extrabuf (n - writable) (b\<lparr>m_write_idx := vector_size b\<rparr>)) (\<lambda>b.
        Inr (n, saved_errno, b))))"

definition WriteToFd ::
  "errno + size_t \<Rightarrow> buffer \<Rightarrow> (ssize_t \<times> errno option \<times> buffer) result" where
  "WriteToFd wv b =
     (let readable = ReadableBytes b in
      if readable = 0 then Inr (0, None, b)
      else
        let n = (case wv of Inl err \<Rightarrow> - 1 | Inr k \<Rightarrow> k) :: ssize_t;
            saved_errno = (case wv of Inl err \<Rightarrow> Some err | Inr k \<Rightarrow> None) in
        if 0 < sint n then rbind (Retrieve n b) (\<lambda>b'. Inr (n, saved_errno, b'))
        else Inr (n, saved_errno, b))"

section \<open>Network integers\<close>

definition PeekInt32 :: "endian \<Rightarrow> buffer \<Rightarrow> int32 result" where
  "PeekInt32 e b =
     rbind (read_range (unat (Peek b)) 4 (m_buf b)) (\<lambda>bs.
     Inr (NetToHostLong e (object_value e bs)))"

definition AppendInt32 :: "endian \<Rightarrow> int32 \<Rightarrow> buffer \<Rightarrow> buffer result" where
  "AppendInt32 e x b =
     (let net_x = HostToNetLong e x in Append (object_bytes e net_x) 4 b)"

section \<open>Byte order: the wire format\<close>

lemma length_be_bytes [simp]: "length (be_bytes x) = 4"
  by (simp add: be_bytes_def)

lemma be_value_be_bytes [simp]: "be_value (be_bytes x) = x"
proof -
  define n where "n = unat x"
  have n: "n < 4294967296"
    using unsigned_less [of x] by (simp add: n_def)
  have "256 * (256 * (256 * (n div 16777216 mod 256) + n div 65536 mod 256) + n div 256 mod 256)
      + n mod 256 = n" (is "?v = n")
  proof -
    have "n div 16777216 mod 256 = n div 256 div 256 div 256"
      using n by (simp add: div_mult2_eq [symmetric] less_mult_imp_div_less)
    moreover have "n div 65536 = n div 256 div 256"
      by (simp add: div_mult2_eq [symmetric])
    ultimately show ?thesis by (simp only: mult_div_mod_eq)
  qed
  moreover have "be_value (be_bytes x) = of_nat ?v"
    by (simp only: be_value_def be_bytes_def n_def of_char_of foldl.simps mult_0_right add_0_left)
  ultimately have "be_value (be_bytes x) = of_nat n"
    by (simp only:)
  then show ?thesis by (simp add: n_def)
qed

lemma four_digits_bound:
  "a < 256 \<Longrightarrow> b < 256 \<Longrightarrow> c < 256 \<Longrightarrow> d < 256 \<Longrightarrow>
   256 * (256 * (256 * a + b) + c) + d < (4294967296 :: nat)"
  by simp

lemma four_digits:
  fixes a b c d :: nat
  assumes "a < 256" "b < 256" "c < 256" "d < 256"
  shows "(256 * (256 * (256 * a + b) + c) + d) div 16777216 = a"
    and "(256 * (256 * (256 * a + b) + c) + d) div 65536 mod 256 = b"
    and "(256 * (256 * (256 * a + b) + c) + d) div 256 mod 256 = c"
    and "(256 * (256 * (256 * a + b) + c) + d) mod 256 = d"
proof -
  have step: "(256 * m + k) div 256 = m" "(256 * m + k) mod 256 = k" if "k < 256" for m k :: nat
    using that by simp_all
  have split: "n div 16777216 = n div 256 div 256 div 256" "n div 65536 = n div 256 div 256"
    for n :: nat by (simp_all add: div_mult2_eq [symmetric])
  show "(256 * (256 * (256 * a + b) + c) + d) div 16777216 = a"
    and "(256 * (256 * (256 * a + b) + c) + d) div 65536 mod 256 = b"
    and "(256 * (256 * (256 * a + b) + c) + d) div 256 mod 256 = c"
    and "(256 * (256 * (256 * a + b) + c) + d) mod 256 = d"
    using assms by (simp_all only: split step)
qed

lemma be_bytes_be_value:
  assumes "length bs = 4"
  shows "be_bytes (be_value bs) = bs"
proof -
  from assms obtain a b c d where bs: "bs = [a, b, c, d]"
    by (auto simp: numeral_eq_Suc length_Suc_conv)
  define N :: nat where
    "N = 256 * (256 * (256 * of_char a + of_char b) + of_char c) + of_char d"
  have lt: "of_char a < (256::nat)" "of_char b < (256::nat)" "of_char c < (256::nat)"
    "of_char d < (256::nat)" by simp_all
  then have N: "N < 4294967296" unfolding N_def by (rule four_digits_bound)
  have "be_value bs = of_nat N"
    by (simp only: be_value_def bs N_def foldl.simps mult_0_right add_0_left)
  with N have be: "unat (be_value bs) = N"
    by (simp add: unat_of_nat)
  have digits: "N div 16777216 = of_char a" "N div 65536 mod 256 = of_char b"
    "N div 256 mod 256 = of_char c" "N mod 256 = of_char d"
    unfolding N_def using lt by (simp_all only: four_digits)
  have "char_of (N div 16777216) = a" "char_of (N div 65536) = b"
    "char_of (N div 256) = c" "char_of N = d"
    using digits char_of_mod_256 [of "N div 65536"] char_of_mod_256 [of "N div 256"]
      char_of_mod_256 [of N] by simp_all
  then show ?thesis
    by (simp only: be_bytes_def be) (simp add: bs)
qed

lemma object_bytes_HostToNetLong [simp]: "object_bytes e (HostToNetLong e x) = be_bytes x"
  by (cases e) (simp_all add: object_bytes_def HostToNetLong_def byte_swap_def be_bytes_be_value)

lemma NetToHostLong_object_value [simp]:
  assumes "length bs = 4"
  shows "NetToHostLong e (object_value e bs) = be_value bs"
  using assms
  by (cases e) (simp_all add: NetToHostLong_def object_value_def byte_swap_def be_bytes_be_value)

lemma NetToHostLong_HostToNetLong [simp]: "NetToHostLong e (HostToNetLong e x) = x"
  by (cases e) (simp_all add: NetToHostLong_def HostToNetLong_def byte_swap_def be_bytes_be_value)

section \<open>Well-formed buffers and their content\<close>

definition wf_buffer :: "buffer \<Rightarrow> bool" where
  "wf_buffer b \<longleftrightarrow>
     unat (m_read_idx b) \<le> unat (m_write_idx b) \<and>
     unat (m_write_idx b) \<le> length (m_buf b) \<and> length (m_buf b) \<le> max_size"

definition content :: "buffer \<Rightarrow> string" where
  "content b =
     take (unat (m_write_idx b) - unat (m_read_idx b)) (drop (unat (m_read_idx b)) (m_buf b))"

lemma wf_bounds:
  assumes "wf_buffer b"
  shows "unat (m_read_idx b) \<le> unat (m_write_idx b)"
    and "unat (m_write_idx b) \<le> length (m_buf b)"
    and "length (m_buf b) \<le> 9223372036854775807"
  using assms by (simp_all add: wf_buffer_def max_size_def)

lemma length_content:
  "wf_buffer b \<Longrightarrow> length (content b) = unat (m_write_idx b) - unat (m_read_idx b)"
  by (auto simp: content_def dest: wf_bounds)

lemma unat_ReadableBytes: "wf_buffer b \<Longrightarrow> unat (ReadableBytes b) = length (content b)"
  by (simp add: ReadableBytes_def size_simps length_content wf_bounds)

lemma ReadableBytes_eq: "wf_buffer b \<Longrightarrow> ReadableBytes b = of_nat (length (content b))"
  by (simp flip: unat_ReadableBytes)

lemma unat_vector_size: "wf_buffer b \<Longrightarrow> unat (vector_size b) = length (m_buf b)"
  using wf_bounds [of b] by (simp add: vector_size_def size_simps)

lemma unat_WritableBytes:
  "wf_buffer b \<Longrightarrow> unat (WritableBytes b) = length (m_buf b) - unat (m_write_idx b)"
  by (simp add: WritableBytes_def size_simps unat_vector_size wf_bounds)

lemma unat_PrependableBytes [simp]: "unat (PrependableBytes b) = unat (m_read_idx b)"
  by (simp add: PrependableBytes_def)

lemmas buffer_sizes = unat_ReadableBytes unat_WritableBytes unat_vector_size

lemma wf_Buffer: "unat n \<le> max_size \<Longrightarrow> wf_buffer (Buffer n)"
  by (simp add: wf_buffer_def Buffer_def)

lemma content_Buffer [simp]: "content (Buffer n) = []"
  by (simp add: content_def Buffer_def)

subsection \<open>Retrieving\<close>

lemma Retrieve_ok:
  assumes "wf_buffer b" and "unat len \<le> length (content b)"
  shows "Retrieve len b = Inr (b\<lparr>m_read_idx := m_read_idx b + len\<rparr>)"
    and "wf_buffer (b\<lparr>m_read_idx := m_read_idx b + len\<rparr>)"
    and "content (b\<lparr>m_read_idx := m_read_idx b + len\<rparr>) = drop (unat len) (content b)"
proof -
  note wf = wf_bounds [OF assms(1)]
  have le: "unat (m_read_idx b) + unat len \<le> unat (m_write_idx b)"
    using assms wf by (simp add: length_content)
  then have add: "unat (m_read_idx b + len) = unat (m_read_idx b) + unat len"
    using unat_size_t_bound [of "m_write_idx b"] by (simp add: size_simps)
  show "Retrieve len b = Inr (b\<lparr>m_read_idx := m_read_idx b + len\<rparr>)"
    using assms by (simp add: Retrieve_def word_le_nat_alt unat_ReadableBytes)
  show "wf_buffer (b\<lparr>m_read_idx := m_read_idx b + len\<rparr>)"
    using assms(1) le add by (simp add: wf_buffer_def)
  show "content (b\<lparr>m_read_idx := m_read_idx b + len\<rparr>) = drop (unat len) (content b)"
    using add by (simp add: content_def drop_take add.commute)
qed

lemma Retrieve_too_much:
  "wf_buffer b \<Longrightarrow> length (content b) < unat len \<Longrightarrow> Retrieve len b = Inl AssertionFailure"
  by (simp add: Retrieve_def word_le_nat_alt unat_ReadableBytes)

lemma read_content:
  assumes "wf_buffer b" and "n \<le> length (content b)"
  shows "read_range (unat (m_read_idx b)) n (m_buf b) = Inr (take n (content b))"
  using assms wf_bounds [OF assms(1)] by (simp add: length_content) (simp add: content_def)

lemma RetrieveAsString_ok:
  assumes "wf_buffer b" and "unat len \<le> length (content b)"
  shows "RetrieveAsString len b
    = Inr (take (unat len) (content b), b\<lparr>m_read_idx := m_read_idx b + len\<rparr>)"
  using assms Retrieve_ok [OF assms] read_content [OF assms]
  by (simp add: RetrieveAsString_def Peek_def word_le_nat_alt unat_ReadableBytes)

lemma RetrieveAsString_too_much:
  "wf_buffer b \<Longrightarrow> length (content b) < unat len \<Longrightarrow>
   RetrieveAsString len b = Inl AssertionFailure"
  by (simp add: RetrieveAsString_def word_le_nat_alt unat_ReadableBytes)

lemma RetrieveAllAsString_ok:
  assumes "wf_buffer b"
  shows "\<exists>b'. RetrieveAllAsString b = Inr (content b, b') \<and> wf_buffer b' \<and> content b' = []"
  using assms RetrieveAsString_ok [OF assms, of "ReadableBytes b"]
    Retrieve_ok [OF assms, of "ReadableBytes b"]
  by (simp add: RetrieveAllAsString_def unat_ReadableBytes)

lemma RetrieveAll_ok: "wf_buffer b \<Longrightarrow> wf_buffer (RetrieveAll b) \<and> content (RetrieveAll b) = []"
  by (simp add: RetrieveAll_def wf_buffer_def content_def)

subsection \<open>Making room and appending\<close>

lemma MakeSpace_compacts:
  assumes wf: "wf_buffer b" and room: "len \<le> PrependableBytes b + WritableBytes b"
  shows "\<exists>b'. MakeSpace len b = Inr b' \<and> wf_buffer b' \<and> content b' = content b
    \<and> unat (m_write_idx b') \<le> unat (m_write_idx b)
    \<and> unat len \<le> length (m_buf b') - unat (m_write_idx b')"
proof -
  define v where "v = content b @ drop (length (content b)) (m_buf b)"
  define b' where "b' = b\<lparr>m_buf := v, m_read_idx := 0, m_write_idx := ReadableBytes b\<rparr>"
  note bounds = wf_bounds [OF wf]
  have le: "length (content b) \<le> length (m_buf b)"
    using bounds by (simp add: length_content [OF wf])
  have step: "MakeSpace len b = Inr b'"
    using room le read_content [OF wf, of "length (content b)"]
    by (simp add: MakeSpace_def Let_def unat_ReadableBytes [OF wf] b'_def v_def)
      (simp add: ReadableBytes_def)
  have len_v: "length v = length (m_buf b)"
    using le by (simp add: v_def)
  have "unat (PrependableBytes b + WritableBytes b)
      = unat (m_read_idx b) + (length (m_buf b) - unat (m_write_idx b))"
    using bounds by (simp add: size_simps buffer_sizes [OF wf])
  then have "unat len \<le> length (m_buf b') - unat (m_write_idx b')"
    using room bounds
    by (simp add: b'_def len_v unat_ReadableBytes [OF wf] length_content [OF wf] word_le_nat_alt)
  moreover have "content b' = content b"
    by (subst content_def) (simp add: b'_def v_def unat_ReadableBytes [OF wf])
  moreover have "wf_buffer b'" and "unat (m_write_idx b') \<le> unat (m_write_idx b)"
    using wf le len_v bounds length_content [OF wf]
    by (simp_all add: wf_buffer_def b'_def unat_ReadableBytes v_def)
  ultimately show ?thesis using step by blast
qed

lemma MakeSpace_grows:
  assumes wf: "wf_buffer b" and no_room: "\<not> len \<le> PrependableBytes b + WritableBytes b"
    and fits: "unat (m_write_idx b) + unat len \<le> max_size"
  shows "\<exists>b'. MakeSpace len b = Inr b' \<and> wf_buffer b' \<and> content b' = content b
    \<and> m_write_idx b' = m_write_idx b
    \<and> unat len \<le> length (m_buf b') - unat (m_write_idx b')"
proof -
  note bounds = wf_bounds [OF wf]
  have n: "unat (m_write_idx b + len) = unat (m_write_idx b) + unat len"
    using fits by (simp add: size_simps max_size_def)
  have "unat (PrependableBytes b + WritableBytes b)
      = unat (m_read_idx b) + (length (m_buf b) - unat (m_write_idx b))"
    using bounds by (simp add: size_simps buffer_sizes [OF wf])
  then have big: "length (m_buf b) \<le> unat (m_write_idx b) + unat len"
    using no_room bounds by (simp add: word_le_nat_alt)
  define v where
    "v = m_buf b @ replicate (unat (m_write_idx b) + unat len - length (m_buf b)) (CHR 0x00)"
  have "MakeSpace len b = Inr (b\<lparr>m_buf := v\<rparr>)"
    using no_room fits big by (simp add: MakeSpace_def vector_resize_def n v_def)
  moreover have "wf_buffer (b\<lparr>m_buf := v\<rparr>)"
    using wf fits big by (simp add: wf_buffer_def v_def)
  moreover have "content (b\<lparr>m_buf := v\<rparr>) = content b"
    using bounds by (simp add: content_def v_def)
  ultimately show ?thesis using big by (auto simp: v_def)
qed

lemma EnsureWritableBytes_ok:
  assumes wf: "wf_buffer b" and fits: "unat (m_write_idx b) + unat len \<le> max_size"
  shows "\<exists>b'. EnsureWritableBytes len b = Inr b' \<and> wf_buffer b' \<and> content b' = content b
    \<and> unat (m_write_idx b') \<le> unat (m_write_idx b)
    \<and> unat len \<le> length (m_buf b') - unat (m_write_idx b')"
proof (cases "len \<le> WritableBytes b")
  case True
  with wf show ?thesis
    by (simp add: EnsureWritableBytes_def word_le_nat_alt unat_WritableBytes)
next
  case False
  from wf fits obtain b' where b': "MakeSpace len b = Inr b'" "wf_buffer b'" "content b' = content b"
    "unat (m_write_idx b') \<le> unat (m_write_idx b)"
    "unat len \<le> length (m_buf b') - unat (m_write_idx b')"
    using MakeSpace_compacts [OF wf, of len] MakeSpace_grows [OF wf, of len]
    by (cases "len \<le> PrependableBytes b + WritableBytes b") auto
  then have "len \<le> WritableBytes b'"
    by (simp add: word_le_nat_alt unat_WritableBytes)
  with False b' show ?thesis by (simp add: EnsureWritableBytes_def)
qed

lemma HasWritten_ok:
  assumes wf: "wf_buffer b" and fits: "unat len \<le> length (m_buf b) - unat (m_write_idx b)"
  shows "HasWritten len b = Inr (b\<lparr>m_write_idx := m_write_idx b + len\<rparr>)"
    and "wf_buffer (b\<lparr>m_write_idx := m_write_idx b + len\<rparr>)"
    and "unat (m_write_idx b + len) = unat (m_write_idx b) + unat len"
proof -
  note bounds = wf_bounds [OF wf]
  show add: "unat (m_write_idx b + len) = unat (m_write_idx b) + unat len"
    using fits bounds by (simp add: size_simps)
  show "HasWritten len b = Inr (b\<lparr>m_write_idx := m_write_idx b + len\<rparr>)"
    using fits by (simp add: HasWritten_def word_le_nat_alt unat_WritableBytes [OF wf])
  show "wf_buffer (b\<lparr>m_write_idx := m_write_idx b + len\<rparr>)"
    using wf fits bounds by (simp add: wf_buffer_def add)
qed

lemma content_written:
  assumes wf: "wf_buffer b" and fits: "length d \<le> length (m_buf b) - unat (m_write_idx b)"
  defines "v \<equiv> take (unat (m_write_idx b)) (m_buf b) @ d
                 @ drop (unat (m_write_idx b) + length d) (m_buf b)"
  defines "b' \<equiv> b\<lparr>m_buf := v, m_write_idx := m_write_idx b + of_nat (length d)\<rparr>"
  shows "wf_buffer b'" and "content b' = content b @ d"
    and "unat (m_write_idx b') = unat (m_write_idx b) + length d"
proof -
  note bounds = wf_bounds [OF wf]
  have len: "unat (of_nat (length d) :: size_t) = length d"
    using fits bounds by (simp add: size_simps)
  show add: "unat (m_write_idx b') = unat (m_write_idx b) + length d"
    using HasWritten_ok(3) [OF wf, of "of_nat (length d)"] fits by (simp add: b'_def len)
  have len_v: "length v = length (m_buf b)"
    using fits bounds by (simp add: v_def)
  show "wf_buffer b'"
    using wf add fits bounds len_v by (simp add: wf_buffer_def b'_def)
  show "content b' = content b @ d"
    using add fits bounds take_drop_append_at [of "unat (m_read_idx b)" "unat (m_write_idx b)" "m_buf b" d]
    by (simp add: content_def [of b'] content_def [of b]) (simp add: b'_def v_def)
qed

lemma Append_ok:
  assumes wf: "wf_buffer b" and fits: "unat (m_write_idx b) + unat len \<le> max_size"
    and src: "unat len \<le> length data"
  shows "\<exists>b'. Append data len b = Inr b' \<and> wf_buffer b'
    \<and> content b' = content b @ take (unat len) data
    \<and> unat (m_write_idx b') \<le> unat (m_write_idx b) + unat len"
proof -
  from EnsureWritableBytes_ok [OF wf fits] obtain c where
    c: "EnsureWritableBytes len b = Inr c" "wf_buffer c" "content c = content b"
      "unat (m_write_idx c) \<le> unat (m_write_idx b)"
      "unat len \<le> length (m_buf c) - unat (m_write_idx c)" by blast
  define d where "d = take (unat len) data"
  have d: "length d = unat len" using src by (simp add: d_def)
  then have of_d: "of_nat (length d) = len" by simp
  have "unat (m_write_idx c) + length d \<le> length (m_buf c)"
    using c(5) wf_bounds(2) [OF c(2)] d by simp
  then have "Append data len b = Inr (c\<lparr>m_buf := take (unat (m_write_idx c)) (m_buf c) @ d
        @ drop (unat (m_write_idx c) + length d) (m_buf c),
      m_write_idx := m_write_idx c + of_nat (length d)\<rparr>)"
    using c(1) src of_d by (simp add: Append_def flip: d_def)
  then show ?thesis
    using content_written [OF c(2), of d] c(3,4,5) d by (auto simp: d_def)
qed

text \<open>
  Whenever an append returns at all, it did what it should: a length that does not fit ends in an
  exception or an out-of-bounds copy, also where \<open>m_write_idx + len\<close> wraps around.
\<close>

lemma EnsureWritableBytes_returns:
  assumes wf: "wf_buffer b" and small: "unat len \<le> max_size" and r: "EnsureWritableBytes len b = Inr b'"
  shows "wf_buffer b' \<and> content b' = content b
    \<and> unat (m_write_idx b') \<le> unat (m_write_idx b)
    \<and> unat len \<le> length (m_buf b') - unat (m_write_idx b')"
proof (cases "unat (m_write_idx b) + unat len \<le> max_size")
  case True
  from EnsureWritableBytes_ok [OF wf this] r show ?thesis by auto
next
  case False
  note bounds = wf_bounds [OF wf]
  have "\<not> len \<le> WritableBytes b"
    using False bounds by (simp add: word_le_nat_alt unat_WritableBytes [OF wf] max_size_def)
  moreover have "unat (m_write_idx b + len) = unat (m_write_idx b) + unat len"
    using small bounds by (simp add: size_simps max_size_def)
  then have "MakeSpace len b = Inl LengthError" if "\<not> len \<le> PrependableBytes b + WritableBytes b"
    using False that by (simp add: MakeSpace_def vector_resize_def)
  ultimately have "len \<le> PrependableBytes b + WritableBytes b" and "MakeSpace len b = Inr b'"
    using r by (auto simp: EnsureWritableBytes_def result_simps)
  with MakeSpace_compacts [OF wf, of len] show ?thesis by auto
qed

lemma EnsureWritableBytes_size:
  assumes "wf_buffer b" and "EnsureWritableBytes len b = Inr b'"
  shows "length (m_buf b') \<le> max_size"
  using assms
  by (auto simp: EnsureWritableBytes_def MakeSpace_def vector_resize_def wf_buffer_def Let_def result_simps
      write_range_def read_range_def split: if_splits)

lemma Append_returns:
  assumes wf: "wf_buffer b" and r: "Append data len b = Inr b'"
  shows "wf_buffer b' \<and> content b' = content b @ take (unat len) data \<and> unat len \<le> length data"
proof -
  from r obtain c v where c: "EnsureWritableBytes len b = Inr c" and src: "unat len \<le> length data"
    and v: "write_range (unat (m_write_idx c)) (take (unat len) data) (m_buf c) = Inr v"
    and b': "b' = c\<lparr>m_buf := v, m_write_idx := m_write_idx c + len\<rparr>"
    by (auto simp: Append_def result_simps read_range_def split: if_splits)
  from v have fits: "unat (m_write_idx c) + unat len \<le> length (m_buf c)"
    and v_eq: "v = take (unat (m_write_idx c)) (m_buf c) @ take (unat len) data
      @ drop (unat (m_write_idx c) + unat len) (m_buf c)"
    using src by (auto simp: write_range_def split: if_splits)
  then have "unat len \<le> max_size" using EnsureWritableBytes_size [OF wf c] by simp
  note e = EnsureWritableBytes_returns [OF wf this c]
  have "of_nat (length (take (unat len) data)) = len" using src by simp
  with content_written [of c "take (unat len) data"] e fits src show ?thesis
    by (simp add: b' v_eq)
qed

lemma Append_string_ok:
  assumes "wf_buffer b" and "unat (m_write_idx b) + length str \<le> max_size"
  shows "\<exists>b'. Append_string str b = Inr b' \<and> wf_buffer b' \<and> content b' = content b @ str
    \<and> unat (m_write_idx b') \<le> unat (m_write_idx b) + length str"
  using Append_ok [of b "of_nat (length str)" str] assms
  by (simp add: Append_string_def size_simps max_size_def)

lemma Prepend_ok:
  assumes wf: "wf_buffer b" and fits: "unat len \<le> unat (m_read_idx b)"
    and src: "unat len \<le> length data"
  shows "\<exists>b'. Prepend data len b = Inr b' \<and> wf_buffer b'
    \<and> content b' = take (unat len) data @ content b \<and> m_write_idx b' = m_write_idx b"
proof -
  note bounds = wf_bounds [OF wf]
  define i where "i = unat (m_read_idx b) - unat len"
  define d where "d = take (unat len) data"
  have i: "unat (m_read_idx b - len) = i" "i + length d = unat (m_read_idx b)"
    using fits src by (simp_all add: i_def d_def size_simps)
  define v where "v = take i (m_buf b) @ d @ drop (unat (m_read_idx b)) (m_buf b)"
  have "Prepend data len b = Inr (b\<lparr>m_buf := v, m_read_idx := m_read_idx b - len\<rparr>)" (is "_ = Inr ?b'")
    using fits src i bounds
    by (simp add: Prepend_def Let_def PrependableBytes_def word_le_nat_alt v_def flip: d_def)
  moreover have "length v = length (m_buf b)"
    using i bounds by (auto simp: v_def)
  then have "wf_buffer ?b'"
    using wf i bounds by (simp add: wf_buffer_def)
  moreover have "content ?b' = d @ content b"
  proof -
    have "unat (m_write_idx b) - i - length d = unat (m_write_idx b) - unat (m_read_idx b)"
      using i by simp
    moreover have "length d \<le> unat (m_write_idx b) - i"
      using i bounds by simp
    ultimately show ?thesis
      using i bounds by (simp add: content_def v_def)
  qed
  ultimately show ?thesis by (auto simp: d_def)
qed

lemma RetrieveUntil_ok:
  assumes "wf_buffer b" and "unat (m_read_idx b) \<le> unat end" and "unat end \<le> unat (m_write_idx b)"
  shows "\<exists>b'. RetrieveUntil end b = Inr b' \<and> wf_buffer b'
    \<and> content b' = drop (unat end - unat (m_read_idx b)) (content b)"
proof -
  have "unat (end - m_read_idx b) = unat end - unat (m_read_idx b)"
    using assms(2) by (simp add: size_simps)
  then show ?thesis
    using assms Retrieve_ok [OF assms(1), of "end - m_read_idx b"]
    by (simp add: RetrieveUntil_def Peek_def word_le_nat_alt length_content)
qed

subsection \<open>Searching\<close>

text \<open>The reference definition the \<open>memchr\<close> loop is compared with.\<close>

fun first_crlf :: "string \<Rightarrow> nat option" where
  "first_crlf (x # y # xs) =
     (if x = CHR 0x0D \<and> y = CHR 0x0A then Some 0 else map_option Suc (first_crlf (y # xs)))"
| "first_crlf _ = None"

lemma first_crlf_absent: "CHR 0x0D \<notin> set s \<Longrightarrow> first_crlf s = None"
  by (induction s rule: first_crlf.induct) auto

lemma first_crlf_skip:
  assumes "j < length s" and "s ! j = CHR 0x0D" and "\<forall>k < j. s ! k \<noteq> CHR 0x0D"
  shows "first_crlf s =
    (if j + 1 < length s \<and> s ! (j + 1) = CHR 0x0A then Some j
     else map_option ((+) (j + 1)) (first_crlf (drop (j + 1) s)))"
  using assms
proof (induction j arbitrary: s)
  case 0
  then show ?case
    by (cases s rule: first_crlf.cases) (auto simp: plus_1_eq_Suc [simplified])
next
  case (Suc j)
  then obtain x y xs where s: "s = x # y # xs"
    by (cases s rule: first_crlf.cases) auto
  have x: "x \<noteq> CHR 0x0D" using Suc.prems(3) by (auto simp: s)
  have "first_crlf (y # xs) =
    (if j + 1 < length (y # xs) \<and> (y # xs) ! (j + 1) = CHR 0x0A then Some j
     else map_option ((+) (j + 1)) (first_crlf (drop (j + 1) (y # xs))))"
    using Suc.prems by (intro Suc.IH) (auto simp: s)
  with x show ?case by (auto simp: s option.map_comp comp_def)
qed

lemma memchr_eq:
  "p + n \<le> length arr \<Longrightarrow> memchr arr p c n = Inr (char_index p c (take n (drop p arr)))"
  by (simp add: memchr_def)

lemma find_crlf_eq:
  "p \<le> end \<Longrightarrow> end \<le> length arr \<Longrightarrow>
   find_crlf arr p end = Inr (map_option ((+) p) (first_crlf (take (end - p) (drop p arr))))"
proof (induction arr p "end" rule: find_crlf.induct)
  case (1 arr p "end")
  define s where "s = take (end - p) (drop p arr)"
  have len: "length s = end - p" using "1.prems" by (simp add: s_def)
  have mem: "memchr arr p (CHR 0x0D) (end - p) = Inr (char_index p (CHR 0x0D) s)"
    using "1.prems" by (simp add: memchr_eq s_def)
  show ?case
  proof (cases "char_index p (CHR 0x0D) s")
    case None
    with mem show ?thesis
      by (simp add: find_crlf.simps [of arr p "end"] first_crlf_absent char_index_NoneD flip: s_def)
  next
    case (Some q)
    define j where "j = q - p"
    from char_index_SomeD [OF Some] len have q: "q = p + j" "j < length s" "s ! j = CHR 0x0D"
      "\<forall>k < j. s ! k \<noteq> CHR 0x0D" by (auto simp: j_def)
    note skip = first_crlf_skip [OF q(2-4)]
    have nxt: "q + 1 < end \<Longrightarrow> arr ! (q + 1) = s ! (j + 1)"
      using "1.prems" q(1) by (simp add: s_def)
    have rest: "take (end - (q + 1)) (drop (q + 1) arr) = drop (j + 1) s"
      using q(1) by (simp add: s_def drop_take algebra_simps)
    show ?thesis
    proof (cases "q + 1 < end \<and> arr ! (q + 1) = CHR 0x0A")
      case True
      with nxt have "first_crlf s = Some j"
        using skip len q(1) by auto
      with True mem Some q(1) show ?thesis
        by (simp add: find_crlf.simps [of arr p "end"] flip: s_def)
    next
      case False
      then have "first_crlf s = map_option ((+) (j + 1)) (first_crlf (drop (j + 1) s))"
        using skip nxt len q(1) by (auto split: if_splits)
      moreover have "find_crlf arr p end = find_crlf arr (q + 1) end"
        using False mem Some by (auto simp: find_crlf.simps [of arr p "end"])
      moreover have "find_crlf arr (q + 1) end
          = Inr (map_option ((+) (q + 1)) (first_crlf (drop (j + 1) s)))"
        using "1.prems" q(1,2) len
        by (subst rest [symmetric], intro "1.IH" [OF mem Some False]) simp_all
      ultimately show ?thesis
        using q(1) by (cases "first_crlf (drop (j + 1) s)") (simp_all flip: s_def)
    qed
  qed
qed

lemma Peek_plus_Readable: "wf_buffer b \<Longrightarrow> Peek b + ReadableBytes b = m_write_idx b"
  by (simp add: Peek_def ReadableBytes_def)

lemma FindCRLF_eq:
  assumes "wf_buffer b"
  shows "FindCRLF b = Inr (map_option ((+) (unat (m_read_idx b))) (first_crlf (content b)))"
  using assms find_crlf_eq [of "unat (m_read_idx b)" "unat (m_write_idx b)" "m_buf b"]
    wf_bounds [OF assms]
  by (simp add: FindCRLF_def FindCRLF_from_def Peek_plus_Readable content_def)
    (simp add: Peek_def word_less_nat_alt)

lemma FindEOL_eq:
  assumes "wf_buffer b"
  shows "FindEOL b = Inr (char_index (unat (m_read_idx b)) (CHR 0x0A) (content b))"
  using assms wf_bounds [OF assms]
  by (simp add: FindEOL_def FindEOL_from_def Peek_plus_Readable)
    (simp add: Peek_def size_simps memchr_eq content_def)

subsection \<open>Reading from and writing to descriptors\<close>

lemma ReadFromFd_fits:
  assumes wf: "wf_buffer b" and n: "length d \<le> unat (WritableBytes b)"
  shows "\<exists>b'. ReadFromFd (Inr d) b = Inr (of_nat (length d), None, b') \<and> wf_buffer b'
    \<and> content b' = content b @ d \<and> length (m_buf b') = length (m_buf b)"
proof -
  note bounds = wf_bounds [OF wf]
  have fits: "length d \<le> length (m_buf b) - unat (m_write_idx b)"
    using n by (simp add: unat_WritableBytes [OF wf])
  have le: "of_nat (length d) \<le> WritableBytes b"
    using n fits bounds by (simp add: word_le_nat_alt size_simps)
  define v where "v = take (unat (m_write_idx b)) (m_buf b) @ d
      @ drop (unat (m_write_idx b) + length d) (m_buf b)"
  have "ReadFromFd (Inr d) b
      = Inr (of_nat (length d), None,
             b\<lparr>m_buf := v, m_write_idx := m_write_idx b + of_nat (length d)\<rparr>)"
    using n fits bounds le by (simp add: ReadFromFd_def Let_def v_def)
  then show ?thesis
    using content_written [OF wf fits] fits bounds by (simp add: v_def)
qed

text \<open>A read that overflows the writable space, as an append of the overflow to the filled buffer.\<close>

lemma ReadFromFd_spill:
  assumes wf: "wf_buffer b" and n: "unat (WritableBytes b) < length d"
    and cap: "length d \<le> unat (WritableBytes b) + extrabuf_size"
  obtains c x k where "wf_buffer c" and "content c = content b @ take k d"
    and "unat (m_write_idx c) = length (m_buf b)"
    and "unat (of_nat (length d) - WritableBytes b :: size_t) = length d - k"
    and "take (length d - k) x = drop k d" and "length d - k \<le> length x" and "length d - k \<le> extrabuf_size"
    and "ReadFromFd (Inr d) b = rbind (Append x (of_nat (length d) - WritableBytes b) c)
      (\<lambda>b'. Inr (of_nat (length d), None, b'))"
proof -
  note bounds = wf_bounds [OF wf]
  define k where "k = unat (WritableBytes b)"
  have k: "k = length (m_buf b) - unat (m_write_idx b)"
    by (simp add: k_def unat_WritableBytes [OF wf])
  have small: "length d < 18446744073709551616"
    using cap k bounds by (simp add: extrabuf_size_def k_def)
  define c where "c = b\<lparr>m_buf := take (unat (m_write_idx b)) (m_buf b) @ take k d,
      m_write_idx := vector_size b\<rparr>"
  have lenk: "length (take k d) = k" using n by (simp add: k_def)
  have "vector_size b = m_write_idx b + of_nat k"
    by (simp add: k_def WritableBytes_def)
  with content_written [OF wf, of "take k d"] lenk k bounds
  have c: "wf_buffer c" "content c = content b @ take k d" "unat (m_write_idx c) = length (m_buf b)"
    by (simp_all add: c_def)
  define x where "x = drop k d @ replicate (extrabuf_size - length (drop k d)) (CHR 0x00)"
  have diff: "unat (of_nat (length d) - WritableBytes b :: size_t) = length d - k"
    using n small by (simp add: size_simps k_def)
  have "\<not> of_nat (length d) \<le> WritableBytes b"
    using n small by (simp add: word_le_nat_alt size_simps)
  then have "ReadFromFd (Inr d) b = rbind (Append x (of_nat (length d) - WritableBytes b) c)
      (\<lambda>b'. Inr (of_nat (length d), None, b'))"
    using k bounds lenk
    by (auto simp: ReadFromFd_def Let_def vector_size_def c_def x_def simp flip: k_def)
  moreover have "length d - k \<le> extrabuf_size" using cap by (simp add: k_def)
  moreover have "take (length d - k) x = drop k d" "length d - k \<le> length x" by (simp_all add: x_def)
  ultimately show thesis
    using that [OF c diff] by blast
qed

lemma ReadFromFd_spills:
  assumes wf: "wf_buffer b" and n: "unat (WritableBytes b) < length d"
    and cap: "length d \<le> unat (WritableBytes b) + extrabuf_size"
    and fits: "length (m_buf b) + extrabuf_size \<le> max_size"
  shows "\<exists>b'. ReadFromFd (Inr d) b = Inr (of_nat (length d), None, b') \<and> wf_buffer b'
    \<and> content b' = content b @ d"
proof -
  obtain c x k where s: "wf_buffer c" "content c = content b @ take k d"
    "unat (m_write_idx c) = length (m_buf b)"
    "unat (of_nat (length d) - WritableBytes b :: size_t) = length d - k"
    "take (length d - k) x = drop k d" "length d - k \<le> length x" "length d - k \<le> extrabuf_size"
    "ReadFromFd (Inr d) b = rbind (Append x (of_nat (length d) - WritableBytes b) c)
      (\<lambda>b'. Inr (of_nat (length d), None, b'))"
    by (rule ReadFromFd_spill [OF wf n cap])
  have "unat (m_write_idx c) + unat (of_nat (length d) - WritableBytes b :: size_t) \<le> max_size"
    using s(3,4,7) fits by simp
  from Append_ok [OF s(1) this, of x] s show ?thesis by auto
qed

lemma ReadFromFd_returns:
  assumes wf: "wf_buffer b" and cap: "length d \<le> readv_capacity b" and r: "ReadFromFd (Inr d) b = Inr (n, e, b')"
  shows "wf_buffer b' \<and> content b' = content b @ d \<and> n = of_nat (length d) \<and> e = None"
proof (cases "length d \<le> unat (WritableBytes b)")
  case True
  from ReadFromFd_fits [OF wf this] r show ?thesis by auto
next
  case False
  with cap have cap': "length d \<le> unat (WritableBytes b) + extrabuf_size"
    by (auto simp: readv_capacity_def Let_def split: if_splits)
  obtain c x k where s: "wf_buffer c" "content c = content b @ take k d"
    "unat (m_write_idx c) = length (m_buf b)"
    "unat (of_nat (length d) - WritableBytes b :: size_t) = length d - k"
    "take (length d - k) x = drop k d" "length d - k \<le> length x" "length d - k \<le> extrabuf_size"
    "ReadFromFd (Inr d) b = rbind (Append x (of_nat (length d) - WritableBytes b) c)
      (\<lambda>b'. Inr (of_nat (length d), None, b'))"
    by (rule ReadFromFd_spill [OF wf _ cap']) (use False in simp)
  from r have "rbind (Append x (of_nat (length d) - WritableBytes b) c)
      (\<lambda>b'. Inr (of_nat (length d), None, b')) = Inr (n, e, b')"
    unfolding s(8) .
  then obtain b1 where a: "Append x (of_nat (length d) - WritableBytes b) c = Inr b1"
    and res: "n = of_nat (length d)" "e = None" "b' = b1"
    unfolding rbind_eq_Inr_iff by blast
  from Append_returns [OF s(1) a] s(2,4,5) res show ?thesis by simp
qed

lemma ReadFromFd_delivers:
  assumes wf: "wf_buffer b" and cap: "length d \<le> readv_capacity b"
    and fits: "length (m_buf b) + extrabuf_size \<le> max_size"
  shows "\<exists>b'. ReadFromFd (Inr d) b = Inr (of_nat (length d), None, b') \<and> wf_buffer b'
    \<and> content b' = content b @ d"
proof (cases "length d \<le> unat (WritableBytes b)")
  case True
  from ReadFromFd_fits [OF wf this] show ?thesis by blast
next
  case False
  with cap have "length d \<le> unat (WritableBytes b) + extrabuf_size"
    by (auto simp: readv_capacity_def Let_def split: if_splits)
  with ReadFromFd_spills [OF wf _ _ fits] False show ?thesis by simp
qed

text \<open>
  The error return. The length handed to \<open>Append\<close> is \<open>SIZE_MAX - writable\<close>; \<open>m_write_idx + len\<close>
  wraps to the old write index minus one, so the vector shrinks (or, at index 0, \<open>resize\<close>
  throws), the assert of \<open>EnsureWritableBytes\<close> holds by wrap-around, and the copy runs far past
  the stack array.
\<close>

lemma ReadFromFd_fails:
  assumes wf: "wf_buffer b"
  shows "ReadFromFd (Inl err) b
    = Inl (if m_write_idx b = 0 then LengthError else UndefinedBehaviour)"
proof -
  note bounds = wf_bounds [OF wf]
  define k where "k = WritableBytes b"
  define c where "c = b\<lparr>m_write_idx := vector_size b\<rparr>"
  have k: "unat k = length (m_buf b) - unat (m_write_idx b)"
    by (simp add: k_def unat_WritableBytes [OF wf])
  have len: "unat (- 1 - k) = 18446744073709551615 - unat k"
    using k bounds by (simp add: size_simps unat_minus_one_size_t)
  have w: "WritableBytes c = 0" "PrependableBytes c = m_read_idx b" "m_write_idx c = vector_size b"
    "m_buf c = m_buf b"
    by (simp_all add: c_def WritableBytes_def vector_size_def PrependableBytes_def)
  have grow: "\<not> - 1 - k \<le> PrependableBytes c + WritableBytes c" "\<not> - 1 - k \<le> WritableBytes c"
    "\<not> - 1 \<le> k"
    using k bounds by (auto simp: w word_le_nat_alt len unat_minus_one_size_t)
  have target: "m_write_idx c + (- 1 - k) = m_write_idx b - 1"
    by (simp add: w k_def WritableBytes_def)
  show ?thesis
  proof (cases "m_write_idx b = 0")
    case True
    then have "MakeSpace (- 1 - k) c = Inl LengthError"
      using grow by (simp add: MakeSpace_def vector_resize_def target max_size_def unat_minus_one_size_t)
    then show ?thesis
      using True grow bounds
      by (simp add: ReadFromFd_def Let_def Append_def EnsureWritableBytes_def vector_size_def
          flip: k_def) (simp add: c_def vector_size_def)
  next
    case False
    then have pos: "0 < unat (m_write_idx b)" by (simp add: unat_gt_0)
    then have t: "unat (m_write_idx b - 1) = unat (m_write_idx b) - 1"
      using False by (simp add: unat_minus_one)
    define v where "v = take (unat (m_write_idx b) - 1) (m_buf b)"
    have "MakeSpace (- 1 - k) c = Inr (c\<lparr>m_buf := v\<rparr>)"
      using grow t bounds pos
      by (simp add: MakeSpace_def vector_resize_def target w(4) v_def max_size_def)
    moreover have "- 1 - k \<le> WritableBytes (c\<lparr>m_buf := v\<rparr>)"
    proof -
      have "length v = unat (m_write_idx b) - 1" using bounds by (simp add: v_def)
      then have "of_nat (length v) = m_write_idx b - 1" using t by (metis of_nat_unat ucast_id)
      then have "WritableBytes (c\<lparr>m_buf := v\<rparr>) = - 1 - k"
        by (simp add: WritableBytes_def vector_size_def k_def c_def)
      then show ?thesis by simp
    qed
    moreover have "extrabuf_size < unat (- 1 - k)"
      using k bounds by (simp add: len extrabuf_size_def)
    ultimately show ?thesis
      using False grow bounds
      by (simp add: ReadFromFd_def Let_def Append_def EnsureWritableBytes_def vector_size_def
          flip: k_def) (simp add: c_def vector_size_def)
  qed
qed

lemma sint_pos_size_t:
  assumes "unat (k :: ssize_t) \<le> 9223372036854775807"
  shows "0 < sint k \<longleftrightarrow> 0 < unat k"
  by (simp only: sint_small_size_t [OF assms] of_nat_0_less_iff)

lemma WriteToFd_ok:
  assumes wf: "wf_buffer b" and ne: "content b \<noteq> []" and n: "unat k \<le> length (content b)"
  shows "\<exists>b'. WriteToFd (Inr k) b = Inr (k, None, b') \<and> wf_buffer b'
    \<and> content b' = drop (unat k) (content b)"
proof -
  have ne': "ReadableBytes b \<noteq> 0"
    using ne unat_ReadableBytes [OF wf] by auto
  have "unat k \<le> 9223372036854775807"
    using n wf_bounds [OF wf] by (simp add: length_content [OF wf])
  then have pos: "0 < sint k \<longleftrightarrow> 0 < unat k" by (rule sint_pos_size_t)
  show ?thesis
  proof (cases "unat k = 0")
    case True
    with ne' pos wf show ?thesis by (simp add: WriteToFd_def)
  next
    case False
    with ne' pos Retrieve_ok [OF wf n] show ?thesis by (simp add: WriteToFd_def)
  qed
qed

lemma WriteToFd_fails:
  assumes wf: "wf_buffer b" and ne: "content b \<noteq> []"
  shows "WriteToFd (Inl err) b = Inr (- 1, Some err, b)"
  using ne unat_ReadableBytes [OF wf] by (auto simp: WriteToFd_def)

lemma WriteToFd_empty:
  assumes wf: "wf_buffer b" and e: "content b = []"
  shows "WriteToFd wv b = Inr (0, None, b)"
  using e ReadableBytes_eq [OF wf] by (simp add: WriteToFd_def)

subsection \<open>Network integers\<close>

lemma PeekInt32_ok:
  assumes wf: "wf_buffer b" and len: "4 \<le> length (content b)"
  shows "PeekInt32 e b = Inr (be_value (take 4 (content b)))"
  using read_content [OF assms] len by (simp add: PeekInt32_def Peek_def)

lemma AppendInt32_ok:
  assumes wf: "wf_buffer b" and fits: "unat (m_write_idx b) + 4 \<le> max_size"
  shows "\<exists>b'. AppendInt32 e x b = Inr b' \<and> wf_buffer b' \<and> content b' = content b @ be_bytes x
    \<and> unat (m_write_idx b') \<le> unat (m_write_idx b) + 4"
  using Append_ok [OF wf, of 4 "be_bytes x"] fits by (simp add: AppendInt32_def)

section \<open>The interface: a byte queue\<close>

text \<open>
  What the clients of a buffer rely on: bytes go in at the end and come out at the front.
  \<open>used\<close> bounds how far the storage index has advanced, \<open>cap\<close> what the storage can hold.
\<close>

datatype fifo_op = Put string | Get size_t

fun fifo_puts :: "fifo_op list \<Rightarrow> string" where
  "fifo_puts [] = []"
| "fifo_puts (Put d # ops) = d @ fifo_puts ops"
| "fifo_puts (Get n # ops) = fifo_puts ops"

fun fifo_run ::
  "(string \<Rightarrow> 'b \<Rightarrow> 'b result) \<Rightarrow> (size_t \<Rightarrow> 'b \<Rightarrow> (string \<times> 'b) result)
   \<Rightarrow> fifo_op list \<Rightarrow> 'b \<Rightarrow> (string \<times> 'b) result" where
  "fifo_run put get [] b = Inr ([], b)"
| "fifo_run put get (Put d # ops) b = rbind (put d b) (fifo_run put get ops)"
| "fifo_run put get (Get n # ops) b =
     rbind (get n b) (\<lambda>(s, b'). rbind (fifo_run put get ops b') (\<lambda>(out, b''). Inr (s @ out, b'')))"

locale byte_fifo =
  fixes inv :: "'b \<Rightarrow> bool"
    and bytes :: "'b \<Rightarrow> string"
    and used :: "'b \<Rightarrow> nat"
    and cap :: nat
    and put :: "string \<Rightarrow> 'b \<Rightarrow> 'b result"
    and get :: "size_t \<Rightarrow> 'b \<Rightarrow> (string \<times> 'b) result"
  assumes put_ok: "inv b \<Longrightarrow> used b + length d \<le> cap \<Longrightarrow>
      \<exists>b'. put d b = Inr b' \<and> inv b' \<and> bytes b' = bytes b @ d \<and> used b' \<le> used b + length d"
    and get_ok: "inv b \<Longrightarrow> unat n \<le> length (bytes b) \<Longrightarrow>
      \<exists>b'. get n b = Inr (take (unat n) (bytes b), b') \<and> inv b'
        \<and> bytes b' = drop (unat n) (bytes b) \<and> used b' = used b"
    and get_short: "inv b \<Longrightarrow> length (bytes b) < unat n \<Longrightarrow> get n b = Inl AssertionFailure"
begin

lemma run_order:
  assumes "inv b" and "used b + length (fifo_puts ops) \<le> cap"
  shows "case fifo_run put get ops b of
      Inr (out, b') \<Rightarrow> inv b' \<and> out @ bytes b' = bytes b @ fifo_puts ops
    | Inl e \<Rightarrow> e = AssertionFailure"
  using assms
proof (induction ops arbitrary: b rule: fifo_puts.induct)
  case 1
  then show ?case by simp
next
  case (2 d ops)
  then obtain b' where b': "put d b = Inr b'" "inv b'" "bytes b' = bytes b @ d"
    "used b' \<le> used b + length d"
    using put_ok [of b d] by auto
  with "2.prems" have "used b' + length (fifo_puts ops) \<le> cap" by simp
  from "2.IH" [OF b'(2) this] b' show ?case by (simp split: sum.splits prod.splits)
next
  case (3 n ops)
  show ?case
  proof (cases "unat n \<le> length (bytes b)")
    case True
    with "3.prems" obtain b' where b': "get n b = Inr (take (unat n) (bytes b), b')" "inv b'"
      "bytes b' = drop (unat n) (bytes b)" "used b' = used b"
      using get_ok [of b n] by auto
    have IH: "case fifo_run put get ops b' of
        Inr (out, b'') \<Rightarrow> inv b'' \<and> out @ bytes b'' = bytes b' @ fifo_puts ops
      | Inl e \<Rightarrow> e = AssertionFailure"
      using "3.prems" b' by (intro "3.IH") simp_all
    have "take (unat n) (bytes b) @ bytes b' = bytes b" by (simp add: b'(3))
    with IH b'(1) show ?thesis
      by (auto split: sum.splits prod.splits)
  next
    case False
    with "3.prems" get_short [of b n] show ?thesis by simp
  qed
qed

end

interpretation conn_buffer: byte_fifo wf_buffer content "\<lambda>b. unat (m_write_idx b)" max_size
  Append_string RetrieveAsString
proof (unfold_locales, goal_cases)
  case (1 b d)
  then show ?case by (rule Append_string_ok)
next
  case (2 b n)
  then show ?case using RetrieveAsString_ok [OF 2] Retrieve_ok [OF 2] by simp
next
  case (3 b n)
  then show ?case by (rule RetrieveAsString_too_much)
qed

section \<open>Properties\<close>



text \<open>C30 (scatter read). Whatever number of bytes \<open>readv\<close> delivers within the two buffers it was
  given, \<open>ReadFromFd\<close> returns that number, leaves \<open>errno\<close> unset and appends exactly those bytes
  to the readable content, whether they fit the vector or spill over into the stack array.\<close>

theorem ReadFromFd_appends:
  assumes "wf_buffer b" and "length d \<le> readv_capacity b"
    and "length (m_buf b) + extrabuf_size \<le> max_size"
  shows "\<exists>b'. ReadFromFd (Inr d) b = Inr (of_nat (length d), None, b') \<and> wf_buffer b'
    \<and> content b' = content b @ d"
  using assms by (rule ReadFromFd_delivers)

theorem ReadFromFd_appends_witness:
  "\<exists>b'. ReadFromFd (Inr ''spilled'') (Buffer 3) = Inr (7, None, b') \<and> wf_buffer b'
    \<and> content b' = ''spilled''"
  using ReadFromFd_appends [of "Buffer 3" "''spilled''"]
  by (simp add: wf_Buffer max_size_def extrabuf_size_def readv_capacity_def Let_def)
    (simp add: Buffer_def extrabuf_size_def max_size_def)

text \<open>C40 (a failed read destroys the buffer). When \<open>readv\<close> returns -1, which a non-blocking
  descriptor does whenever it has nothing to deliver, \<open>ReadFromFd\<close> does not return -1: it throws
  \<open>std::length_error\<close> if nothing was ever written to the buffer and otherwise shrinks the vector
  and copies out of bounds. The \<open>EAGAIN\<close> branch of its caller is never reached.\<close>

theorem ReadFromFd_error_never_returns:
  assumes "wf_buffer b"
  shows "ReadFromFd (Inl err) b
    = Inl (if m_write_idx b = 0 then LengthError else UndefinedBehaviour)"
  using assms by (rule ReadFromFd_fails)

theorem ReadFromFd_error_never_returns_witness:
  "ReadFromFd (Inl 11) (Buffer 1024) = Inl LengthError"
  using ReadFromFd_error_never_returns [of "Buffer 1024" 11]
  by (simp add: wf_Buffer max_size_def) (simp add: Buffer_def)

text \<open>C38 (line search). The \<open>memchr\<close> loop of \<open>FindCRLF\<close> terminates and returns the position of
  the first carriage return that is directly followed by a line feed in the readable bytes, or
  the null pointer if there is none.\<close>

theorem FindCRLF_is_first_crlf:
  assumes "wf_buffer b"
  shows "FindCRLF b = Inr (map_option ((+) (unat (m_read_idx b))) (first_crlf (content b)))"
  using assms by (rule FindCRLF_eq)

theorem FindCRLF_is_first_crlf_witness:
  "FindCRLF \<lparr>m_buf = [CHR ''x'', CHR 0x0D, CHR 0x0D, CHR 0x0A], m_read_idx = 1, m_write_idx = 4\<rparr>
     = Inr (Some 2)"
  using FindCRLF_is_first_crlf
    [of "\<lparr>m_buf = [CHR ''x'', CHR 0x0D, CHR 0x0D, CHR 0x0A], m_read_idx = 1, m_write_idx = 4\<rparr>"]
  by (simp add: wf_buffer_def max_size_def content_def)

end
