(* ===== verification/Net_Address.thy ===== *)
theory Net_Address
  imports Byte_Buffer
begin

text \<open>
  IPv4 addresses, \<open>src/address.cpp\<close>, with the conversions of \<open>src/socket_utils.cpp\<close> they use, and
  the decimal conversions of the standard library (\<open>std::to_string\<close>, \<open>std::atoi\<close>).

  \<open>inet_ntop\<close> is modelled (the dotted decimal notation is fully determined); \<open>inet_pton\<close> is an
  argument \<open>pton\<close>, which gives the four bytes it writes, or \<open>None\<close> when it returns no success. The
  words of a \<open>sockaddr_in\<close> are kept as the sources keep them, in network byte order.
\<close>

section \<open>Decimal numbers\<close>

definition digit_char :: "nat \<Rightarrow> char" where
  "digit_char d = char_of (48 + d)"

definition digit_value :: "char \<Rightarrow> nat" where
  "digit_value c = of_char c - 48"

definition is_digit :: "char \<Rightarrow> bool" where
  "is_digit c \<longleftrightarrow> 48 \<le> (of_char c :: nat) \<and> (of_char c :: nat) \<le> 57"

fun nat_to_string :: "nat \<Rightarrow> string" where
  "nat_to_string n = (if n < 10 then [digit_char n] else nat_to_string (n div 10) @ [digit_char (n mod 10)])"

declare nat_to_string.simps [simp del]

definition to_string :: "int \<Rightarrow> string" where
  "to_string i = (if i < 0 then CHR ''-'' # nat_to_string (nat (- i)) else nat_to_string (nat i))"

definition decimal_value :: "string \<Rightarrow> nat" where
  "decimal_value s = foldl (\<lambda>v c. 10 * v + digit_value c) 0 s"

definition is_space :: "char \<Rightarrow> bool" where
  "is_space c \<longleftrightarrow> (of_char c :: nat) \<in> {9, 10, 11, 12, 13, 32}"

text \<open>
  \<open>std::atoi\<close>: white space, an optional sign, then the longest run of digits, zero when there is
  none. A value that does not fit \<open>int\<close> is undefined behaviour.
\<close>

definition atoi :: "string \<Rightarrow> int result" where
  "atoi s =
     (let s = dropWhile is_space s;
          neg = (s \<noteq> [] \<and> hd s = CHR ''-'');
          s = (if s \<noteq> [] \<and> (hd s = CHR ''-'' \<or> hd s = CHR ''+'') then tl s else s);
          v = int (decimal_value (takeWhile is_digit s));
          v = (if neg then - v else v)
      in if - 2147483648 \<le> v \<and> v \<le> 2147483647 then Inr v else Inl UndefinedBehaviour)"

lemma of_char_digit: "d < 10 \<Longrightarrow> of_char (digit_char d) = 48 + d"
  by (simp add: digit_char_def)

lemma digit_char_simps [simp]: "d < 10 \<Longrightarrow> is_digit (digit_char d)" "d < 10 \<Longrightarrow> digit_value (digit_char d) = d"
  by (simp_all add: is_digit_def digit_value_def of_char_digit)

lemma nat_to_string_digits: "c \<in> set (nat_to_string n) \<Longrightarrow> is_digit c"
proof (induction n rule: nat_to_string.induct)
  case (1 n)
  then show ?case by (subst (asm) (2) nat_to_string.simps) (auto split: if_splits)
qed

lemma nat_to_string_not_Nil [simp]: "nat_to_string n \<noteq> []"
  by (subst nat_to_string.simps) simp

lemma decimal_value_snoc: "decimal_value (s @ [c]) = 10 * decimal_value s + digit_value c"
  by (simp add: decimal_value_def)

lemma decimal_value_to_string [simp]: "decimal_value (nat_to_string n) = n"
proof (induction n rule: nat_to_string.induct)
  case (1 n)
  show ?case
  proof (cases "n < 10")
    case True
    then have "nat_to_string n = [digit_char n]" by (subst nat_to_string.simps) simp
    with True show ?thesis by (simp add: decimal_value_def)
  next
    case False
    then have "nat_to_string n = nat_to_string (n div 10) @ [digit_char (n mod 10)]"
      by (subst nat_to_string.simps) simp
    with False 1 show ?thesis by (simp add: decimal_value_snoc)
  qed
qed

lemma nat_to_string_inject [simp]: "nat_to_string m = nat_to_string n \<longleftrightarrow> m = n"
  by (metis decimal_value_to_string)

lemma digit_not: "is_digit c \<Longrightarrow> c \<noteq> CHR ''.''" "is_digit c \<Longrightarrow> c \<noteq> CHR '':''"
  "is_digit c \<Longrightarrow> c \<noteq> CHR ''-''" "is_digit c \<Longrightarrow> c \<noteq> CHR ''+''" "is_digit c \<Longrightarrow> \<not> is_space c"
  by (auto simp: is_digit_def is_space_def)

lemma takeWhile_nat_to_string [simp]: "takeWhile is_digit (nat_to_string n) = nat_to_string n"
  using nat_to_string_digits by (simp add: takeWhile_eq_all_conv)

lemma hd_nat_to_string: "is_digit (hd (nat_to_string n))"
  by (rule nat_to_string_digits [of _ n]) simp

text \<open>Printing and reading back an \<open>int\<close> is the identity.\<close>

lemma atoi_nat_to_string:
  assumes "n \<le> 2147483647"
  shows "atoi (nat_to_string n) = Inr (int n)"
proof -
  have "dropWhile is_space (nat_to_string n) = nat_to_string n"
    using hd_nat_to_string [of n] digit_not(5) by (cases "nat_to_string n") auto
  then show ?thesis
    using assms digit_not(3,4) [OF hd_nat_to_string, of n] by (simp add: atoi_def Let_def)
qed

lemma atoi_to_string:
  assumes "- 2147483648 \<le> i" "i \<le> 2147483647"
  shows "atoi (to_string i) = Inr i"
proof (cases "i < 0")
  case True
  with assms show ?thesis by (simp add: atoi_def to_string_def is_space_def Let_def)
next
  case False
  then show ?thesis using atoi_nat_to_string [of "nat i"] assms by (simp add: to_string_def)
qed

text \<open>Splitting at a separator that does not occur before it.\<close>

lemma append_sep_inject:
  assumes "x \<notin> set a" "x \<notin> set a'"
  shows "a @ x # b = a' @ x # b' \<longleftrightarrow> a = a' \<and> b = b'"
proof
  assume eq: "a @ x # b = a' @ x # b'"
  have "takeWhile (\<lambda>c. c \<noteq> x) (a @ x # b) = a" using assms(1) by (induction a) auto
  moreover have "takeWhile (\<lambda>c. c \<noteq> x) (a' @ x # b') = a'" using assms(2) by (induction a') auto
  ultimately have "a = a'" using eq by simp
  with eq show "a = a' \<and> b = b'" by simp
qed simp


section \<open>Conversions\<close>

definition byte_swap16 :: "uint16 \<Rightarrow> uint16" where
  "byte_swap16 x = word_rotl 8 x"

definition HostToNetShort :: "endian \<Rightarrow> uint16 \<Rightarrow> uint16" where
  "HostToNetShort e host16 = (case e of BigEndian \<Rightarrow> host16 | LittleEndian \<Rightarrow> byte_swap16 host16)"

definition NetToHostShort :: "endian \<Rightarrow> uint16 \<Rightarrow> uint16" where
  "NetToHostShort e net16 = (case e of BigEndian \<Rightarrow> net16 | LittleEndian \<Rightarrow> byte_swap16 net16)"

text \<open>\<open>inet_ntop\<close> on the four bytes of an \<open>in_addr\<close>.\<close>

definition inet_ntop :: "string \<Rightarrow> string" where
  "inet_ntop bs = concat (map (\<lambda>b. nat_to_string (of_char b) @ ''.'') (butlast bs)) @ nat_to_string (of_char (last bs))"

definition IpV4StrToBin :: "(string \<Rightarrow> string option) \<Rightarrow> endian \<Rightarrow> string \<Rightarrow> uint32 \<Rightarrow> bool \<times> uint32" where
  "IpV4StrToBin pton e ip_str out_bin =
     (case pton ip_str of None \<Rightarrow> (False, out_bin) | Some bs \<Rightarrow> (True, object_value e bs))"

definition IpV4BinToStr :: "endian \<Rightarrow> uint32 \<Rightarrow> string" where
  "IpV4BinToStr e ip_bin = inet_ntop (object_bytes e ip_bin)"

section \<open>Address\<close>

record Address =
  sin_family :: int
  sin_port :: uint16
  sin_addr :: uint32
  m_len :: uint32

definition AF_INET :: int where
  "AF_INET = 2"

definition INADDR_ANY :: uint32 where
  "INADDR_ANY = 0"

text \<open>\<open>sizeof(sockaddr_in)\<close>.\<close>

definition sockaddr_size :: uint32 where
  "sockaddr_size = 16"

definition Address_default :: Address where
  "Address_default = \<lparr>sin_family = AF_INET, sin_port = 0, sin_addr = INADDR_ANY, m_len = sockaddr_size\<rparr>"

definition Address :: "(string \<Rightarrow> string option) \<Rightarrow> endian \<Rightarrow> string \<Rightarrow> uint16 \<Rightarrow> Address" where
  "Address pton e ip port =
     (let a = \<lparr>sin_family = AF_INET, sin_port = HostToNetShort e port, sin_addr = 0, m_len = sockaddr_size\<rparr> in
      if ip = [] then a\<lparr>sin_addr := INADDR_ANY\<rparr>
      else
        let (ok, bin) = IpV4StrToBin pton e ip (sin_addr a); a = a\<lparr>sin_addr := bin\<rparr> in
        if \<not> ok then a\<lparr>sin_addr := INADDR_ANY\<rparr> else a)"

definition GetSockLen :: "Address \<Rightarrow> uint32" where
  "GetSockLen a = m_len a"

definition SetSockLen :: "uint32 \<Rightarrow> Address \<Rightarrow> Address" where
  "SetSockLen len a = a\<lparr>m_len := len\<rparr>"

definition GetIp :: "endian \<Rightarrow> Address \<Rightarrow> string" where
  "GetIp e a = IpV4BinToStr e (sin_addr a)"

definition GetPort :: "endian \<Rightarrow> Address \<Rightarrow> uint16" where
  "GetPort e a = NetToHostShort e (sin_port a)"

definition Address_ToString :: "endian \<Rightarrow> Address \<Rightarrow> string" where
  "Address_ToString e a = GetIp e a @ '':'' @ nat_to_string (unat (GetPort e a))"

section \<open>Facts\<close>

lemma byte_swap16_swap [simp]: "byte_swap16 (byte_swap16 x) = x"
proof (rule bit_word_eqI)
  fix n assume "n < LENGTH(16)"
  then have "((n + 8) mod 16 + 8) mod 16 = n" by simp presburger
  with \<open>n < LENGTH(16)\<close> show "bit (byte_swap16 (byte_swap16 x)) n \<longleftrightarrow> bit x n"
    by (simp add: byte_swap16_def bit_word_rotl_iff)
qed

lemma NetToHostShort_HostToNetShort [simp]:
  "NetToHostShort e (HostToNetShort e x) = x" "HostToNetShort e (NetToHostShort e x) = x"
  by (cases e; simp add: NetToHostShort_def HostToNetShort_def)+

lemma length_octets [simp]: "length (be_bytes x) = 4"
  by (simp add: be_bytes_def)

lemma length_object_bytes [simp]: "length (object_bytes e x) = 4"
  by (simp add: object_bytes_def split: endian.split)

lemma object_bytes_value [simp]: "length bs = 4 \<Longrightarrow> object_bytes e (object_value e bs) = bs"
  by (simp add: object_bytes_def object_value_def be_bytes_be_value split: endian.split)

lemma object_value_bytes [simp]: "object_value e (object_bytes e x) = x"
  by (simp add: object_bytes_def object_value_def split: endian.split)

lemma inet_ntop_four:
  "inet_ntop [a, b, c, d] = nat_to_string (of_char a) @ CHR ''.'' # nat_to_string (of_char b) @
     CHR ''.'' # nat_to_string (of_char c) @ CHR ''.'' # nat_to_string (of_char d)"
  by (simp add: inet_ntop_def)

lemma list4: "length bs = 4 \<Longrightarrow> \<exists>a b c d. bs = [a, b, c, d]"
  by (auto simp: numeral_eq_Suc length_Suc_conv)

lemma digit_sep: "CHR ''.'' \<notin> set (nat_to_string n)" "CHR '':'' \<notin> set (nat_to_string n)"
  using nat_to_string_digits digit_not by blast+

lemma inet_ntop_inject:
  assumes "length bs = 4" "length bs' = 4"
  shows "inet_ntop bs = inet_ntop bs' \<longleftrightarrow> bs = bs'"
  using list4 [OF assms(1)] list4 [OF assms(2)]
  by (auto simp: inet_ntop_four append_sep_inject [OF digit_sep(1) digit_sep(1)])

lemma inet_ntop_no_colon:
  assumes "length bs = 4"
  shows "CHR '':'' \<notin> set (inet_ntop bs)"
  using list4 [OF assms] digit_sep(2) by (auto simp: inet_ntop_four)

lemma GetIp_inject: "GetIp e a = GetIp e b \<longleftrightarrow> sin_addr a = sin_addr b"
proof
  assume "GetIp e a = GetIp e b"
  then have "object_bytes e (sin_addr a) = object_bytes e (sin_addr b)"
    by (simp add: GetIp_def IpV4BinToStr_def inet_ntop_inject)
  then show "sin_addr a = sin_addr b" by (metis object_value_bytes)
qed (simp add: GetIp_def)

lemma GetPort_inject: "GetPort e a = GetPort e b \<longleftrightarrow> sin_port a = sin_port b"
  by (metis GetPort_def NetToHostShort_HostToNetShort(2))

section \<open>Properties\<close>

text \<open>C32 (roundtrip): an address built from a dotted decimal string and a port gives back the
  string and the port, on hosts of either byte order, if \<open>inet_pton\<close> reads what \<open>inet_ntop\<close>
  writes; and a string that \<open>inet_pton\<close> rejects, or an empty one, gives the wildcard address with
  the port kept.\<close>

theorem Address_roundtrip:
  assumes "length bs = 4" and "pton (inet_ntop bs) = Some bs" and "pton bad = None"
  shows "GetIp e (Address pton e (inet_ntop bs) port) = inet_ntop bs \<and>
    GetPort e (Address pton e ip port) = port \<and>
    GetIp e (Address pton e bad port) = ''0.0.0.0'' \<and>
    GetIp e (Address pton e [] port) = ''0.0.0.0''"
proof (intro conjI)
  have zero: "GetIp e a = ''0.0.0.0''" if "sin_addr a = 0" for a
  proof -
    have "object_bytes e 0 = [CHR 0x00, CHR 0x00, CHR 0x00, CHR 0x00]"
      by (cases e) (simp_all add: object_bytes_def be_bytes_def char_of_def)
    moreover have "inet_ntop [CHR 0x00, CHR 0x00, CHR 0x00, CHR 0x00] = ''0.0.0.0''" by code_simp
    ultimately show ?thesis using that by (simp add: GetIp_def IpV4BinToStr_def)
  qed
  have "inet_ntop bs \<noteq> []" using list4 [OF assms(1)] by (auto simp: inet_ntop_four)
  with assms(1,2) show "GetIp e (Address pton e (inet_ntop bs) port) = inet_ntop bs"
    by (simp add: Address_def IpV4StrToBin_def GetIp_def IpV4BinToStr_def)
  show "GetPort e (Address pton e ip port) = port"
    by (simp add: Address_def Let_def GetPort_def split: prod.split)
  show "GetIp e (Address pton e bad port) = ''0.0.0.0''"
    by (rule zero) (simp add: Address_def Let_def IpV4StrToBin_def assms(3) INADDR_ANY_def)
  show "GetIp e (Address pton e [] port) = ''0.0.0.0''"
    by (rule zero) (simp add: Address_def INADDR_ANY_def)
qed

definition pton_loopback :: "string \<Rightarrow> string option" where
  "pton_loopback s = (if s = ''127.0.0.1'' then Some [CHR 0x7F, CHR 0x00, CHR 0x00, CHR 0x01] else None)"

theorem Address_roundtrip_witness:
  "GetIp LittleEndian (Address pton_loopback LittleEndian ''127.0.0.1'' 9000) = ''127.0.0.1'' \<and>
   GetPort LittleEndian (Address pton_loopback LittleEndian ''localhost'' 9000) = 9000 \<and>
   GetIp LittleEndian (Address pton_loopback LittleEndian ''localhost'' 9000) = ''0.0.0.0''"
proof -
  have n: "inet_ntop [CHR 0x7F, CHR 0x00, CHR 0x00, CHR 0x01] = ''127.0.0.1''" by code_simp
  have "pton_loopback (inet_ntop [CHR 0x7F, CHR 0x00, CHR 0x00, CHR 0x01]) = Some [CHR 0x7F, CHR 0x00, CHR 0x00, CHR 0x01]"
    "pton_loopback ''localhost'' = None"
    unfolding n by (simp_all add: pton_loopback_def)
  from Address_roundtrip [OF _ this, of LittleEndian 9000 "''localhost''"] show ?thesis
    unfolding n by simp
qed

text \<open>The text of an address determines its IP address and its port.\<close>

theorem Address_ToString_inject:
  "Address_ToString e a = Address_ToString e b \<longleftrightarrow> sin_addr a = sin_addr b \<and> sin_port a = sin_port b"
proof -
  have no: "CHR '':'' \<notin> set (GetIp e x)" for x
    by (simp add: GetIp_def IpV4BinToStr_def inet_ntop_no_colon)
  have "Address_ToString e a = Address_ToString e b \<longleftrightarrow> GetIp e a = GetIp e b \<and> GetPort e a = GetPort e b"
    by (simp add: Address_ToString_def append_sep_inject [OF no no] word_unat_eq_iff)
  then show ?thesis by (simp add: GetIp_inject GetPort_inject)
qed

end
