(* ===== verification/Tcp_Connection.thy ===== *)
theory Tcp_Connection
  imports Event_Loop Net_Address
begin

text \<open>
  A TCP connection, \<open>src/tcpconnection.cpp\<close> (Linux branch): its state machine, buffers, counters,
  event handlers and the thread-safe interface. Connections live in a store of the program state,
  which extends the state of the event loops; they are never deallocated in the model.

  The kernel's answers are part of the state: \<open>inbox fd\<close> holds what the next calls of \<open>readv\<close> on
  the descriptor return, \<open>outbox fd\<close> how many bytes the next calls of \<open>write\<close> may take (both
  \<open>EAGAIN\<close> once exhausted), \<open>closes\<close> the descriptors closed, and \<open>wall_ms\<close> the system clock in milliseconds. \<open>notified\<close> lists the connections whose
  close callback was called, \<open>accepted c\<close> all bytes \<open>SendInLoop\<close> took for the connection, and
  \<open>sent c\<close> all bytes \<open>write\<close> took from it.

  Callbacks that users install are codes of a type \<open>'u\<close>; a record of type \<open>exec\<close> executes them.
\<close>

section \<open>State\<close>

type_synonym conn_id = nat

text \<open>The closures the sources pass to channels, loops and timers.\<close>

datatype 'u closure =
    WakeupRead loop_id
  | OnRead conn_id | OnWrite conn_id | OnClose conn_id | OnError conn_id
  | DoConnectEstablished conn_id | DoConnectDestroyed conn_id
  | DoShutdown conn_id | DoForceClose conn_id | DoSend conn_id string
  | OnAccept | DoStopAcceptor
  | DoRemoveConnection conn_id
  | DoStopGracefully int "'u option" | DoScanIdle | DoShutdownCheck | DoShutdownDeadline | DoExportMetrics
  | OnConnectDone chan_id | DoReconnect
  | User 'u

datatype ConnectionState = Connecting | Connected | Disconnecting | Disconnected

record 'u conn =
  m_loop :: loop_id
  m_name :: string
  m_socket :: SocketType
  m_peer_addr :: Address
  m_channel :: chan_id
  m_context :: "'u option"
  m_last_active_ms :: int
  m_state :: ConnectionState
  m_input_buffer :: buffer
  m_output_buffer :: buffer
  m_pending_write_bytes :: size_t
  m_total_bytes_read :: uint64
  m_total_bytes_written :: uint64
  m_connection_callback :: "'u option"
  m_message_callback :: "'u option"
  m_write_complete_callback :: "'u option"
  m_conn_close_callback :: "'u option"
  m_high_water_mark :: size_t
  m_high_water_mark_callback :: "'u option"

record 'u net = "'u closure world" +
  conns :: "conn_id \<Rightarrow> 'u conn"
  inbox :: "SocketType \<Rightarrow> (errno + string) list"
  outbox :: "SocketType \<Rightarrow> (errno + nat) list"
  sent :: "conn_id \<Rightarrow> string"
  closes :: "SocketType list"
  wall_ms :: int
  notified :: "conn_id list"
  accepted :: "conn_id \<Rightarrow> string"

record ('u, 'w) exec =
  on_connection :: "'u \<Rightarrow> conn_id \<Rightarrow> 'w \<Rightarrow> 'w result"
  on_message :: "'u \<Rightarrow> conn_id \<Rightarrow> 'w \<Rightarrow> 'w result"
  on_write_complete :: "'u \<Rightarrow> conn_id \<Rightarrow> 'w \<Rightarrow> 'w result"
  on_close :: "'u \<Rightarrow> conn_id \<Rightarrow> 'w \<Rightarrow> 'w result"
  on_high_water :: "'u \<Rightarrow> conn_id \<Rightarrow> size_t \<Rightarrow> 'w \<Rightarrow> 'w result"

definition INVALID_SOCKET_VALUE :: SocketType where
  "INVALID_SOCKET_VALUE = - 1"

definition EAGAIN :: errno where
  "EAGAIN = 11"

definition upd_conn :: "conn_id \<Rightarrow> ('u conn \<Rightarrow> 'u conn) \<Rightarrow> ('u, 'z) net_scheme \<Rightarrow> ('u, 'z) net_scheme" where
  "upd_conn c f w = w\<lparr>conns := (conns w)(c := f (conns w c))\<rparr>"

text \<open>Calling a \<open>std::function\<close> if it is set.\<close>

definition invoke :: "('u \<Rightarrow> conn_id \<Rightarrow> 'w \<Rightarrow> 'w result) \<Rightarrow> 'u option \<Rightarrow> conn_id \<Rightarrow> 'w \<Rightarrow> 'w result" where
  "invoke f cb c w = (case cb of None \<Rightarrow> Inr w | Some u \<Rightarrow> f u c w)"

section \<open>The kernel\<close>

text \<open>\<open>readv\<close> with the capacity the buffer offers, \<open>write\<close>, and \<open>Socket::Close\<close>.\<close>

definition sys_readv :: "SocketType \<Rightarrow> nat \<Rightarrow> ('u, 'z) net_scheme \<Rightarrow> (errno + string) \<times> ('u, 'z) net_scheme" where
  "sys_readv fd cap w =
     (case inbox w fd of
        [] \<Rightarrow> (Inl EAGAIN, w)
      | Inl e # rest \<Rightarrow> (Inl e, w\<lparr>inbox := (inbox w)(fd := rest)\<rparr>)
      | Inr d # rest \<Rightarrow>
          (Inr (take cap d),
           w\<lparr>inbox := (inbox w)(fd := (if length d \<le> cap then rest else Inr (drop cap d) # rest))\<rparr>))"

definition sys_write :: "conn_id \<Rightarrow> SocketType \<Rightarrow> string \<Rightarrow> ('u, 'z) net_scheme \<Rightarrow> (errno + size_t) \<times> ('u, 'z) net_scheme" where
  "sys_write c fd data w =
     (case outbox w fd of
        [] \<Rightarrow> (Inl EAGAIN, w)
      | Inl e # rest \<Rightarrow> (Inl e, w\<lparr>outbox := (outbox w)(fd := rest)\<rparr>)
      | Inr k # rest \<Rightarrow>
          (Inr (of_nat (min k (length data))),
           w\<lparr>outbox := (outbox w)(fd := rest), sent := (sent w)(c := sent w c @ take k data)\<rparr>))"

definition Socket_Close :: "conn_id \<Rightarrow> ('u, 'z) net_scheme \<Rightarrow> ('u, 'z) net_scheme" where
  "Socket_Close c w =
     (let fd = m_socket (conns w c) in
      if fd = INVALID_SOCKET_VALUE then w
      else upd_conn c (\<lambda>cn. cn\<lparr>m_socket := INVALID_SOCKET_VALUE\<rparr>) (w\<lparr>closes := closes w @ [fd]\<rparr>))"

section \<open>Operations\<close>

definition GetFd :: "conn_id \<Rightarrow> ('u, 'z) net_scheme \<Rightarrow> SocketType" where
  "GetFd c w = m_socket (conns w c)"

definition IsConnected :: "conn_id \<Rightarrow> ('u, 'z) net_scheme \<Rightarrow> bool" where
  "IsConnected c w \<longleftrightarrow> m_state (conns w c) = Connected"

definition IsNormalWouldBlock :: "errno \<Rightarrow> bool" where
  "IsNormalWouldBlock err \<longleftrightarrow> err = EAGAIN"

definition RefreshActiveTime :: "conn_id \<Rightarrow> ('u, 'z) net_scheme \<Rightarrow> ('u, 'z) net_scheme" where
  "RefreshActiveTime c w = upd_conn c (\<lambda>cn. cn\<lparr>m_last_active_ms := wall_ms w\<rparr>) w"

definition TcpConnection ::
  "conn_id \<Rightarrow> loop_id \<Rightarrow> string \<Rightarrow> SocketType \<Rightarrow> Address \<Rightarrow> chan_id \<Rightarrow>
   ('u, 'z) net_scheme \<Rightarrow> ('u, 'z) net_scheme" where
  "TcpConnection c loop name sock peer_addr ch w =
     (let w = upd_conn c (\<lambda>_. \<lparr>m_loop = loop, m_name = name, m_socket = sock, m_peer_addr = peer_addr,
                m_channel = ch, m_context = None, m_last_active_ms = 0, m_state = Connecting, m_input_buffer = Buffer kInitialSize,
                m_output_buffer = Buffer kInitialSize, m_pending_write_bytes = 0, m_total_bytes_read = 0,
                m_total_bytes_written = 0, m_connection_callback = None, m_message_callback = None,
                m_write_complete_callback = None, m_conn_close_callback = None,
                m_high_water_mark = 1024 * 1024, m_high_water_mark_callback = None\<rparr>) w;
          w = upd_channel ch (\<lambda>_. SetErrorCallback (OnError c) (SetCloseCallback (OnClose c)
                (SetWriteCallback (OnWrite c) (SetReadCallback (OnRead c) (Channel loop sock))))) w;
          w = w\<lparr>sent := (sent w)(c := []), accepted := (accepted w)(c := [])\<rparr>
      in RefreshActiveTime c w)"

definition ConnectEstablished ::
  "('u, ('u, 'z) net_scheme) exec \<Rightarrow> conn_id \<Rightarrow> ('u, 'z) net_scheme \<Rightarrow> ('u, 'z) net_scheme result" where
  "ConnectEstablished E c w =
     rbind (AssertInLoopThread (m_loop (conns w c)) w) (\<lambda>_.
     rbind (cpp_assert (m_state (conns w c) = Connecting)) (\<lambda>_.
     let w = RefreshActiveTime c (upd_conn c (\<lambda>cn. cn\<lparr>m_state := Connected\<rparr>) w) in
     rbind (EnableReading (m_channel (conns w c)) w) (\<lambda>w.
     invoke (on_connection E) (m_connection_callback (conns w c)) c w)))"

text \<open>Both closing paths withdraw the channel: \<open>DisableAll\<close>, then removal if it is still added.\<close>

definition withdraw_channel :: "conn_id \<Rightarrow> ('u, 'z) net_scheme \<Rightarrow> ('u, 'z) net_scheme result" where
  "withdraw_channel c w =
     rbind (DisableAll (m_channel (conns w c)) w) (\<lambda>w.
     if m_added (channels w (m_channel (conns w c)))
     then RemoveChannel (m_loop (conns w c)) (m_channel (conns w c)) w
     else Inr w)"

definition ConnectDestroyed :: "conn_id \<Rightarrow> ('u, 'z) net_scheme \<Rightarrow> ('u, 'z) net_scheme result" where
  "ConnectDestroyed c w =
     rbind (AssertInLoopThread (m_loop (conns w c)) w) (\<lambda>_.
     if m_state (conns w c) = Connected \<or> m_state (conns w c) = Disconnecting then
       let w = upd_conn c (\<lambda>cn. cn\<lparr>m_state := Disconnected, m_pending_write_bytes := 0\<rparr>) w in
       rbind (withdraw_channel c w) (\<lambda>w. Inr (Socket_Close c w))
     else Inr w)"

definition notify_close ::
  "('u, ('u, 'z) net_scheme) exec \<Rightarrow> conn_id \<Rightarrow> ('u, 'z) net_scheme \<Rightarrow> ('u, 'z) net_scheme result" where
  "notify_close E c w =
     (case m_conn_close_callback (conns w c) of
        None \<Rightarrow> Inr w
      | Some u \<Rightarrow> on_close E u c (w\<lparr>notified := notified w @ [c]\<rparr>))"

definition HandleClose ::
  "('u, ('u, 'z) net_scheme) exec \<Rightarrow> conn_id \<Rightarrow> ('u, 'z) net_scheme \<Rightarrow> ('u, 'z) net_scheme result" where
  "HandleClose E c w =
     rbind (AssertInLoopThread (m_loop (conns w c)) w) (\<lambda>_.
     if m_state (conns w c) = Disconnected then Inr w
     else
       let w = upd_conn c (\<lambda>cn. cn\<lparr>m_state := Disconnected, m_pending_write_bytes := 0\<rparr>) w in
       rbind (withdraw_channel c w) (\<lambda>w.
       rbind (notify_close E c w) (\<lambda>w.
       Inr (Socket_Close c w))))"

definition HandleError ::
  "('u, ('u, 'z) net_scheme) exec \<Rightarrow> conn_id \<Rightarrow> ('u, 'z) net_scheme \<Rightarrow> ('u, 'z) net_scheme result" where
  "HandleError E c w = HandleClose E c w"

definition HandleRead ::
  "('u, ('u, 'z) net_scheme) exec \<Rightarrow> conn_id \<Rightarrow> ('u, 'z) net_scheme \<Rightarrow> ('u, 'z) net_scheme result" where
  "HandleRead E c w =
     rbind (AssertInLoopThread (m_loop (conns w c)) w) (\<lambda>_.
     let (rv, w) = sys_readv (GetFd c w) (readv_capacity (m_input_buffer (conns w c))) w in
     rbind (ReadFromFd rv (m_input_buffer (conns w c))) (\<lambda>(n, saved, b).
     let err = (case saved of None \<Rightarrow> 0 | Some e \<Rightarrow> e);
         w = upd_conn c (\<lambda>cn. cn\<lparr>m_input_buffer := b\<rparr>) w in
     if 0 < sint n then
       let w = RefreshActiveTime c (upd_conn c (\<lambda>cn. cn\<lparr>m_total_bytes_read := m_total_bytes_read cn + n\<rparr>) w)
       in invoke (on_message E) (m_message_callback (conns w c)) c w
     else if n = 0 then HandleClose E c w
     else if \<not> IsNormalWouldBlock err then HandleClose E c w
     else Inr w))"

definition HandleWrite ::
  "('u, ('u, 'z) net_scheme) exec \<Rightarrow> conn_id \<Rightarrow> ('u, 'z) net_scheme \<Rightarrow> ('u, 'z) net_scheme result" where
  "HandleWrite E c w =
     rbind (AssertInLoopThread (m_loop (conns w c)) w) (\<lambda>_.
     if \<not> IsConnected c w then Inr w
     else
       let out = m_output_buffer (conns w c);
           (wv, w) = (if ReadableBytes out = 0 then (Inr 0, w) else sys_write c (GetFd c w) (content out) w) in
       rbind (WriteToFd wv out) (\<lambda>(n, saved, b).
       let err = (case saved of None \<Rightarrow> 0 | Some e \<Rightarrow> e);
           w = upd_conn c (\<lambda>cn. cn\<lparr>m_output_buffer := b\<rparr>) w in
       if 0 < sint n then
         let w = RefreshActiveTime c (upd_conn c (\<lambda>cn. cn\<lparr>
               m_total_bytes_written := m_total_bytes_written cn + n,
               m_pending_write_bytes := ReadableBytes (m_output_buffer cn)\<rparr>) w) in
         if ReadableBytes (m_output_buffer (conns w c)) = 0 then
           rbind (DisableWriting (m_channel (conns w c)) w) (\<lambda>w.
           if m_state (conns w c) = Disconnecting then HandleClose E c w
           else
             rbind (invoke (on_write_complete E) (m_write_complete_callback (conns w c)) c w) (\<lambda>w.
             if err \<noteq> 0 \<and> \<not> IsNormalWouldBlock err then HandleClose E c w else Inr w))
         else if err \<noteq> 0 \<and> \<not> IsNormalWouldBlock err then HandleClose E c w
         else Inr w
       else if \<not> IsNormalWouldBlock err then HandleClose E c w
       else Inr w))"

definition ShutdownInLoop ::
  "('u, ('u, 'z) net_scheme) exec \<Rightarrow> conn_id \<Rightarrow> ('u, 'z) net_scheme \<Rightarrow> ('u, 'z) net_scheme result" where
  "ShutdownInLoop E c w =
     rbind (AssertInLoopThread (m_loop (conns w c)) w) (\<lambda>_.
     if 0 < ReadableBytes (m_output_buffer (conns w c)) then
       (if \<not> IsWriting Linux (channels w (m_channel (conns w c)))
        then EnableWriting (m_channel (conns w c)) w
        else Inr w)
     else HandleClose E c w)"

definition Shutdown ::
  "('u, ('u, 'z) net_scheme) exec \<Rightarrow> conn_id \<Rightarrow> ('u, 'z) net_scheme \<Rightarrow> ('u, 'z) net_scheme result" where
  "Shutdown E c w =
     (if m_state (conns w c) = Connected then
        let w = upd_conn c (\<lambda>cn. cn\<lparr>m_state := Disconnecting\<rparr>) w
        in RunInLoop (\<lambda>_. ShutdownInLoop E c) (m_loop (conns w c)) (DoShutdown c) w
      else Inr w)"

definition ForceCloseInLoop ::
  "('u, ('u, 'z) net_scheme) exec \<Rightarrow> conn_id \<Rightarrow> ('u, 'z) net_scheme \<Rightarrow> ('u, 'z) net_scheme result" where
  "ForceCloseInLoop E c w =
     rbind (AssertInLoopThread (m_loop (conns w c)) w) (\<lambda>_.
     if m_state (conns w c) = Connected \<or> m_state (conns w c) = Disconnecting then
       let w = upd_conn c (\<lambda>cn. cn\<lparr>m_state := Disconnected, m_pending_write_bytes := 0\<rparr>) w in
       rbind (DisableAll (m_channel (conns w c)) w) (\<lambda>w.
       notify_close E c (Socket_Close c w))
     else Inr w)"

definition ForceClose ::
  "('u, ('u, 'z) net_scheme) exec \<Rightarrow> conn_id \<Rightarrow> ('u, 'z) net_scheme \<Rightarrow> ('u, 'z) net_scheme result" where
  "ForceClose E c w =
     (if m_state (conns w c) = Connected \<or> m_state (conns w c) = Disconnecting then
        let w = upd_conn c (\<lambda>cn. cn\<lparr>m_state := Disconnecting\<rparr>) w
        in RunInLoop (\<lambda>_. ForceCloseInLoop E c) (m_loop (conns w c)) (DoForceClose c) w
      else Inr w)"

definition SendInLoop ::
  "('u, ('u, 'z) net_scheme) exec \<Rightarrow> conn_id \<Rightarrow> string \<Rightarrow> size_t \<Rightarrow>
   ('u, 'z) net_scheme \<Rightarrow> ('u, 'z) net_scheme result" where
  "SendInLoop E c data len w =
     rbind (AssertInLoopThread (m_loop (conns w c)) w) (\<lambda>_.
     if \<not> IsConnected c w then Inr w
     else
       let old_pending = ReadableBytes (m_output_buffer (conns w c)) in
       rbind (Append data len (m_output_buffer (conns w c))) (\<lambda>b.
       let new_pending = ReadableBytes b;
           w = upd_conn c (\<lambda>cn. cn\<lparr>m_output_buffer := b, m_pending_write_bytes := new_pending\<rparr>)
                 (w\<lparr>accepted := (accepted w)(c := accepted w c @ take (unat len) data)\<rparr>) in
       rbind (if old_pending < m_high_water_mark (conns w c) \<and> m_high_water_mark (conns w c) \<le> new_pending
              then invoke (\<lambda>u c. on_high_water E u c new_pending) (m_high_water_mark_callback (conns w c)) c w
              else Inr w) (\<lambda>w.
       if \<not> IsWriting Linux (channels w (m_channel (conns w c)))
       then EnableWriting (m_channel (conns w c)) w
       else Inr w)))"

definition Send ::
  "('u, ('u, 'z) net_scheme) exec \<Rightarrow> conn_id \<Rightarrow> string \<Rightarrow> ('u, 'z) net_scheme \<Rightarrow> ('u, 'z) net_scheme result" where
  "Send E c message w =
     (if \<not> IsConnected c w then Inr w
      else if IsInLoopThread (m_loop (conns w c)) w then SendInLoop E c message (of_nat (length message)) w
      else Inr (QueueInLoop (m_loop (conns w c)) (DoSend c message) w))"

text \<open>The overload for raw bytes copies them before it queues.\<close>

definition Send_bytes ::
  "('u, ('u, 'z) net_scheme) exec \<Rightarrow> conn_id \<Rightarrow> string \<Rightarrow> size_t \<Rightarrow>
   ('u, 'z) net_scheme \<Rightarrow> ('u, 'z) net_scheme result" where
  "Send_bytes E c data len w =
     (if \<not> IsConnected c w then Inr w
      else if IsInLoopThread (m_loop (conns w c)) w then SendInLoop E c data len w
      else
        rbind (read_range 0 (unat len) data) (\<lambda>copied.
        Inr (QueueInLoop (m_loop (conns w c)) (DoSend c copied) w)))"

text \<open>What the owner of a connection installs and reads.\<close>

definition SetConnectionCallback_conn :: "conn_id \<Rightarrow> 'u option \<Rightarrow> ('u, 'z) net_scheme \<Rightarrow> ('u, 'z) net_scheme" where
  "SetConnectionCallback_conn c cb = upd_conn c (\<lambda>cn. cn\<lparr>m_connection_callback := cb\<rparr>)"

definition SetMessageCallback_conn :: "conn_id \<Rightarrow> 'u option \<Rightarrow> ('u, 'z) net_scheme \<Rightarrow> ('u, 'z) net_scheme" where
  "SetMessageCallback_conn c cb = upd_conn c (\<lambda>cn. cn\<lparr>m_message_callback := cb\<rparr>)"

definition SetWriteCompleteCallback_conn :: "conn_id \<Rightarrow> 'u option \<Rightarrow> ('u, 'z) net_scheme \<Rightarrow> ('u, 'z) net_scheme" where
  "SetWriteCompleteCallback_conn c cb = upd_conn c (\<lambda>cn. cn\<lparr>m_write_complete_callback := cb\<rparr>)"

definition SetCloseCallback_conn :: "conn_id \<Rightarrow> 'u option \<Rightarrow> ('u, 'z) net_scheme \<Rightarrow> ('u, 'z) net_scheme" where
  "SetCloseCallback_conn c cb = upd_conn c (\<lambda>cn. cn\<lparr>m_conn_close_callback := cb\<rparr>)"

definition SetHighWaterMarkCallback_conn ::
  "conn_id \<Rightarrow> size_t \<Rightarrow> 'u option \<Rightarrow> ('u, 'z) net_scheme \<Rightarrow> ('u, 'z) net_scheme" where
  "SetHighWaterMarkCallback_conn c high_water_mark cb =
     upd_conn c (\<lambda>cn. cn\<lparr>m_high_water_mark := high_water_mark, m_high_water_mark_callback := cb\<rparr>)"

definition SetContext :: "conn_id \<Rightarrow> 'u option \<Rightarrow> ('u, 'z) net_scheme \<Rightarrow> ('u, 'z) net_scheme" where
  "SetContext c ctx = upd_conn c (\<lambda>cn. cn\<lparr>m_context := ctx\<rparr>)"

definition GetLastActiveMs :: "conn_id \<Rightarrow> ('u, 'z) net_scheme \<Rightarrow> int" where
  "GetLastActiveMs c w = m_last_active_ms (conns w c)"

definition GetPendingWriteBytes :: "conn_id \<Rightarrow> ('u, 'z) net_scheme \<Rightarrow> size_t" where
  "GetPendingWriteBytes c w = m_pending_write_bytes (conns w c)"

definition GetBytesReadTotal :: "conn_id \<Rightarrow> ('u, 'z) net_scheme \<Rightarrow> uint64" where
  "GetBytesReadTotal c w = m_total_bytes_read (conns w c)"

definition GetBytesWrittenTotal :: "conn_id \<Rightarrow> ('u, 'z) net_scheme \<Rightarrow> uint64" where
  "GetBytesWrittenTotal c w = m_total_bytes_written (conns w c)"

text \<open>
  The closures of a connection, as the loop runs them. Closures of other components are left to
  the argument \<open>other\<close>.
\<close>

definition run_conn ::
  "('u, ('u, 'z) net_scheme) exec \<Rightarrow> ('u closure \<Rightarrow> ('u, 'z) net_scheme \<Rightarrow> ('u, 'z) net_scheme result) \<Rightarrow>
   'u closure \<Rightarrow> ('u, 'z) net_scheme \<Rightarrow> ('u, 'z) net_scheme result" where
  "run_conn E other f w =
     (case f of
        WakeupRead l \<Rightarrow> Inr (HandleWakeupRead l w)
      | OnRead c \<Rightarrow> HandleRead E c w
      | OnWrite c \<Rightarrow> HandleWrite E c w
      | OnClose c \<Rightarrow> HandleClose E c w
      | OnError c \<Rightarrow> HandleError E c w
      | DoConnectEstablished c \<Rightarrow> ConnectEstablished E c w
      | DoConnectDestroyed c \<Rightarrow> ConnectDestroyed c w
      | DoShutdown c \<Rightarrow> ShutdownInLoop E c w
      | DoForceClose c \<Rightarrow> ForceCloseInLoop E c w
      | DoSend c data \<Rightarrow> SendInLoop E c data (of_nat (length data)) w
      | _ \<Rightarrow> other f w)"

section \<open>Order of the states\<close>

fun state_rank :: "ConnectionState \<Rightarrow> nat" where
  "state_rank Connecting = 0"
| "state_rank Connected = 1"
| "state_rank Disconnecting = 2"
| "state_rank Disconnected = 3"

lemma state_rank_inject: "state_rank x = state_rank y \<Longrightarrow> x = y"
  by (cases x; cases y) simp_all

instantiation ConnectionState :: linorder
begin

definition less_eq_ConnectionState :: "ConnectionState \<Rightarrow> ConnectionState \<Rightarrow> bool" where
  "less_eq_ConnectionState x y \<longleftrightarrow> state_rank x \<le> state_rank y"

definition less_ConnectionState :: "ConnectionState \<Rightarrow> ConnectionState \<Rightarrow> bool" where
  "less_ConnectionState x y \<longleftrightarrow> state_rank x < state_rank y"

instance
  by standard (auto simp: less_eq_ConnectionState_def less_ConnectionState_def intro: state_rank_inject)

end

lemma state_le_simps [simp]:
  "Connecting \<le> x" "x \<le> Disconnected" "Connected \<le> Disconnecting"
  "Disconnected \<le> x \<longleftrightarrow> x = Disconnected" "Disconnecting \<le> x \<longleftrightarrow> x = Disconnecting \<or> x = Disconnected"
  by (cases x; simp add: less_eq_ConnectionState_def)+

section \<open>Invariant of a connection\<close>

text \<open>
  \<open>sending\<close> is true while \<open>SendInLoop\<close> has appended data and not yet asked for write events.
\<close>

definition conn_ok :: "bool \<Rightarrow> conn_id \<Rightarrow> ('u, 'z) net_scheme \<Rightarrow> bool" where
  "conn_ok sending c w \<longleftrightarrow>
     wf_buffer (m_input_buffer (conns w c)) \<and> wf_buffer (m_output_buffer (conns w c)) \<and>
     m_pending_write_bytes (conns w c) =
       (if m_state (conns w c) = Disconnected then 0 else ReadableBytes (m_output_buffer (conns w c))) \<and>
     sent w c @ content (m_output_buffer (conns w c)) = accepted w c \<and>
     (m_state (conns w c) = Connecting \<longrightarrow> content (m_output_buffer (conns w c)) = []) \<and>
     legal_events Linux (m_events (channels w (m_channel (conns w c)))) \<and>
     (m_state (conns w c) = Connected \<longrightarrow> \<not> sending \<longrightarrow> content (m_output_buffer (conns w c)) \<noteq> [] \<longrightarrow>
        IsWriting Linux (channels w (m_channel (conns w c)))) \<and>
     (c \<in> set (notified w) \<longrightarrow> m_state (conns w c) = Disconnected) \<and> count_list (notified w) c \<le> 1"

definition net_ok :: "conn_id set \<Rightarrow> conn_id set \<Rightarrow> ('u, 'z) net_scheme \<Rightarrow> bool" where
  "net_ok X C w \<longleftrightarrow>
     inj_on (\<lambda>c. m_channel (conns w c)) C \<and> (\<forall>c \<in> C. conn_ok (c \<in> X) c w)"

definition chans :: "('u, 'z) net_scheme \<Rightarrow> conn_id \<Rightarrow> chan_id" where
  "chans w = (\<lambda>c. m_channel (conns w c))"

definition evolves :: "((conn_id \<Rightarrow> chan_id) \<Rightarrow> 'z \<Rightarrow> bool) \<Rightarrow> conn_id set \<Rightarrow> ('u, 'z) net_scheme \<Rightarrow> ('u, 'z) net_scheme \<Rightarrow> bool" where
  "evolves J C w w' \<longleftrightarrow> (J (chans w) (net.more w) \<longrightarrow>
     J (chans w') (net.more w') \<and> (\<forall>X. net_ok X C w \<longrightarrow> net_ok X C w') \<and>
     (\<forall>c \<in> C. m_state (conns w c) \<le> m_state (conns w' c) \<and> m_channel (conns w' c) = m_channel (conns w c)) \<and>
     set (notified w') \<subseteq> set (notified w) \<union> C)"

lemma evolves_refl [simp]: "evolves J C w w"
  by (simp add: evolves_def)

lemma evolves_trans:
  assumes "evolves J C u v" and "evolves J C v w"
  shows "evolves J C u w"
  unfolding evolves_def
proof (intro impI conjI ballI allI)
  assume "J (chans u) (net.more u)"
  with assms(1) have 1: "J (chans v) (net.more v)" "\<And>X. net_ok X C u \<Longrightarrow> net_ok X C v" "set (notified v) \<subseteq> set (notified u) \<union> C"
    "\<And>c. c \<in> C \<Longrightarrow> m_state (conns u c) \<le> m_state (conns v c) \<and> m_channel (conns v c) = m_channel (conns u c)"
    by (simp_all add: evolves_def)
  with assms(2) have 2: "J (chans w) (net.more w)" "\<And>X. net_ok X C v \<Longrightarrow> net_ok X C w" "set (notified w) \<subseteq> set (notified v) \<union> C"
    "\<And>c. c \<in> C \<Longrightarrow> m_state (conns v c) \<le> m_state (conns w c) \<and> m_channel (conns w c) = m_channel (conns v c)"
    by (simp_all add: evolves_def)
  show "J (chans w) (net.more w)" by (rule 2)
  show "net_ok X C w" if "net_ok X C u" for X using 1(2) 2(2) that by blast
  show "set (notified w) \<subseteq> set (notified u) \<union> C" using 1(3) 2(3) by blast
  show "m_state (conns u c) \<le> m_state (conns w c)" "m_channel (conns w c) = m_channel (conns u c)" if "c \<in> C" for c
    using 1(4) [OF that] 2(4) [OF that] by (blast intro: order_trans, simp)
qed

text \<open>A step that concerns one connection and its channel only.\<close>

definition touches :: "conn_id \<Rightarrow> ('u, 'z) net_scheme \<Rightarrow> ('u, 'z) net_scheme \<Rightarrow> bool" where
  "touches c w w' \<longleftrightarrow>
     (\<forall>d. d \<noteq> c \<longrightarrow> conns w' d = conns w d \<and> sent w' d = sent w d \<and> accepted w' d = accepted w d \<and>
        count_list (notified w') d = count_list (notified w) d) \<and>
     m_channel (conns w' c) = m_channel (conns w c) \<and>
     (\<forall>ch. ch \<noteq> m_channel (conns w c) \<longrightarrow> channels w' ch = channels w ch) \<and> net.more w' = net.more w"

lemma touches_refl [simp]: "touches c w w"
  by (simp add: touches_def)

lemma touches_trans: "touches c u v \<Longrightarrow> touches c v w \<Longrightarrow> touches c u w"
  by (simp add: touches_def)

lemma count_list_member: "x \<in> set xs \<longleftrightarrow> count_list xs x \<noteq> 0"
  by (induction xs) auto

lemma touches_net_ok:
  assumes t: "touches c w w'" and c: "c \<in> C" and ok: "net_ok X C w"
    and here: "conn_ok (c \<in> X) c w \<Longrightarrow> conn_ok (c \<in> X') c w'" and X: "X' - {c} = X - {c}"
  shows "net_ok X' C w'"
proof -
  have ch: "m_channel (conns w' d) = m_channel (conns w d)" for d
    using t by (cases "d = c") (auto simp: touches_def)
  have "conn_ok (d \<in> X') d w'" if d: "d \<in> C" for d
  proof (cases "d = c")
    case True
    with here ok c show ?thesis by (simp add: net_ok_def)
  next
    case False
    then have "m_channel (conns w d) \<noteq> m_channel (conns w c)"
      using ok c d by (auto simp: net_ok_def dest: inj_onD)
    moreover have "d \<in> X' \<longleftrightarrow> d \<in> X" using X False by blast
    moreover have "d \<in> set (notified w') \<longleftrightarrow> d \<in> set (notified w)"
      using t False by (simp add: touches_def count_list_member)
    moreover have "conn_ok (d \<in> X) d w" using ok d by (simp add: net_ok_def)
    ultimately show ?thesis
      using t False unfolding conn_ok_def touches_def by simp
  qed
  with ok show ?thesis unfolding net_ok_def ch by simp
qed

lemma touches_evolves:
  assumes "touches c w w'" and "c \<in> C" and "\<And>x. conn_ok x c w \<Longrightarrow> conn_ok x c w'"
    and "m_state (conns w c) \<le> m_state (conns w' c)"
  shows "evolves J C w w'"
proof -
  have "m_state (conns w d) \<le> m_state (conns w' d)" for d
    using assms(1,4) by (cases "d = c") (auto simp: touches_def)
  moreover have "m_channel (conns w' d) = m_channel (conns w d)" for d
    using assms(1) by (cases "d = c") (auto simp: touches_def)
  moreover from this have "chans w' = chans w" by (simp add: chans_def)
  moreover have "set (notified w') \<subseteq> set (notified w) \<union> C"
    using assms(1,2) by (auto simp: touches_def count_list_member)
  moreover have "net.more w' = net.more w" using assms(1) by (simp add: touches_def)
  ultimately show ?thesis
    unfolding evolves_def using touches_net_ok [OF assms(1,2) _ assms(3)] by simp
qed

text \<open>Steps that none of this depends on.\<close>

lemma evolves_frame:
  assumes "conns w' = conns w" "channels w' = channels w" "notified w' = notified w" "sent w' = sent w"
    "accepted w' = accepted w" "net.more w' = net.more w"
  shows "evolves J C w w'"
  using assms by (simp add: evolves_def net_ok_def conn_ok_def chans_def)

section \<open>Building blocks of the operations\<close>

lemma upd_conn_simps [simp]:
  "conns (upd_conn c f w) = (conns w)(c := f (conns w c))" "channels (upd_conn c f w) = channels w"
  "notified (upd_conn c f w) = notified w" "sent (upd_conn c f w) = sent w"
  "accepted (upd_conn c f w) = accepted w" "net.more (upd_conn c f w) = net.more w" "loops (upd_conn c f w) = loops w"
  "this_thread (upd_conn c f w) = this_thread w" "inbox (upd_conn c f w) = inbox w"
  "outbox (upd_conn c f w) = outbox w" "closes (upd_conn c f w) = closes w" "wall_ms (upd_conn c f w) = wall_ms w"
  by (simp_all add: upd_conn_def)

lemma net_upd_simps [simp]:
  "conns (upd_channel ch g w) = conns w" "sent (upd_channel ch g w) = sent w"
  "accepted (upd_channel ch g w) = accepted w" "notified (upd_channel ch g w) = notified w"
  "inbox (upd_channel ch g w) = inbox w" "outbox (upd_channel ch g w) = outbox w"
  "closes (upd_channel ch g w) = closes w" "wall_ms (upd_channel ch g w) = wall_ms w"
  "conns (upd_loop l h w) = conns w" "sent (upd_loop l h w) = sent w"
  "accepted (upd_loop l h w) = accepted w" "notified (upd_loop l h w) = notified w"
  "inbox (upd_loop l h w) = inbox w" "outbox (upd_loop l h w) = outbox w"
  "closes (upd_loop l h w) = closes w" "wall_ms (upd_loop l h w) = wall_ms w"
  "net.more (upd_channel ch g w) = net.more w" "net.more (upd_loop l h w) = net.more w"
  by (simp_all add: upd_channel_def upd_loop_def)

lemma touches_upd_conn: "m_channel (f (conns w c)) = m_channel (conns w c) \<Longrightarrow> touches c w (upd_conn c f w)"
  by (simp add: touches_def)

lemma maskedD:
  fixes w :: "('u, 'z) net_scheme"
  assumes "masked ch f w w'"
  shows "conns w' = conns w" "notified w' = notified w" "sent w' = sent w" "accepted w' = accepted w"
    "this_thread w' = this_thread w" "inbox w' = inbox w" "outbox w' = outbox w" "closes w' = closes w"
    "wall_ms w' = wall_ms w"
    "\<And>d. d \<noteq> ch \<Longrightarrow> channels w' d = channels w d" "\<exists>b. channels w' ch = SetAdded b (f (channels w ch))"
    "m_threadId (loops w' l) = m_threadId (loops w l)"
    "m_pendingFunctors (loops w' l) = m_pendingFunctors (loops w l)"
    "m_callingPendingFunctors (loops w' l) = m_callingPendingFunctors (loops w l)"
    "get_timers l w' = get_timers l w" "net.more w' = net.more w"
proof -
  from assms obtain ls cs b where w': "w' = w\<lparr>loops := ls, channels := cs\<rparr>"
    and cs: "\<forall>d. d \<noteq> ch \<longrightarrow> cs d = channels w d" "cs ch = SetAdded b (f (channels w ch))"
    and ls: "\<forall>k. \<exists>p. ls k = (loops w k)\<lparr>m_poller := p\<rparr>" unfolding masked_def by blast
  from ls obtain p where "ls l = (loops w l)\<lparr>m_poller := p\<rparr>" by blast
  then show "m_threadId (loops w' l) = m_threadId (loops w l)"
    "m_pendingFunctors (loops w' l) = m_pendingFunctors (loops w l)"
    "m_callingPendingFunctors (loops w' l) = m_callingPendingFunctors (loops w l)"
    "get_timers l w' = get_timers l w"
    by (simp_all add: w' get_timers_def)
qed (use assms in \<open>auto simp: masked_def\<close>)

lemma touches_masked:
  assumes "masked (m_channel (conns w c)) f w w'"
  shows "touches c w w'"
  using maskedD [OF assms] by (simp add: touches_def)

lemma IsWriting_SetAdded [simp]: "IsWriting pf (SetAdded b ch) = IsWriting pf ch"
  by (simp add: IsWriting_def)

lemma conn_ok_masked:
  assumes m: "masked (m_channel (conns w c)) f w w'" and ok: "conn_ok x c w"
    and legal: "\<And>ch. legal_events Linux (m_events ch) \<Longrightarrow> legal_events Linux (m_events (f ch))"
    and writing: "m_state (conns w c) = Connected \<Longrightarrow> \<not> x' \<Longrightarrow> content (m_output_buffer (conns w c)) \<noteq> [] \<Longrightarrow>
      IsWriting Linux (f (channels w (m_channel (conns w c))))"
  shows "conn_ok x' c w'"
proof -
  note d = maskedD [OF m]
  from d(11) obtain b where "channels w' (m_channel (conns w c)) = SetAdded b (f (channels w (m_channel (conns w c))))" ..
  with ok legal [of "channels w (m_channel (conns w c))"] writing show ?thesis
    unfolding conn_ok_def d(1-4) by simp
qed

lemma legal_mask_ops:
  "legal_events Linux (m_events ch) \<Longrightarrow> legal_events Linux (m_events (events_enable (kReadEvent Linux) ch))"
  "legal_events Linux (m_events ch) \<Longrightarrow> legal_events Linux (m_events (events_enable (kWriteEvent Linux) ch))"
  "legal_events Linux (m_events ch) \<Longrightarrow> legal_events Linux (m_events (events_disable (kWriteEvent Linux) ch))"
  "legal_events Linux (m_events (ch\<lparr>m_events := kNoneEvent\<rparr>))"
  by (auto simp: events_enable_def events_disable_def legal_events_enable legal_events_disable kNoneEvent_def)

lemma EnableReading_evolves:
  assumes "EnableReading (m_channel (conns w c)) w = Inr w'" and "c \<in> C"
  shows "evolves J C w w'"
proof (rule touches_evolves)
  note m = mask_ops(1) [OF assms(1)]
  show "touches c w w'" using touches_masked [OF m] .
  show "conn_ok x c w'" if ok: "conn_ok x c w" for x
  proof (rule conn_ok_masked [OF m ok legal_mask_ops(1)])
    assume *: "m_state (conns w c) = Connected" "\<not> x" "content (m_output_buffer (conns w c)) \<noteq> []"
    have "legal_events Linux (m_events (channels w (m_channel (conns w c))))"
      "IsWriting Linux (channels w (m_channel (conns w c)))"
      using ok * by (simp_all add: conn_ok_def)
    then show "IsWriting Linux (events_enable (kReadEvent Linux) (channels w (m_channel (conns w c))))"
      using enable_is_set(4) by blast
  qed
  show "m_state (conns w c) \<le> m_state (conns w' c)" using maskedD(1) [OF m] by simp
qed (use assms in auto)

text \<open>Asking for write events settles the connection that was sending.\<close>

lemma EnableWriting_settles:
  assumes r: "EnableWriting (m_channel (conns w c)) w = Inr w'" and c: "c \<in> C"
    and ok: "net_ok (insert c X) C w"
  shows "net_ok X C w'"
proof (rule touches_net_ok [OF touches_masked [OF mask_ops(3) [OF r]] c ok])
  assume conn: "conn_ok (c \<in> insert c X) c w"
  show "conn_ok (c \<in> X) c w'"
  proof (rule conn_ok_masked [OF mask_ops(3) [OF r] conn legal_mask_ops(2)])
    show "IsWriting Linux (events_enable (kWriteEvent Linux) (channels w (m_channel (conns w c))))"
      using conn enable_is_set(2) unfolding conn_ok_def by blast
  qed
qed simp

lemma net_ok_insert: "net_ok X C w \<Longrightarrow> net_ok (insert c X) C w"
  by (auto simp: net_ok_def conn_ok_def)

lemma EnableWriting_evolves:
  assumes "EnableWriting (m_channel (conns w c)) w = Inr w'" and "c \<in> C"
  shows "evolves J C w w'"
proof -
  have "net_ok X C w'" if "net_ok X C w" for X
    using EnableWriting_settles [OF assms net_ok_insert [OF that]] .
  then show ?thesis
    using maskedD(1,2,16) [OF mask_ops(3) [OF assms(1)]] by (simp add: evolves_def chans_def)
qed

text \<open>Withdrawing the channel of a disconnected connection.\<close>

lemma conn_ok_masked_gone:
  assumes "masked (m_channel (conns w c)) f w w'" and "conn_ok x c w"
    and "m_state (conns w c) = Disconnected"
    and "\<And>ch. legal_events Linux (m_events ch) \<Longrightarrow> legal_events Linux (m_events (f ch))"
  shows "conn_ok x c w'"
  using conn_ok_masked [OF assms(1,2,4)] assms(3) by simp

lemma withdraw_channel_gone:
  assumes r: "withdraw_channel c w = Inr w'" and gone: "m_state (conns w c) = Disconnected"
  shows "touches c w w'" and "conn_ok x c w \<Longrightarrow> conn_ok x c w'" and "conns w' = conns w"
    and "notified w' = notified w" and "this_thread w' = this_thread w"
    and "m_threadId (loops w' l) = m_threadId (loops w l)"
proof -
  from r obtain w1 where w1: "DisableAll (m_channel (conns w c)) w = Inr w1"
    and rest: "(if m_added (channels w1 (m_channel (conns w1 c)))
      then RemoveChannel (m_loop (conns w1 c)) (m_channel (conns w1 c)) w1 else Inr w1) = Inr w'"
    by (auto simp: withdraw_channel_def rbind_eq_Inr_iff)
  note m1 = mask_ops(5) [OF w1] note d1 = maskedD [OF m1]
  have ok1: "conn_ok x c w1" if "conn_ok x c w" for x
    using conn_ok_masked_gone [OF m1 that gone] by (simp add: kNoneEvent_def)
  have "touches c w1 w' \<and> (conn_ok x c w1 \<longrightarrow> conn_ok x c w') \<and> conns w' = conns w1 \<and>
    notified w' = notified w1 \<and> this_thread w' = this_thread w1 \<and> m_threadId (loops w' l) = m_threadId (loops w1 l)"
  proof (cases "m_added (channels w1 (m_channel (conns w1 c)))")
    case True
    with rest have m2: "masked (m_channel (conns w1 c)) id w1 w'" by (simp add: RemoveChannel_masks)
    show ?thesis
      using touches_masked [OF m2] conn_ok_masked_gone [OF m2, of x] gone maskedD [OF m2] d1 by simp
  next
    case False
    with rest show ?thesis by simp
  qed
  with touches_masked [OF m1] touches_trans ok1 d1
  show "touches c w w'" "conn_ok x c w \<Longrightarrow> conn_ok x c w'" "conns w' = conns w" "notified w' = notified w"
    "this_thread w' = this_thread w" "m_threadId (loops w' l) = m_threadId (loops w l)"
    by auto
qed

lemma Socket_Close_evolves:
  assumes "c \<in> C"
  shows "evolves J C w (Socket_Close c w)" and "touches c w (Socket_Close c w)"
    and "conn_ok x c w \<Longrightarrow> conn_ok x c (Socket_Close c w)"
proof -
  show t: "touches c w (Socket_Close c w)" by (simp add: Socket_Close_def Let_def touches_def)
  show ok: "conn_ok x c w \<Longrightarrow> conn_ok x c (Socket_Close c w)" for x
    by (auto simp: Socket_Close_def Let_def conn_ok_def)
  show "evolves J C w (Socket_Close c w)"
    using touches_evolves [OF t assms ok] by (simp add: Socket_Close_def Let_def)
qed

text \<open>Marking a connection as disconnected.\<close>

definition mark_gone :: "conn_id \<Rightarrow> ('u, 'z) net_scheme \<Rightarrow> ('u, 'z) net_scheme" where
  "mark_gone c w = upd_conn c (\<lambda>cn. cn\<lparr>m_state := Disconnected, m_pending_write_bytes := 0\<rparr>) w"

lemma mark_gone_ok: "conn_ok x c w \<Longrightarrow> conn_ok x c (mark_gone c w)"
  by (simp add: mark_gone_def conn_ok_def)

lemma mark_gone_simps [simp]:
  "m_state (conns (mark_gone c w) c) = Disconnected" "touches c w (mark_gone c w)"
  "notified (mark_gone c w) = notified w"
  by (simp_all add: mark_gone_def touches_def)

section \<open>Every operation keeps the invariant\<close>

lemma evolves_upd_same:
  assumes "c \<in> C" and "\<And>cn. m_channel (f cn) = m_channel cn" "\<And>cn. m_state (f cn) = m_state cn"
    "\<And>cn. m_input_buffer (f cn) = m_input_buffer cn" "\<And>cn. m_output_buffer (f cn) = m_output_buffer cn"
    "\<And>cn. m_pending_write_bytes (f cn) = m_pending_write_bytes cn"
  shows "evolves J C w (upd_conn c f w)"
  by (rule touches_evolves [OF touches_upd_conn _ _]) (auto simp: assms conn_ok_def)

lemma RefreshActiveTime_evolves: "c \<in> C \<Longrightarrow> evolves J C w (RefreshActiveTime c w)"
  by (simp add: RefreshActiveTime_def evolves_upd_same)

lemma QueueInLoop_evolves: "evolves J C w (QueueInLoop l f w)"
  by (rule evolves_frame)
    (simp_all add: QueueInLoop_def wake_if_needed_def Wakeup_def push_functor_def upd_loop_def)

lemma HandleWakeupRead_evolves: "evolves J C w (HandleWakeupRead l w)"
  by (rule evolves_frame) (simp_all add: HandleWakeupRead_eq upd_loop_def)

text \<open>Up to the close callback: the connection is marked, withdrawn, and its notification recorded.\<close>

lemma gone_evolves:
  assumes c: "c \<in> C" and t: "touches c w w'" and gone: "m_state (conns w' c) = Disconnected"
    and ok: "\<And>x. conn_ok x c w \<Longrightarrow> conn_ok x c w'" and same: "notified w' = notified w"
    and was: "m_state (conns w c) \<noteq> Disconnected"
  shows "evolves J C w w'" and "evolves J C w (w'\<lparr>notified := notified w' @ [c]\<rparr>)"
proof -
  show "evolves J C w w'" using touches_evolves [OF t c ok] gone by simp
  let ?w = "w'\<lparr>notified := notified w' @ [c]\<rparr>"
  show "evolves J C w ?w"
  proof (rule touches_evolves [OF _ c])
    show "touches c w ?w" using t by (simp add: touches_def)
    show "m_state (conns w c) \<le> m_state (conns ?w c)" using gone by simp
    fix x assume x: "conn_ok x c w"
    then have "c \<notin> set (notified w)" using was by (auto simp: conn_ok_def)
    then have "count_list (notified w) c = 0" by (simp add: count_notin)
    with ok [OF x] gone same show "conn_ok x c ?w" by (simp add: conn_ok_def)
  qed
qed

lemma withdraw_gone_evolves:
  assumes "withdraw_channel c (mark_gone c w) = Inr w'" and "c \<in> C" and "m_state (conns w c) \<noteq> Disconnected"
  shows "evolves J C w w'" and "evolves J C w (w'\<lparr>notified := notified w' @ [c]\<rparr>)"
proof -
  note g = withdraw_channel_gone [OF assms(1)]
  have "touches c w w'" using touches_trans [OF mark_gone_simps(2)] g(1) by simp
  moreover have "conn_ok x c w'" if "conn_ok x c w" for x using g(2) mark_gone_ok [OF that] by simp
  ultimately show "evolves J C w w'" "evolves J C w (w'\<lparr>notified := notified w' @ [c]\<rparr>)"
    using gone_evolves [OF assms(2), of w w'] g(3,4) assms(3) by simp_all
qed

lemma ConnectDestroyed_evolves:
  assumes "ConnectDestroyed c w = Inr w'" and c: "c \<in> C"
  shows "evolves J C w w'"
proof (cases "m_state (conns w c) = Connected \<or> m_state (conns w c) = Disconnecting")
  case True
  then have "m_state (conns w c) \<noteq> Disconnected" by auto
  from assms(1) True obtain w1 where "withdraw_channel c (mark_gone c w) = Inr w1" "w' = Socket_Close c w1"
    by (auto simp: ConnectDestroyed_def Let_def mark_gone_def rbind_eq_Inr_iff)
  with withdraw_gone_evolves(1) [OF _ c] \<open>m_state (conns w c) \<noteq> Disconnected\<close> Socket_Close_evolves(1) [OF c]
  show ?thesis by (meson evolves_trans)
next
  case False
  with assms(1) show ?thesis by (auto simp: ConnectDestroyed_def rbind_eq_Inr_iff)
qed

text \<open>What the connection relies on from the callbacks installed in it.\<close>

locale callback_env =
  fixes E :: "('u, ('u, 'z) net_scheme) exec" and J :: "(conn_id \<Rightarrow> chan_id) \<Rightarrow> 'z \<Rightarrow> bool" and C :: "conn_id set"
  assumes on_connection_evolves: "c \<in> C \<Longrightarrow> on_connection E u c w = Inr w' \<Longrightarrow> evolves J C w w'"
    and on_message_evolves: "c \<in> C \<Longrightarrow> on_message E u c w = Inr w' \<Longrightarrow> evolves J C w w'"
    and on_write_complete_evolves: "c \<in> C \<Longrightarrow> on_write_complete E u c w = Inr w' \<Longrightarrow> evolves J C w w'"
    and on_close_evolves: "c \<in> C \<Longrightarrow> on_close E u c w = Inr w' \<Longrightarrow> evolves J C w w'"
    and on_high_water_evolves: "c \<in> C \<Longrightarrow> on_high_water E u c n w = Inr w' \<Longrightarrow> evolves J C w w'"
begin

lemma invoke_evolves:
  assumes "\<And>u w w'. f u c w = Inr w' \<Longrightarrow> evolves J C w w'" and "invoke f cb c w = Inr w'"
  shows "evolves J C w w'"
  using assms by (auto simp: invoke_def split: option.splits)

lemma HandleClose_evolves:
  assumes "HandleClose E c w = Inr w'" and c: "c \<in> C"
  shows "evolves J C w w'"
proof (cases "m_state (conns w c) = Disconnected")
  case True
  with assms(1) show ?thesis by (auto simp: HandleClose_def rbind_eq_Inr_iff)
next
  case False
  with assms(1) obtain w1 w2 where w1: "withdraw_channel c (mark_gone c w) = Inr w1"
    and w2: "notify_close E c w1 = Inr w2" "w' = Socket_Close c w2"
    by (auto simp: HandleClose_def Let_def mark_gone_def rbind_eq_Inr_iff)
  note g = withdraw_gone_evolves [OF w1 c False]
  have "evolves J C w w2"
  proof (cases "m_conn_close_callback (conns w1 c)")
    case None
    with w2(1) g(1) show ?thesis by (simp add: notify_close_def)
  next
    case (Some u)
    with w2(1) on_close_evolves [OF c] g(2) evolves_trans show ?thesis by (simp add: notify_close_def) blast
  qed
  with w2(2) Socket_Close_evolves(1) [OF c] show ?thesis by (blast intro: evolves_trans)
qed

lemma ForceCloseInLoop_evolves:
  assumes "ForceCloseInLoop E c w = Inr w'" and c: "c \<in> C"
  shows "evolves J C w w'"
proof (cases "m_state (conns w c) = Connected \<or> m_state (conns w c) = Disconnecting")
  case False
  with assms(1) show ?thesis by (auto simp: ForceCloseInLoop_def rbind_eq_Inr_iff)
next
  case True
  then have was: "m_state (conns w c) \<noteq> Disconnected" by auto
  from True assms(1) obtain w1 where w1: "DisableAll (m_channel (conns (mark_gone c w) c)) (mark_gone c w) = Inr w1"
    and w2: "notify_close E c (Socket_Close c w1) = Inr w'"
    by (auto simp: ForceCloseInLoop_def Let_def mark_gone_def rbind_eq_Inr_iff)
  note m = mask_ops(5) [OF w1]
  let ?w2 = "Socket_Close c w1"
  have t: "touches c w ?w2"
    using touches_trans [OF mark_gone_simps(2) touches_trans [OF touches_masked [OF m] Socket_Close_evolves(2) [OF c]]] .
  have gone: "m_state (conns ?w2 c) = Disconnected" and same: "notified ?w2 = notified w"
    using maskedD(1,2) [OF m] by (simp_all add: Socket_Close_def Let_def)
  have ok: "conn_ok x c ?w2" if "conn_ok x c w" for x
  proof -
    have "conn_ok x c w1"
      using conn_ok_masked_gone [OF m mark_gone_ok [OF that] mark_gone_simps(1)] by (simp add: kNoneEvent_def)
    then show ?thesis by (rule Socket_Close_evolves(3) [OF c])
  qed
  note g = gone_evolves [OF c t gone ok same was]
  show ?thesis
  proof (cases "m_conn_close_callback (conns ?w2 c)")
    case None
    with w2 g(1) show ?thesis by (simp add: notify_close_def)
  next
    case (Some u)
    with w2 on_close_evolves [OF c] g(2) evolves_trans show ?thesis by (simp add: notify_close_def) blast
  qed
qed

end

subsection \<open>Reading and writing\<close>

lemma sys_readv_simps:
  assumes "sys_readv fd cap w = (rv, w')"
  shows "conns w' = conns w" "channels w' = channels w" "notified w' = notified w" "sent w' = sent w"
    "accepted w' = accepted w" "rv = Inr d \<Longrightarrow> length d \<le> cap" "net.more w' = net.more w"
  using assms by (auto simp: sys_readv_def split: list.splits sum.splits)

lemma sys_write_simps:
  assumes "sys_write c fd data w = (wv, w')"
  shows "conns w' = conns w" "channels w' = channels w" "notified w' = notified w" "accepted w' = accepted w"
    "d \<noteq> c \<Longrightarrow> sent w' d = sent w d" "wv = Inl e \<Longrightarrow> sent w' = sent w"
    "wv = Inr n \<Longrightarrow> \<exists>k. n = of_nat (min k (length data)) \<and> sent w' c = sent w c @ take k data"
    "net.more w' = net.more w"
  using assms by (auto simp: sys_write_def split: list.splits sum.splits)

text \<open>What \<open>HandleWrite\<close> hands to the kernel, as one step on buffer and stream.\<close>

definition write_out :: "conn_id \<Rightarrow> ('u, 'z) net_scheme \<Rightarrow> (errno + size_t) \<times> ('u, 'z) net_scheme" where
  "write_out c w =
     (let out = m_output_buffer (conns w c) in
      if ReadableBytes out = 0 then (Inr 0, w) else sys_write c (GetFd c w) (content out) w)"

lemma write_out_simps:
  assumes "write_out c w = (wv, w')"
  shows "conns w' = conns w" "channels w' = channels w" "notified w' = notified w" "accepted w' = accepted w"
    "d \<noteq> c \<Longrightarrow> sent w' d = sent w d" "net.more w' = net.more w"
  using assms by (auto simp: write_out_def Let_def sys_write_simps split: if_splits)

lemma min_unat_of_nat: "n \<le> 9223372036854775807 \<Longrightarrow> unat (of_nat n :: 64 word) = n"
  by (rule unat_of_nat_size_t) simp

lemma write_out_stream:
  assumes wf: "wf_buffer (m_output_buffer (conns w c))"
    and out: "write_out c w = (wv, w')" and r: "WriteToFd wv (m_output_buffer (conns w c)) = Inr (n, saved, b)"
  shows "wf_buffer b" and "sent w' c @ content b = sent w c @ content (m_output_buffer (conns w c))"
    and "\<not> 0 < sint n \<Longrightarrow> b = m_output_buffer (conns w c) \<and> sent w' c = sent w c"
proof -
  let ?o = "m_output_buffer (conns w c)"
  have "wf_buffer b \<and> sent w' c @ content b = sent w c @ content ?o \<and>
    (\<not> 0 < sint n \<longrightarrow> b = ?o \<and> sent w' c = sent w c)"
  proof (cases "content ?o = []")
    case True
    then have "w' = w" using out ReadableBytes_eq [OF wf] by (simp add: write_out_def)
    with True r wf WriteToFd_empty [OF wf] show ?thesis by simp
  next
    case False
    then have "ReadableBytes ?o \<noteq> 0" using unat_ReadableBytes [OF wf] by auto
    with out have sys: "sys_write c (GetFd c w) (content ?o) w = (wv, w')" by (simp add: write_out_def)
    show ?thesis
    proof (cases wv)
      case (Inl e)
      with r WriteToFd_fails [OF wf False] sys_write_simps(6) [OF sys] wf show ?thesis by simp
    next
      case (Inr m)
      with sys_write_simps(7) [OF sys] obtain k where
        k: "m = of_nat (min k (length (content ?o)))" "sent w' c = sent w c @ take k (content ?o)" by blast
      have small: "length (content ?o) \<le> 9223372036854775807"
        using wf_bounds [OF wf] by (simp add: length_content [OF wf])
      then have m: "unat m = min k (length (content ?o))"
        unfolding k(1) by (intro min_unat_of_nat) simp
      have take: "take k (content ?o) = take (unat m) (content ?o)" by (simp add: m min_def)
      have le: "unat m \<le> length (content ?o)" by (simp add: m)
      from WriteToFd_ok [OF wf False le] r Inr have b: "wf_buffer b" "content b = drop (unat m) (content ?o)" "n = m"
        by auto
      have "b = ?o \<and> sent w' c = sent w c" if "\<not> 0 < sint n"
      proof -
        have "unat m = 0" using that b(3) sint_pos_size_t [of m] le small by simp
        then show ?thesis using k(2) take r Inr that b(3) False by (auto simp: WriteToFd_def split: if_splits)
      qed
      with b k(2) take show ?thesis by simp
    qed
  qed
  then show "wf_buffer b" "sent w' c @ content b = sent w c @ content ?o"
    "\<not> 0 < sint n \<Longrightarrow> b = ?o \<and> sent w' c = sent w c" by blast+
qed

text \<open>The state after the write, before callbacks.\<close>

definition wrote :: "conn_id \<Rightarrow> ssize_t \<Rightarrow> buffer \<Rightarrow> ('u, 'z) net_scheme \<Rightarrow> ('u, 'z) net_scheme" where
  "wrote c n b w =
     (let w = upd_conn c (\<lambda>cn. cn\<lparr>m_output_buffer := b\<rparr>) w in
      if 0 < sint n then
        RefreshActiveTime c (upd_conn c (\<lambda>cn. cn\<lparr>
               m_total_bytes_written := m_total_bytes_written cn + n,
               m_pending_write_bytes := ReadableBytes (m_output_buffer cn)\<rparr>) w)
      else w)"

lemma wrote_evolves:
  assumes c: "c \<in> C" and con: "IsConnected c w" and out: "write_out c w = (wv, w1)"
    and r: "WriteToFd wv (m_output_buffer (conns w c)) = Inr (n, saved, b)"
  shows "evolves J C w (wrote c n b w1)"
proof (rule touches_evolves [OF _ c])
  note s = write_out_simps [OF out]
  show "touches c w (wrote c n b w1)"
    by (simp add: touches_def wrote_def Let_def RefreshActiveTime_def s)
  show "m_state (conns w c) \<le> m_state (conns (wrote c n b w1) c)"
    by (simp add: wrote_def Let_def RefreshActiveTime_def s)
  show "conn_ok x c (wrote c n b w1)" if ok: "conn_ok x c w" for x
  proof -
    have wf: "wf_buffer (m_output_buffer (conns w c))" using ok by (simp add: conn_ok_def)
    note o = write_out_stream [OF wf out r]
    have still: "content (m_output_buffer (conns w c)) \<noteq> []" if "content b \<noteq> []"
    proof
      assume "content (m_output_buffer (conns w c)) = []"
      then have "n = 0" "b = m_output_buffer (conns w c)" using r WriteToFd_empty [OF wf] by auto
      with that \<open>content (m_output_buffer (conns w c)) = []\<close> show False by simp
    qed
    show ?thesis
      using ok con o still s(1-4)
      unfolding conn_ok_def IsConnected_def wrote_def Let_def RefreshActiveTime_def
      by (cases "0 < sint n") auto
  qed
qed

lemma HandleWrite_eq:
  "HandleWrite E c w =
     rbind (AssertInLoopThread (m_loop (conns w c)) w) (\<lambda>_.
     if \<not> IsConnected c w then Inr w
     else
       let (wv, w1) = write_out c w in
       rbind (WriteToFd wv (m_output_buffer (conns w c))) (\<lambda>(n, saved, b).
       let err = (case saved of None \<Rightarrow> 0 | Some e \<Rightarrow> e); w2 = wrote c n b w1 in
       if 0 < sint n then
         if ReadableBytes (m_output_buffer (conns w2 c)) = 0 then
           rbind (DisableWriting (m_channel (conns w2 c)) w2) (\<lambda>w.
           if m_state (conns w c) = Disconnecting then HandleClose E c w
           else
             rbind (invoke (on_write_complete E) (m_write_complete_callback (conns w c)) c w) (\<lambda>w.
             if err \<noteq> 0 \<and> \<not> IsNormalWouldBlock err then HandleClose E c w else Inr w))
         else if err \<noteq> 0 \<and> \<not> IsNormalWouldBlock err then HandleClose E c w2
         else Inr w2
       else if \<not> IsNormalWouldBlock err then HandleClose E c w2
       else Inr w2))"
  unfolding HandleWrite_def write_out_def wrote_def Let_def
  by (auto intro!: rbind_cong split: prod.splits)

lemma DisableWriting_evolves:
  assumes r: "DisableWriting (m_channel (conns w c)) w = Inr w'" and c: "c \<in> C"
    and empty: "ReadableBytes (m_output_buffer (conns w c)) = 0"
  shows "evolves J C w w'"
proof (rule touches_evolves [OF _ c])
  note m = mask_ops(4) [OF r]
  show "touches c w w'" by (rule touches_masked [OF m])
  show "m_state (conns w c) \<le> m_state (conns w' c)" using maskedD(1) [OF m] by simp
  show "conn_ok x c w'" if ok: "conn_ok x c w" for x
  proof (rule conn_ok_masked [OF m ok legal_mask_ops(3)])
    have "wf_buffer (m_output_buffer (conns w c))" using ok by (simp add: conn_ok_def)
    then have "content (m_output_buffer (conns w c)) = []"
      using empty unat_ReadableBytes by fastforce
    moreover assume "content (m_output_buffer (conns w c)) \<noteq> []"
    ultimately show "IsWriting Linux (events_disable (kWriteEvent Linux) (channels w (m_channel (conns w c))))"
      by simp
  qed
qed

lemma read_evolves:
  assumes c: "c \<in> C" and sys: "sys_readv fd (readv_capacity (m_input_buffer (conns w c))) w = (rv, w1)"
    and r: "ReadFromFd rv (m_input_buffer (conns w1 c)) = Inr (n, saved, b)"
  shows "evolves J C w (upd_conn c (\<lambda>cn. cn\<lparr>m_input_buffer := b\<rparr>) w1)"
proof (rule touches_evolves [OF _ c])
  note s = sys_readv_simps [OF sys]
  show "touches c w (upd_conn c (\<lambda>cn. cn\<lparr>m_input_buffer := b\<rparr>) w1)" by (simp add: touches_def s)
  show "m_state (conns w c) \<le> m_state (conns (upd_conn c (\<lambda>cn. cn\<lparr>m_input_buffer := b\<rparr>) w1) c)" by (simp add: s)
  show "conn_ok x c (upd_conn c (\<lambda>cn. cn\<lparr>m_input_buffer := b\<rparr>) w1)" if ok: "conn_ok x c w" for x
  proof -
    have wf: "wf_buffer (m_input_buffer (conns w c))" using ok by (simp add: conn_ok_def)
    have "wf_buffer b"
    proof (cases rv)
      case (Inl e)
      with r ReadFromFd_fails [OF wf] s(1) show ?thesis by simp
    next
      case (Inr d)
      with r ReadFromFd_returns [OF wf s(6) [OF Inr]] s(1) show ?thesis by simp
    qed
    with ok show ?thesis by (simp add: conn_ok_def s(1-5))
  qed
qed

lemma established_evolves:
  assumes c: "c \<in> C" and st: "m_state (conns w c) = Connecting"
  shows "evolves J C w (upd_conn c (\<lambda>cn. cn\<lparr>m_state := Connected\<rparr>) w)"
  by (rule touches_evolves [OF touches_upd_conn c]) (auto simp: conn_ok_def st)

lemma disconnecting_evolves:
  assumes c: "c \<in> C" and st: "m_state (conns w c) = Connected \<or> m_state (conns w c) = Disconnecting"
  shows "evolves J C w (upd_conn c (\<lambda>cn. cn\<lparr>m_state := Disconnecting\<rparr>) w)"
  by (rule touches_evolves [OF touches_upd_conn c]) (use st in \<open>auto simp: conn_ok_def\<close>)

context callback_env
begin

lemma RunInLoop_evolves:
  assumes "\<And>w w'. f w = Inr w' \<Longrightarrow> evolves J C w w'" and "RunInLoop (\<lambda>_. f) l k w = Inr w'"
  shows "evolves J C w w'"
  using assms QueueInLoop_evolves by (auto simp: RunInLoop_def split: if_splits)

lemma HandleError_evolves: "HandleError E c w = Inr w' \<Longrightarrow> c \<in> C \<Longrightarrow> evolves J C w w'"
  by (simp add: HandleError_def HandleClose_evolves)

lemma ConnectEstablished_evolves:
  assumes "ConnectEstablished E c w = Inr w'" and c: "c \<in> C"
  shows "evolves J C w w'"
proof -
  define w1 where "w1 = RefreshActiveTime c (upd_conn c (\<lambda>cn. cn\<lparr>m_state := Connected\<rparr>) w)"
  from assms(1) obtain w2 where st: "m_state (conns w c) = Connecting"
    and w2: "EnableReading (m_channel (conns w1 c)) w1 = Inr w2"
    and cb: "invoke (on_connection E) (m_connection_callback (conns w2 c)) c w2 = Inr w'"
    by (auto simp: ConnectEstablished_def rbind_eq_Inr_iff Let_def w1_def)
  have "evolves J C w w1"
    unfolding w1_def using established_evolves [OF c st] RefreshActiveTime_evolves [OF c] evolves_trans by blast
  moreover have "evolves J C w1 w2" by (rule EnableReading_evolves [OF w2 c])
  moreover have "evolves J C w2 w'" by (rule invoke_evolves [OF on_connection_evolves [OF c] cb])
  ultimately show ?thesis by (meson evolves_trans)
qed

lemma ShutdownInLoop_evolves:
  assumes "ShutdownInLoop E c w = Inr w'" and c: "c \<in> C"
  shows "evolves J C w w'"
  using assms EnableWriting_evolves [OF _ c] HandleClose_evolves [OF _ c]
  by (auto simp: ShutdownInLoop_def rbind_eq_Inr_iff split: if_splits)

lemma Shutdown_evolves:
  assumes "Shutdown E c w = Inr w'" and c: "c \<in> C"
  shows "evolves J C w w'"
proof (cases "m_state (conns w c) = Connected")
  case True
  with assms(1) have "evolves J C (upd_conn c (\<lambda>cn. cn\<lparr>m_state := Disconnecting\<rparr>) w) w'"
    using RunInLoop_evolves [OF ShutdownInLoop_evolves [OF _ c]] by (auto simp: Shutdown_def Let_def)
  with disconnecting_evolves [OF c] True show ?thesis by (blast intro: evolves_trans)
next
  case False
  with assms(1) show ?thesis by (simp add: Shutdown_def)
qed

lemma ForceClose_evolves:
  assumes "ForceClose E c w = Inr w'" and c: "c \<in> C"
  shows "evolves J C w w'"
proof (cases "m_state (conns w c) = Connected \<or> m_state (conns w c) = Disconnecting")
  case True
  with assms(1) have "evolves J C (upd_conn c (\<lambda>cn. cn\<lparr>m_state := Disconnecting\<rparr>) w) w'"
    using RunInLoop_evolves [OF ForceCloseInLoop_evolves [OF _ c]] by (auto simp: ForceClose_def Let_def)
  with disconnecting_evolves [OF c True] show ?thesis by (blast intro: evolves_trans)
next
  case False
  with assms(1) show ?thesis by (simp add: ForceClose_def)
qed

lemma HandleRead_evolves:
  assumes "HandleRead E c w = Inr w'" and c: "c \<in> C"
  shows "evolves J C w w'"
proof -
  obtain rv w1 where sys: "sys_readv (GetFd c w) (readv_capacity (m_input_buffer (conns w c))) w = (rv, w1)"
    by (cases "sys_readv (GetFd c w) (readv_capacity (m_input_buffer (conns w c))) w")
  from assms(1) sys obtain n saved b where r: "ReadFromFd rv (m_input_buffer (conns w1 c)) = Inr (n, saved, b)"
    by (auto simp: HandleRead_def rbind_eq_Inr_iff)
  define w2 where "w2 = upd_conn c (\<lambda>cn. cn\<lparr>m_input_buffer := b\<rparr>) w1"
  define w3 where "w3 = RefreshActiveTime c (upd_conn c (\<lambda>cn. cn\<lparr>m_total_bytes_read := m_total_bytes_read cn + n\<rparr>) w2)"
  have e2: "evolves J C w w2" unfolding w2_def by (rule read_evolves [OF c sys r])
  have "evolves J C w2 (upd_conn c (\<lambda>cn. cn\<lparr>m_total_bytes_read := m_total_bytes_read cn + n\<rparr>) w2)"
    by (rule evolves_upd_same [OF c]) simp_all
  then have e3: "evolves J C w2 w3" unfolding w3_def using RefreshActiveTime_evolves [OF c] evolves_trans by blast
  have a: "AssertInLoopThread (m_loop (conns w c)) w = Inr ()" using assms(1) by (auto simp: HandleRead_def rbind_eq_Inr_iff)
  have "HandleRead E c w = (if 0 < sint n then invoke (on_message E) (m_message_callback (conns w3 c)) c w3
      else if n = 0 then HandleClose E c w2
      else if \<not> IsNormalWouldBlock (case saved of None \<Rightarrow> 0 | Some e \<Rightarrow> e) then HandleClose E c w2 else Inr w2)"
    unfolding HandleRead_def a rbind_Inr sys r prod.case Let_def w3_def w2_def ..
  with assms(1) consider
      (message) "invoke (on_message E) (m_message_callback (conns w3 c)) c w3 = Inr w'"
    | (close) "HandleClose E c w2 = Inr w'" | (nothing) "w' = w2"
    by (metis sum.inject(2))
  then show ?thesis
  proof cases
    case message
    have "evolves J C w3 w'" by (rule invoke_evolves [OF on_message_evolves [OF c] message])
    with e2 e3 show ?thesis by (meson evolves_trans)
  next
    case close
    with e2 HandleClose_evolves [OF _ c] show ?thesis by (blast intro: evolves_trans)
  next
    case nothing
    with e2 show ?thesis by simp
  qed
qed

lemma HandleWrite_evolves:
  assumes "HandleWrite E c w = Inr w'" and c: "c \<in> C"
  shows "evolves J C w w'"
proof (cases "IsConnected c w")
  case False
  with assms(1) show ?thesis by (auto simp: HandleWrite_def rbind_eq_Inr_iff)
next
  case True
  obtain wv w1 where out: "write_out c w = (wv, w1)" by (cases "write_out c w")
  from assms(1) True out obtain n saved b where
    r: "WriteToFd wv (m_output_buffer (conns w c)) = Inr (n, saved, b)"
    by (auto simp: HandleWrite_eq rbind_eq_Inr_iff)
  define w2 where "w2 = wrote c n b w1"
  have e2: "evolves J C w w2" unfolding w2_def by (rule wrote_evolves [OF c True out r])
  have a: "AssertInLoopThread (m_loop (conns w c)) w = Inr ()" using assms(1) by (auto simp: HandleWrite_eq rbind_eq_Inr_iff)
  define err where "err = (case saved of None \<Rightarrow> 0 | Some e \<Rightarrow> e)"
  define finish where "finish = (\<lambda>w. if m_state (conns w c) = Disconnecting then HandleClose E c w
      else rbind (invoke (on_write_complete E) (m_write_complete_callback (conns w c)) c w) (\<lambda>w.
        if err \<noteq> 0 \<and> \<not> IsNormalWouldBlock err then HandleClose E c w else Inr w))"
  have eq: "HandleWrite E c w =
      (if 0 < sint n then
         if ReadableBytes (m_output_buffer (conns w2 c)) = 0 then
           rbind (DisableWriting (m_channel (conns w2 c)) w2) finish
         else if err \<noteq> 0 \<and> \<not> IsNormalWouldBlock err then HandleClose E c w2
         else Inr w2
       else if \<not> IsNormalWouldBlock err then HandleClose E c w2
       else Inr w2)"
    unfolding HandleWrite_eq a rbind_Inr out r prod.case Let_def w2_def err_def finish_def using True by simp
  have finish: "evolves J C u w'" if "finish u = Inr w'" for u
  proof (cases "m_state (conns u c) = Disconnecting")
    case True
    with that HandleClose_evolves [OF _ c] show ?thesis by (simp add: finish_def)
  next
    case False
    with that have "rbind (invoke (on_write_complete E) (m_write_complete_callback (conns u c)) c u) (\<lambda>w.
        if err \<noteq> 0 \<and> \<not> IsNormalWouldBlock err then HandleClose E c w else Inr w) = Inr w'"
      by (simp add: finish_def)
    then obtain v where v: "invoke (on_write_complete E) (m_write_complete_callback (conns u c)) c u = Inr v"
      and w': "(if err \<noteq> 0 \<and> \<not> IsNormalWouldBlock err then HandleClose E c v else Inr v) = Inr w'"
      by (rule rbind_InrE)
    have "evolves J C u v" by (rule invoke_evolves [OF on_write_complete_evolves [OF c] v])
    moreover have "evolves J C v w'" using w' HandleClose_evolves [OF _ c] by (auto split: if_splits)
    ultimately show ?thesis by (rule evolves_trans)
  qed
  show ?thesis
  proof (cases "0 < sint n \<and> ReadableBytes (m_output_buffer (conns w2 c)) = 0")
    case True
    with assms(1) eq have "rbind (DisableWriting (m_channel (conns w2 c)) w2) finish = Inr w'" by simp
    then obtain w3 where w3: "DisableWriting (m_channel (conns w2 c)) w2 = Inr w3" "finish w3 = Inr w'"
      by (rule rbind_InrE)
    have "evolves J C w2 w3" using DisableWriting_evolves [OF w3(1) c] True by simp
    with e2 finish [OF w3(2)] show ?thesis by (meson evolves_trans)
  next
    case False
    with assms(1) eq have "HandleClose E c w2 = Inr w' \<or> w' = w2" by (auto split: if_splits)
    with e2 HandleClose_evolves [OF _ c] show ?thesis by (blast intro: evolves_trans)
  qed
qed

lemma SendInLoop_evolves:
  assumes "SendInLoop E c data len w = Inr w'" and c: "c \<in> C"
  shows "evolves J C w w'"
proof (cases "IsConnected c w")
  case False
  with assms(1) show ?thesis by (auto simp: SendInLoop_def rbind_eq_Inr_iff)
next
  case True
  have a: "AssertInLoopThread (m_loop (conns w c)) w = Inr ()" using assms(1) by (auto simp: SendInLoop_def rbind_eq_Inr_iff)
  from assms(1) a True obtain b where b: "Append data len (m_output_buffer (conns w c)) = Inr b"
    by (auto simp: SendInLoop_def rbind_eq_Inr_iff Let_def)
  define w1 where "w1 = upd_conn c (\<lambda>cn. cn\<lparr>m_output_buffer := b, m_pending_write_bytes := ReadableBytes b\<rparr>)
    (w\<lparr>accepted := (accepted w)(c := accepted w c @ take (unat len) data)\<rparr>)"
  define high where "high = (if ReadableBytes (m_output_buffer (conns w c)) < m_high_water_mark (conns w1 c)
      \<and> m_high_water_mark (conns w1 c) \<le> ReadableBytes b
    then invoke (\<lambda>u c. on_high_water E u c (ReadableBytes b)) (m_high_water_mark_callback (conns w1 c)) c w1
    else Inr w1)"
  have "SendInLoop E c data len w = rbind high (\<lambda>w.
      if \<not> IsWriting Linux (channels w (m_channel (conns w c))) then EnableWriting (m_channel (conns w c)) w else Inr w)"
    unfolding SendInLoop_def a rbind_Inr b Let_def high_def w1_def using True by simp
  with assms(1) obtain w2 where w2: "high = Inr w2"
    and w': "(if \<not> IsWriting Linux (channels w2 (m_channel (conns w2 c)))
      then EnableWriting (m_channel (conns w2 c)) w2 else Inr w2) = Inr w'"
    by (auto elim: rbind_InrE)
  have e2: "evolves J C w1 w2"
    using w2 invoke_evolves [OF on_high_water_evolves [OF c]] by (auto simp: high_def split: if_splits)
  have ok1: "net_ok (insert c X) C w1" if ok: "net_ok X C w" for X
  proof (rule touches_net_ok [OF _ c ok])
    show "touches c w w1" by (simp add: touches_def w1_def)
    show "insert c X - {c} = X - {c}" by simp
    assume "conn_ok (c \<in> X) c w"
    then show "conn_ok (c \<in> insert c X) c w1"
      using Append_returns [OF _ b] True by (auto simp: conn_ok_def w1_def IsConnected_def)
  qed
  have last: "conns w' = conns w2 \<and> net.more w' = net.more w2 \<and> notified w' = notified w2"
    using w' maskedD(1,2,16) [OF mask_ops(3), of "m_channel (conns w2 c)" w2 w'] by (auto split: if_splits)
  have more1: "net.more w1 = net.more w" "chans w1 = chans w" and "notified w1 = notified w"
    by (auto simp: w1_def chans_def)
  have chans: "chans w' = chans w2" using last by (simp add: chans_def)
  have ok2: "net_ok X C w'" if j: "J (chans w) (net.more w)" and "net_ok X C w" for X
  proof -
    have ok: "net_ok (insert c X) C w2" using e2 ok1 [OF that(2)] j more1 by (simp add: evolves_def)
    show ?thesis
    proof (cases "IsWriting Linux (channels w2 (m_channel (conns w2 c)))")
      case True
      have "net_ok X C w2"
        by (rule touches_net_ok [OF touches_refl c ok]) (use True in \<open>auto simp: conn_ok_def\<close>)
      with True w' show ?thesis by simp
    next
      case False
      with w' EnableWriting_settles [OF _ c ok] show ?thesis by simp
    qed
  qed
  have "m_state (conns w d) \<le> m_state (conns w' d) \<and> m_channel (conns w' d) = m_channel (conns w d)"
    if "J (chans w) (net.more w)" "d \<in> C" for d
  proof -
    have "m_state (conns w1 d) = m_state (conns w d)" "m_channel (conns w1 d) = m_channel (conns w d)"
      by (simp_all add: w1_def)
    moreover have "m_state (conns w1 d) \<le> m_state (conns w2 d)" "m_channel (conns w2 d) = m_channel (conns w1 d)"
      using e2 that more1 by (simp_all add: evolves_def)
    ultimately show ?thesis using last by simp
  qed
  moreover have "J (chans w') (net.more w') \<and> set (notified w') \<subseteq> set (notified w) \<union> C" if "J (chans w) (net.more w)"
    using e2 that more1 last chans \<open>notified w1 = notified w\<close> by (simp add: evolves_def)
  ultimately show ?thesis using ok2 by (simp add: evolves_def)
qed

lemma Send_evolves:
  assumes "Send E c message w = Inr w'" and "c \<in> C"
  shows "evolves J C w w'"
  using assms SendInLoop_evolves QueueInLoop_evolves by (auto simp: Send_def split: if_splits)

lemma Send_bytes_evolves:
  assumes "Send_bytes E c data len w = Inr w'" and "c \<in> C"
  shows "evolves J C w w'"
  using assms SendInLoop_evolves QueueInLoop_evolves
  by (auto simp: Send_bytes_def rbind_eq_Inr_iff split: if_splits)

end

section \<open>All that can happen to connections\<close>

datatype conn_action =
    ARead | AWrite | AClose | AError | AEstablish | ADestroy | AShutdown | AShutdownInLoop
  | AForceClose | AForceCloseInLoop | ASend string | ASendBytes string size_t | ASendInLoop string size_t

fun do_action ::
  "('u, ('u, 'z) net_scheme) exec \<Rightarrow> conn_id \<Rightarrow> conn_action \<Rightarrow> ('u, 'z) net_scheme \<Rightarrow> ('u, 'z) net_scheme result" where
  "do_action E c ARead = HandleRead E c"
| "do_action E c AWrite = HandleWrite E c"
| "do_action E c AClose = HandleClose E c"
| "do_action E c AError = HandleError E c"
| "do_action E c AEstablish = ConnectEstablished E c"
| "do_action E c ADestroy = ConnectDestroyed c"
| "do_action E c AShutdown = Shutdown E c"
| "do_action E c AShutdownInLoop = ShutdownInLoop E c"
| "do_action E c AForceClose = ForceClose E c"
| "do_action E c AForceCloseInLoop = ForceCloseInLoop E c"
| "do_action E c (ASend m) = Send E c m"
| "do_action E c (ASendBytes d n) = Send_bytes E c d n"
| "do_action E c (ASendInLoop d n) = SendInLoop E c d n"

text \<open>
  Any action on any connection, called from any thread, with anything in between that leaves the
  connections alone: the kernel's queues, the clocks, the loops and the running thread may change.
\<close>

inductive activity ::
  "('u, ('u, 'z) net_scheme) exec \<Rightarrow> conn_id set \<Rightarrow> ('u, 'z) net_scheme \<Rightarrow> ('u, 'z) net_scheme \<Rightarrow> bool"
  for E C w0 where
  activity_start: "activity E C w0 w0"
| activity_action: "activity E C w0 w \<Longrightarrow> c \<in> C \<Longrightarrow> do_action E c a w = Inr w' \<Longrightarrow> activity E C w0 w'"
| activity_other: "activity E C w0 w \<Longrightarrow> conns w' = conns w \<Longrightarrow> channels w' = channels w \<Longrightarrow>
    notified w' = notified w \<Longrightarrow> sent w' = sent w \<Longrightarrow> accepted w' = accepted w \<Longrightarrow>
    net.more w' = net.more w \<Longrightarrow> activity E C w0 w'"

context callback_env
begin

lemma do_action_evolves:
  assumes "do_action E c a w = Inr w'" and "c \<in> C"
  shows "evolves J C w w'"
  using assms HandleRead_evolves HandleWrite_evolves HandleClose_evolves HandleError_evolves
    ConnectEstablished_evolves ConnectDestroyed_evolves Shutdown_evolves ShutdownInLoop_evolves
    ForceClose_evolves ForceCloseInLoop_evolves Send_evolves Send_bytes_evolves SendInLoop_evolves
  by (cases a) simp_all

lemma activity_evolves: "activity E C w w' \<Longrightarrow> evolves J C w w'"
proof (induction rule: activity.induct)
  case activity_start
  then show ?case by simp
next
  case (activity_action w1 c a w2)
  then show ?case using do_action_evolves evolves_trans by blast
next
  case (activity_other w1 w2)
  then show ?case using evolves_frame [of w2 w1] evolves_trans by blast
qed

lemma activity_ok:
  assumes "activity E C w w'" and "net_ok {} C w" and "c \<in> C" and "J (chans w) (net.more w)"
  shows "conn_ok False c w'" and "m_state (conns w c) \<le> m_state (conns w' c)"
proof -
  have "net_ok {} C w'" using activity_evolves [OF assms(1)] assms(2,4) unfolding evolves_def by blast
  then show "conn_ok False c w'" using assms(3) by (simp add: net_ok_def)
  show "m_state (conns w c) \<le> m_state (conns w' c)"
    using activity_evolves [OF assms(1)] assms(3,4) by (simp add: evolves_def)
qed

end

end
