(* ===== verification/Acceptor.thy ===== *)
theory Acceptor
  imports Tcp_Connection
begin

text \<open>
  The acceptor, \<open>src/acceptor.cpp\<close>: the listening socket with its channel, starting and stopping
  to listen, and the handler that accepts a connection and hands it to the server.

  The state adds to that of the connections the acceptor itself and what the next calls of
  \<open>accept\<close> return (\<open>EAGAIN\<close> once exhausted). The results of \<open>bind\<close> and \<open>listen\<close> do not matter:
  the sources ignore them.
\<close>

record acceptor =
  m_acc_loop :: loop_id
  m_listen_socket :: SocketType
  m_listen_channel :: chan_id
  m_is_listening :: bool

record 'u acc_net = "'u net" +
  acceptor :: acceptor
  accept_queue :: "(errno + SocketType \<times> Address) list"

text \<open>\<open>sockfd\<close> is what \<open>Socket::CreateNonBlocking\<close> gives, \<open>ch\<close> the new channel.\<close>

definition Acceptor ::
  "loop_id \<Rightarrow> SocketType \<Rightarrow> chan_id \<Rightarrow> ('u, 'z) acc_net_scheme \<Rightarrow> ('u, 'z) acc_net_scheme" where
  "Acceptor loop sockfd ch w =
     upd_channel ch (\<lambda>_. SetReadCallback OnAccept (Channel loop sockfd))
       (w\<lparr>acceptor := \<lparr>m_acc_loop = loop, m_listen_socket = sockfd, m_listen_channel = ch, m_is_listening = False\<rparr>\<rparr>)"

definition destroy_Acceptor :: "('u, 'z) acc_net_scheme \<Rightarrow> ('u, 'z) acc_net_scheme result" where
  "destroy_Acceptor w =
     rbind (DisableAll (m_listen_channel (acceptor w)) w) (\<lambda>w.
     if m_added (channels w (m_listen_channel (acceptor w)))
     then RemoveChannel (m_acc_loop (acceptor w)) (m_listen_channel (acceptor w)) w
     else Inr w)"

definition Stop :: "('u, 'z) acc_net_scheme \<Rightarrow> ('u, 'z) acc_net_scheme result" where
  "Stop w =
     rbind (AssertInLoopThread (m_acc_loop (acceptor w)) w) (\<lambda>_.
     if \<not> m_is_listening (acceptor w) then Inr w
     else
       rbind (DisableReading (m_listen_channel (acceptor w)) w) (\<lambda>w.
       Inr (w\<lparr>acceptor := (acceptor w)\<lparr>m_is_listening := False\<rparr>\<rparr>)))"

definition Listen :: "('u, 'z) acc_net_scheme \<Rightarrow> ('u, 'z) acc_net_scheme result" where
  "Listen w =
     rbind (AssertInLoopThread (m_acc_loop (acceptor w)) w) (\<lambda>_.
     rbind (EnableReading (m_listen_channel (acceptor w)) w) (\<lambda>w.
     Inr (w\<lparr>acceptor := (acceptor w)\<lparr>m_is_listening := True\<rparr>\<rparr>)))"

definition IsListening :: "('u, 'z) acc_net_scheme \<Rightarrow> bool" where
  "IsListening w \<longleftrightarrow> m_is_listening (acceptor w)"

text \<open>\<open>Socket::Accept\<close>: \<open>None\<close> for the null pointer.\<close>

definition sys_accept ::
  "('u, 'z) acc_net_scheme \<Rightarrow> (SocketType \<times> Address) option \<times> ('u, 'z) acc_net_scheme" where
  "sys_accept w =
     (if m_listen_socket (acceptor w) = INVALID_SOCKET_VALUE then (None, w)
      else
        case accept_queue w of
          [] \<Rightarrow> (None, w)
        | Inl e # rest \<Rightarrow> (None, w\<lparr>accept_queue := rest\<rparr>)
        | Inr (fd, peer) # rest \<Rightarrow>
            (if fd = INVALID_SOCKET_VALUE then None else Some (fd, peer), w\<lparr>accept_queue := rest\<rparr>))"

definition HandleAccept ::
  "(SocketType \<Rightarrow> Address \<Rightarrow> ('u, 'z) acc_net_scheme \<Rightarrow> ('u, 'z) acc_net_scheme result) option \<Rightarrow>
   ('u, 'z) acc_net_scheme \<Rightarrow> ('u, 'z) acc_net_scheme result" where
  "HandleAccept m_new_connection_callback w =
     rbind (AssertInLoopThread (m_acc_loop (acceptor w)) w) (\<lambda>_.
     let (client, w) = sys_accept w in
     case client of
       None \<Rightarrow> Inr w
     | Some (fd, client_addr) \<Rightarrow>
         (case m_new_connection_callback of
            Some cb \<Rightarrow> cb fd client_addr w
          | None \<Rightarrow> Inr (w\<lparr>closes := closes w @ [fd]\<rparr>)))"

end
