(* ===== verification/Tcp_Server.thy ===== *)
theory Tcp_Server
  imports Acceptor "HOL-Library.AList"
begin

text \<open>
  The server, \<open>src/tcpserver.cpp\<close>: one main loop that accepts, loops for the connections, the table
  of connections, statistics, the idle scan and the graceful stop.

  The server's callbacks are codes of a type \<open>'a\<close>, executed by a record of type \<open>server_user\<close>;
  what the server itself installs in its connections has codes of its own. The table is an
  association list: the order in which a \<open>std::unordered_map\<close> is walked is that of the list. A new
  connection takes its number, and that of its channel, from \<open>next_obj\<close>. The host's byte order, the
  readings of the steady clock, the text of a \<open>double\<close>, the milliseconds that remain of a timeout
  after its conversion to \<open>double\<close> seconds and back, and the results of the file operations are in a
  record of type \<open>env\<close>.
\<close>

section \<open>State\<close>

datatype 'a server_cb = RemoveConnection | HighWater | UserCb 'a

record 'a server =
  m_main_loop :: loop_id
  m_listen_addr :: Address
  m_thread_num :: size_t
  m_sub_loops :: "loop_id list"
  m_connections :: "(SocketType \<times> conn_id) list"
  m_srv_connection_callback :: "'a option"
  m_srv_message_callback :: "'a option"
  m_srv_write_complete_callback :: "'a option"
  m_srv_high_water_mark_callback :: "'a option"
  m_next_loop_idx :: size_t
  m_started :: bool
  m_stopping :: bool
  m_idle_timeout_seconds :: int
  m_idle_scan_timer_id :: TimerId
  m_shutdown_check_timer_id :: TimerId
  m_shutdown_deadline_timer_id :: TimerId
  m_total_connections :: uint64
  m_closed_connections :: uint64
  m_high_water_mark_triggered :: uint64
  m_high_water_mark_bytes :: size_t
  m_shutdown_complete_callback :: "'a option"
  m_metrics_export_enabled :: bool
  m_metrics_export_path :: string
  m_metrics_export_interval_seconds :: int
  m_metrics_export_timer_id :: TimerId
  m_start_time :: time_point

record 'a srv = "'a server_cb acc_net" +
  server :: "'a server"
  next_obj :: nat
  files :: "string \<Rightarrow> string option"

record ('a, 'w) server_user = "('a, 'w) exec" +
  on_call :: "'a \<Rightarrow> 'w \<Rightarrow> 'w result"

record env =
  dt :: "nat \<Rightarrow> nat"
  host :: endian
  show_seconds :: "int \<Rightarrow> string"
  via_seconds :: "int \<Rightarrow> int"
  can_open :: "string \<Rightarrow> bool"
  can_rename :: "string \<Rightarrow> string \<Rightarrow> bool"

definition upd_server :: "('a server \<Rightarrow> 'a server) \<Rightarrow> ('a, 'z) srv_scheme \<Rightarrow> ('a, 'z) srv_scheme" where
  "upd_server f w = w\<lparr>server := f (server w)\<rparr>"

definition main_loop :: "('a, 'z) srv_scheme \<Rightarrow> loop_id" where
  "main_loop w = m_main_loop (server w)"

definition connections :: "('a, 'z) srv_scheme \<Rightarrow> (SocketType \<times> conn_id) list" where
  "connections w = m_connections (server w)"

section \<open>Stopping\<close>

text \<open>
  A loop over the table. Erasing the entry that is being visited invalidates the iterator, which the
  loop then advances: undefined behaviour. Other entries that disappear are skipped.
\<close>

fun walk_connections ::
  "(conn_id \<Rightarrow> ('a, 'z) srv_scheme \<Rightarrow> ('a, 'z) srv_scheme result) \<Rightarrow> SocketType list \<Rightarrow>
   ('a, 'z) srv_scheme \<Rightarrow> ('a, 'z) srv_scheme result" where
  "walk_connections f [] w = Inr w"
| "walk_connections f (fd # fds) w =
     (case map_of (connections w) fd of
        None \<Rightarrow> walk_connections f fds w
      | Some c \<Rightarrow>
          rbind (f c w) (\<lambda>w.
          if map_of (connections w) fd = None then Inl UndefinedBehaviour
          else walk_connections f fds w))"

definition for_connections ::
  "(conn_id \<Rightarrow> ('a, 'z) srv_scheme \<Rightarrow> ('a, 'z) srv_scheme result) \<Rightarrow>
   ('a, 'z) srv_scheme \<Rightarrow> ('a, 'z) srv_scheme result" where
  "for_connections f w = walk_connections f (map fst (connections w)) w"

definition destroy_in_loop :: "conn_id \<Rightarrow> ('a, 'z) srv_scheme \<Rightarrow> ('a, 'z) srv_scheme result" where
  "destroy_in_loop c w = RunInLoop (\<lambda>_. ConnectDestroyed c) (m_loop (conns w c)) (DoConnectDestroyed c) w"

definition cancel_if_set ::
  "('a server \<Rightarrow> TimerId) \<Rightarrow> ('a server \<Rightarrow> 'a server) \<Rightarrow> ('a, 'z) srv_scheme \<Rightarrow> ('a, 'z) srv_scheme" where
  "cancel_if_set get clear w =
     (if get (server w) \<noteq> 0 then upd_server clear (snd (Cancel (main_loop w) (get (server w)) w)) else w)"

definition cancel_timers :: "('a, 'z) srv_scheme \<Rightarrow> ('a, 'z) srv_scheme" where
  "cancel_timers w =
     cancel_if_set m_metrics_export_timer_id (\<lambda>s. s\<lparr>m_metrics_export_timer_id := 0\<rparr>)
     (cancel_if_set m_idle_scan_timer_id (\<lambda>s. s\<lparr>m_idle_scan_timer_id := 0\<rparr>)
     (cancel_if_set m_shutdown_deadline_timer_id (\<lambda>s. s\<lparr>m_shutdown_deadline_timer_id := 0\<rparr>)
     (cancel_if_set m_shutdown_check_timer_id (\<lambda>s. s\<lparr>m_shutdown_check_timer_id := 0\<rparr>) w)))"

text \<open>The end of \<open>FinalizeGracefulStop\<close>, once nothing is left to wait for.\<close>

definition finish_stop ::
  "('a, ('a, 'z) srv_scheme) server_user \<Rightarrow> ('a, 'z) srv_scheme \<Rightarrow> ('a, 'z) srv_scheme result" where
  "finish_stop U w =
     (let w = upd_server (\<lambda>s. s\<lparr>m_started := False, m_stopping := False\<rparr>) (cancel_timers w) in
      case m_shutdown_complete_callback (server w) of
        None \<Rightarrow> Inr w
      | Some cb \<Rightarrow> on_call U cb (upd_server (\<lambda>s. s\<lparr>m_shutdown_complete_callback := None\<rparr>) w))"

text \<open>\<open>force\<close> is \<open>TcpConnection::ForceClose\<close>; without \<open>force_close\<close> it is not called.\<close>

definition FinalizeGracefulStop ::
  "(conn_id \<Rightarrow> ('a, 'z) srv_scheme \<Rightarrow> ('a, 'z) srv_scheme result) \<Rightarrow>
   ('a, ('a, 'z) srv_scheme) server_user \<Rightarrow> bool \<Rightarrow> ('a, 'z) srv_scheme \<Rightarrow> ('a, 'z) srv_scheme result" where
  "FinalizeGracefulStop force U force_close w =
     rbind (AssertInLoopThread (main_loop w) w) (\<lambda>_.
     if \<not> m_stopping (server w) then Inr w
     else
       let stale = filter (\<lambda>(fd, c). \<not> IsConnected c w) (connections w);
           w = upd_server (\<lambda>s. s\<lparr>m_connections := filter (\<lambda>(fd, c). IsConnected c w) (m_connections s)\<rparr>) w in
       rbind (rfold (\<lambda>(fd, c). destroy_in_loop c) stale w) (\<lambda>w.
       if force_close then
         rbind (for_connections force w) (\<lambda>w.
         if connections w \<noteq> [] then Inr w else finish_stop U w)
       else finish_stop U w))"

section \<open>Connections\<close>

text \<open>The closure \<open>HandleRemoveConnection\<close> runs in the main loop.\<close>

definition remove_connection ::
  "('a, ('a, 'z) srv_scheme) server_user \<Rightarrow> conn_id \<Rightarrow> ('a, 'z) srv_scheme \<Rightarrow> ('a, 'z) srv_scheme result" where
  "remove_connection U c w =
     rbind (AssertInLoopThread (main_loop w) w) (\<lambda>_.
     let fd = GetFd c w in
     if map_of (connections w) fd = None then Inr w
     else
       let w = upd_server (\<lambda>s. s\<lparr>m_connections := AList.delete fd (m_connections s),
                 m_closed_connections := m_closed_connections s + 1\<rparr>) w in
       rbind (destroy_in_loop c w) (\<lambda>w.
       if m_stopping (server w) \<and> connections w = []
       then FinalizeGracefulStop (\<lambda>_. Inr) U False w
       else Inr w))"

definition HandleRemoveConnection ::
  "('a, ('a, 'z) srv_scheme) server_user \<Rightarrow> conn_id \<Rightarrow> ('a, 'z) srv_scheme \<Rightarrow> ('a, 'z) srv_scheme result" where
  "HandleRemoveConnection U c w = RunInLoop (\<lambda>_. remove_connection U c) (main_loop w) (DoRemoveConnection c) w"

text \<open>The callbacks of the server's connections.\<close>

definition high_water ::
  "('a, ('a, 'z) srv_scheme) server_user \<Rightarrow> conn_id \<Rightarrow> size_t \<Rightarrow> ('a, 'z) srv_scheme \<Rightarrow> ('a, 'z) srv_scheme result" where
  "high_water U c bytes w =
     (let w = upd_server (\<lambda>s. s\<lparr>m_high_water_mark_triggered := m_high_water_mark_triggered s + 1\<rparr>) w in
      invoke (\<lambda>u c. on_high_water U u c bytes) (m_srv_high_water_mark_callback (server w)) c w)"

definition server_exec ::
  "('a, ('a, 'z) srv_scheme) server_user \<Rightarrow> ('a server_cb, ('a, 'z) srv_scheme) exec" where
  "server_exec U =
     \<lparr>on_connection = \<lambda>u c w. case u of UserCb a \<Rightarrow> on_connection U a c w | _ \<Rightarrow> Inr w,
      on_message = \<lambda>u c w. case u of UserCb a \<Rightarrow> on_message U a c w | _ \<Rightarrow> Inr w,
      on_write_complete = \<lambda>u c w. case u of UserCb a \<Rightarrow> on_write_complete U a c w | _ \<Rightarrow> Inr w,
      on_close = \<lambda>u c w. case u of RemoveConnection \<Rightarrow> HandleRemoveConnection U c w
        | UserCb a \<Rightarrow> on_close U a c w | _ \<Rightarrow> Inr w,
      on_high_water = \<lambda>u c n w. case u of HighWater \<Rightarrow> high_water U c n w
        | UserCb a \<Rightarrow> on_high_water U a c n w | _ \<Rightarrow> Inr w\<rparr>"

definition NextLoop :: "('a, 'z) srv_scheme \<Rightarrow> (loop_id \<times> ('a, 'z) srv_scheme) result" where
  "NextLoop w =
     (let s = server w in
      if m_thread_num s = 0 then Inr (m_main_loop s, w)
      else
        let idx = m_next_loop_idx s mod m_thread_num s;
            w = upd_server (\<lambda>s. s\<lparr>m_next_loop_idx := m_next_loop_idx s + 1\<rparr>) w
        in if unat idx < length (m_sub_loops s) then Inr (m_sub_loops s ! unat idx, w)
           else Inl UndefinedBehaviour)"

text \<open>The new connection \<open>HandleNewConnection\<close> builds, with its callbacks, entered in the table.\<close>

definition add_connection ::
  "env \<Rightarrow> loop_id \<Rightarrow> SocketType \<Rightarrow> Address \<Rightarrow> ('a, 'z) srv_scheme \<Rightarrow> conn_id \<times> ('a, 'z) srv_scheme" where
  "add_connection e io_loop client_socket client_addr w =
     (let conn_name = ''Conn-'' @ Address_ToString (host e) client_addr @ ''-'' @ to_string client_socket;
          c = next_obj w;
          s = server w;
          w = TcpConnection c io_loop conn_name client_socket client_addr c (w\<lparr>next_obj := Suc c\<rparr>);
          w = upd_server (\<lambda>s. s\<lparr>m_total_connections := m_total_connections s + 1\<rparr>) w;
          w = SetConnectionCallback_conn c (map_option UserCb (m_srv_connection_callback s)) w;
          w = SetMessageCallback_conn c (map_option UserCb (m_srv_message_callback s)) w;
          w = SetWriteCompleteCallback_conn c (map_option UserCb (m_srv_write_complete_callback s)) w;
          w = SetHighWaterMarkCallback_conn c (m_high_water_mark_bytes s) (Some HighWater) w;
          w = SetCloseCallback_conn c (Some RemoveConnection) w;
          w = upd_server (\<lambda>s. s\<lparr>m_connections := AList.update (GetFd c w) c (m_connections s)\<rparr>) w
      in (c, w))"

definition HandleNewConnection ::
  "env \<Rightarrow> ('a, ('a, 'z) srv_scheme) server_user \<Rightarrow> SocketType \<Rightarrow> Address \<Rightarrow>
   ('a, 'z) srv_scheme \<Rightarrow> ('a, 'z) srv_scheme result" where
  "HandleNewConnection e U client_socket client_addr w =
     rbind (AssertInLoopThread (main_loop w) w) (\<lambda>_.
     if m_stopping (server w) then Inr (w\<lparr>closes := closes w @ [client_socket]\<rparr>)
     else
       rbind (NextLoop w) (\<lambda>(io_loop, w).
       let (c, w) = add_connection e io_loop client_socket client_addr w in
       RunInLoop (\<lambda>_. ConnectEstablished (server_exec U) c) io_loop (DoConnectEstablished c) w))"

section \<open>The interface of the server\<close>

definition SetConnectionCallback_srv :: "'a option \<Rightarrow> ('a, 'z) srv_scheme \<Rightarrow> ('a, 'z) srv_scheme" where
  "SetConnectionCallback_srv cb = upd_server (\<lambda>s. s\<lparr>m_srv_connection_callback := cb\<rparr>)"

definition SetMessageCallback_srv :: "'a option \<Rightarrow> ('a, 'z) srv_scheme \<Rightarrow> ('a, 'z) srv_scheme" where
  "SetMessageCallback_srv cb = upd_server (\<lambda>s. s\<lparr>m_srv_message_callback := cb\<rparr>)"

definition SetWriteCompleteCallback_srv :: "'a option \<Rightarrow> ('a, 'z) srv_scheme \<Rightarrow> ('a, 'z) srv_scheme" where
  "SetWriteCompleteCallback_srv cb = upd_server (\<lambda>s. s\<lparr>m_srv_write_complete_callback := cb\<rparr>)"

definition SetHighWaterMarkBytes :: "size_t \<Rightarrow> ('a, 'z) srv_scheme \<Rightarrow> ('a, 'z) srv_scheme" where
  "SetHighWaterMarkBytes bytes = upd_server (\<lambda>s. s\<lparr>m_high_water_mark_bytes := max bytes 1\<rparr>)"

definition SetHighWaterMarkCallback_srv :: "'a option \<Rightarrow> ('a, 'z) srv_scheme \<Rightarrow> ('a, 'z) srv_scheme" where
  "SetHighWaterMarkCallback_srv cb = upd_server (\<lambda>s. s\<lparr>m_srv_high_water_mark_callback := cb\<rparr>)"

definition SetIdleTimeoutSeconds :: "int \<Rightarrow> ('a, 'z) srv_scheme \<Rightarrow> ('a, 'z) srv_scheme" where
  "SetIdleTimeoutSeconds seconds = upd_server (\<lambda>s. s\<lparr>m_idle_timeout_seconds := max seconds 0\<rparr>)"

definition EnablePrometheusMetricsExport :: "string \<Rightarrow> int \<Rightarrow> ('a, 'z) srv_scheme \<Rightarrow> ('a, 'z) srv_scheme" where
  "EnablePrometheusMetricsExport file_path interval_seconds =
     upd_server (\<lambda>s. s\<lparr>m_metrics_export_enabled := True, m_metrics_export_path := file_path,
       m_metrics_export_interval_seconds := max interval_seconds 1\<rparr>)"

definition show_uint64 :: "uint64 \<Rightarrow> string" where
  "show_uint64 x = nat_to_string (unat x)"

definition show_bool :: "bool \<Rightarrow> string" where
  "show_bool b = (if b then ''1'' else ''0'')"

definition GetStats :: "('a, 'z) srv_scheme \<Rightarrow> string" where
  "GetStats w =
     (let s = server w in
      ''total_connections='' @ show_uint64 (m_total_connections s)
      @ '', closed_connections='' @ show_uint64 (m_closed_connections s)
      @ '', active_connections='' @ nat_to_string (length (m_connections s))
      @ '', idle_timeout_seconds='' @ to_string (m_idle_timeout_seconds s)
      @ '', stopping='' @ show_bool (m_stopping s)
      @ '', high_water_mark_triggered='' @ show_uint64 (m_high_water_mark_triggered s))"

definition newline :: string where
  "newline = [char_of (10 :: nat)]"

definition metric :: "string \<Rightarrow> string \<Rightarrow> string \<Rightarrow> string \<Rightarrow> string" where
  "metric name kind help value =
     ''# HELP '' @ name @ '' '' @ help @ newline @ ''# TYPE '' @ name @ '' '' @ kind @ newline
     @ name @ '' '' @ value @ newline"

definition sum_connections :: "(conn_id \<Rightarrow> ('a, 'z) srv_scheme \<Rightarrow> uint64) \<Rightarrow> ('a, 'z) srv_scheme \<Rightarrow> uint64" where
  "sum_connections f w = fold (\<lambda>(fd, c) total. total + f c w) (connections w) 0"

definition GetPrometheusMetrics :: "env \<Rightarrow> ('a, 'z) srv_scheme \<Rightarrow> string \<times> ('a, 'z) srv_scheme" where
  "GetPrometheusMetrics e w =
     (let bytes_read_total = sum_connections GetBytesReadTotal w;
          bytes_written_total = sum_connections GetBytesWrittenTotal w;
          pending_write_bytes = sum_connections GetPendingWriteBytes w;
          (uptime, w) = (if m_started (server w)
            then let (now, w) = steady_now (dt e) w in (now - m_start_time (server w), w)
            else (0, w));
          s = server w
      in (metric ''tcframe_connections_total'' ''counter'' ''Total accepted connections''
            (show_uint64 (m_total_connections s))
          @ metric ''tcframe_connections_closed_total'' ''counter'' ''Total closed connections''
            (show_uint64 (m_closed_connections s))
          @ metric ''tcframe_connections_active'' ''gauge'' ''Current active connections''
            (nat_to_string (length (m_connections s)))
          @ metric ''tcframe_server_stopping'' ''gauge'' ''Whether graceful shutdown is in progress''
            (show_bool (m_stopping s))
          @ metric ''tcframe_output_high_watermark_triggered_total'' ''counter'' ''High watermark trigger count''
            (show_uint64 (m_high_water_mark_triggered s))
          @ metric ''tcframe_connection_pending_write_bytes'' ''gauge''
            ''Current pending write bytes on active connections'' (show_uint64 pending_write_bytes)
          @ metric ''tcframe_connection_bytes_read_total'' ''counter''
            ''Total bytes read by active connections'' (show_uint64 bytes_read_total)
          @ metric ''tcframe_connection_bytes_written_total'' ''counter''
            ''Total bytes written by active connections'' (show_uint64 bytes_written_total)
          @ metric ''tcframe_uptime_seconds'' ''gauge'' ''Server uptime seconds'' (show_seconds e uptime),
          w))"

definition ExportPrometheusMetrics :: "env \<Rightarrow> ('a, 'z) srv_scheme \<Rightarrow> ('a, 'z) srv_scheme result" where
  "ExportPrometheusMetrics e w =
     rbind (AssertInLoopThread (main_loop w) w) (\<lambda>_.
     let path = m_metrics_export_path (server w) in
     if \<not> m_metrics_export_enabled (server w) \<or> path = [] then Inr w
     else
       let (payload, w) = GetPrometheusMetrics e w;
           tmp_path = path @ ''.tmp'' in
       if \<not> can_open e tmp_path then Inr w
       else
         let w = w\<lparr>files := (files w)(tmp_path \<mapsto> payload)\<rparr> in
         if \<not> can_rename e tmp_path path then Inr w
         else Inr (w\<lparr>files := ((files w)(path := files w tmp_path))(tmp_path := None)\<rparr>))"

definition idle_connections :: "('a, 'z) srv_scheme \<Rightarrow> conn_id list" where
  "idle_connections w =
     map snd (filter (\<lambda>(fd, c). IsConnected c w \<and>
       m_idle_timeout_seconds (server w) * 1000 \<le> wall_ms w - GetLastActiveMs c w) (connections w))"

definition ScanIdleConnections ::
  "('a, ('a, 'z) srv_scheme) server_user \<Rightarrow> ('a, 'z) srv_scheme \<Rightarrow> ('a, 'z) srv_scheme result" where
  "ScanIdleConnections U w =
     rbind (AssertInLoopThread (main_loop w) w) (\<lambda>_.
     if m_idle_timeout_seconds (server w) \<le> 0 then Inr w
     else rfold (ForceClose (server_exec U)) (idle_connections w) w)"

definition Start ::
  "env \<Rightarrow> ('a, 'z) srv_scheme \<Rightarrow> ('a, 'z) srv_scheme result" where
  "Start e w =
     (if m_started (server w) then Inr w
      else
        let w = upd_server (\<lambda>s. s\<lparr>m_started := True\<rparr>) w in
        rbind (AssertInLoopThread (main_loop w) w) (\<lambda>_.
        let (now, w) = steady_now (dt e) w; w = upd_server (\<lambda>s. s\<lparr>m_start_time := now\<rparr>) w in
        rbind (Listen w) (\<lambda>w.
        let w = (if 0 < m_idle_timeout_seconds (server w)
                 then let (timer, w) = RunEvery (dt e) (main_loop w) 1000 (Some DoScanIdle) w
                      in upd_server (\<lambda>s. s\<lparr>m_idle_scan_timer_id := timer\<rparr>) w
                 else w) in
        if m_metrics_export_enabled (server w) \<and> m_metrics_export_path (server w) \<noteq> [] then
          let (timer, w) = RunEvery (dt e) (main_loop w)
                (max (m_metrics_export_interval_seconds (server w)) 1 * 1000) (Some DoExportMetrics) w
          in ExportPrometheusMetrics e (upd_server (\<lambda>s. s\<lparr>m_metrics_export_timer_id := timer\<rparr>) w)
        else Inr w)))"

text \<open>The timers \<open>StopGracefully\<close> sets, and the part of it that runs in the main loop.\<close>

definition stop_timers :: "env \<Rightarrow> int \<Rightarrow> ('a, 'z) srv_scheme \<Rightarrow> ('a, 'z) srv_scheme" where
  "stop_timers e timeout_ms w =
     (let w = (if m_shutdown_check_timer_id (server w) = 0
               then let (timer, w) = RunEvery (dt e) (main_loop w) 100 (Some DoShutdownCheck) w
                    in upd_server (\<lambda>s. s\<lparr>m_shutdown_check_timer_id := timer\<rparr>) w
               else w);
          safe_timeout_ms = max timeout_ms 1;
          (timer, w) = RunAfter (dt e) (main_loop w) (via_seconds e safe_timeout_ms) (Some DoShutdownDeadline) w
      in upd_server (\<lambda>s. s\<lparr>m_shutdown_deadline_timer_id := timer\<rparr>) w)"

definition StopGracefully_in_loop ::
  "env \<Rightarrow> ('a, ('a, 'z) srv_scheme) server_user \<Rightarrow> int \<Rightarrow> 'a option \<Rightarrow>
   ('a, 'z) srv_scheme \<Rightarrow> ('a, 'z) srv_scheme result" where
  "StopGracefully_in_loop e U timeout_ms cb w =
     rbind (AssertInLoopThread (main_loop w) w) (\<lambda>_.
     if \<not> m_started (server w) then (case cb of None \<Rightarrow> Inr w | Some f \<Rightarrow> on_call U f w)
     else if m_stopping (server w) then
       (case cb of None \<Rightarrow> Inr w
        | Some f \<Rightarrow> Inr (upd_server (\<lambda>s. s\<lparr>m_shutdown_complete_callback := Some f\<rparr>) w))
     else
       let w = upd_server (\<lambda>s. s\<lparr>m_stopping := True, m_shutdown_complete_callback := cb\<rparr>) w in
       rbind (if IsListening w then Stop w else Inr w) (\<lambda>w.
       rbind (for_connections (Shutdown (server_exec U)) w) (\<lambda>w.
       if connections w = [] then FinalizeGracefulStop (ForceClose (server_exec U)) U False w
       else Inr (stop_timers e timeout_ms w))))"

definition StopGracefully ::
  "env \<Rightarrow> ('a, ('a, 'z) srv_scheme) server_user \<Rightarrow> int \<Rightarrow> 'a option \<Rightarrow>
   ('a, 'z) srv_scheme \<Rightarrow> ('a, 'z) srv_scheme result" where
  "StopGracefully e U timeout_ms cb w =
     (if \<not> IsInLoopThread (main_loop w) w
      then Inr (QueueInLoop (main_loop w) (DoStopGracefully timeout_ms (map_option UserCb cb)) w)
      else StopGracefully_in_loop e U timeout_ms cb w)"

definition shutdown_check ::
  "('a, ('a, 'z) srv_scheme) server_user \<Rightarrow> ('a, 'z) srv_scheme \<Rightarrow> ('a, 'z) srv_scheme result" where
  "shutdown_check U w =
     (if connections w = [] then FinalizeGracefulStop (ForceClose (server_exec U)) U False w else Inr w)"

section \<open>Construction, destruction and the closures of a server program\<close>

text \<open>
  \<open>subs\<close> gives, for each sub loop, its number, its wake-up channel and descriptor and its thread;
  \<open>sockfd\<close> is the listening socket and \<open>ch\<close> its channel.
\<close>

definition TcpServer ::
  "loop_id \<Rightarrow> Address \<Rightarrow> SocketType \<Rightarrow> chan_id \<Rightarrow> (loop_id \<times> chan_id \<times> SocketType \<times> thread_id) list \<Rightarrow>
   ('a, 'z) srv_scheme \<Rightarrow> ('a, 'z) srv_scheme result" where
  "TcpServer main listen_addr sockfd ch subs w =
     (let w = w\<lparr>server := \<lparr>m_main_loop = main, m_listen_addr = listen_addr, m_thread_num = of_nat (length subs),
            m_sub_loops = map fst subs, m_connections = [], m_srv_connection_callback = None,
            m_srv_message_callback = None, m_srv_write_complete_callback = None,
            m_srv_high_water_mark_callback = None, m_next_loop_idx = 0, m_started = False, m_stopping = False,
            m_idle_timeout_seconds = 0, m_idle_scan_timer_id = 0, m_shutdown_check_timer_id = 0,
            m_shutdown_deadline_timer_id = 0, m_total_connections = 0, m_closed_connections = 0,
            m_high_water_mark_triggered = 0, m_high_water_mark_bytes = 1024 * 1024,
            m_shutdown_complete_callback = None, m_metrics_export_enabled = False, m_metrics_export_path = [],
            m_metrics_export_interval_seconds = 5, m_metrics_export_timer_id = 0, m_start_time = 0\<rparr>\<rparr>
      in rfold (\<lambda>(l, wch, efd, tid). EventLoop l wch efd (WakeupRead l) (Some tid)) subs
           (Acceptor main sockfd ch w))"

text \<open>The destructor up to the joining of the threads.\<close>

definition destroy_TcpServer ::
  "('a, ('a, 'z) srv_scheme) server_user \<Rightarrow> ('a, 'z) srv_scheme \<Rightarrow> ('a, 'z) srv_scheme result" where
  "destroy_TcpServer U w =
     (let w = cancel_if_set m_idle_scan_timer_id (\<lambda>s. s\<lparr>m_idle_scan_timer_id := 0\<rparr>) w;
          w = cancel_if_set m_shutdown_check_timer_id (\<lambda>s. s\<lparr>m_shutdown_check_timer_id := 0\<rparr>) w;
          w = cancel_if_set m_shutdown_deadline_timer_id (\<lambda>s. s\<lparr>m_shutdown_deadline_timer_id := 0\<rparr>) w;
          w = cancel_if_set m_metrics_export_timer_id (\<lambda>s. s\<lparr>m_metrics_export_timer_id := 0\<rparr>) w;
          w = upd_server (\<lambda>s. s\<lparr>m_stopping := True\<rparr>) w in
      rbind (if IsListening w then RunInLoop (\<lambda>_. Stop) (main_loop w) DoStopAcceptor w else Inr w) (\<lambda>w.
      rbind (for_connections (ForceClose (server_exec U)) w) (\<lambda>w.
      Inr (upd_server (\<lambda>s. s\<lparr>m_connections := []\<rparr>) (fold Quit (m_sub_loops (server w)) w)))))"

definition run_server ::
  "env \<Rightarrow> ('a, ('a, 'z) srv_scheme) server_user \<Rightarrow> 'a server_cb closure \<Rightarrow>
   ('a, 'z) srv_scheme \<Rightarrow> ('a, 'z) srv_scheme result" where
  "run_server e U = run_conn (server_exec U) (\<lambda>f w.
     case f of
       OnAccept \<Rightarrow> HandleAccept (Some (HandleNewConnection e U)) w
     | DoStopAcceptor \<Rightarrow> Stop w
     | DoRemoveConnection c \<Rightarrow> remove_connection U c w
     | DoStopGracefully timeout_ms cb \<Rightarrow>
         StopGracefully e U timeout_ms (case cb of Some (UserCb a) \<Rightarrow> Some a | _ \<Rightarrow> None) w
     | DoScanIdle \<Rightarrow> ScanIdleConnections U w
     | DoShutdownCheck \<Rightarrow> shutdown_check U w
     | DoShutdownDeadline \<Rightarrow> FinalizeGracefulStop (ForceClose (server_exec U)) U True w
     | DoExportMetrics \<Rightarrow> ExportPrometheusMetrics e w
     | User (UserCb a) \<Rightarrow> on_call U a w
     | _ \<Rightarrow> Inr w)"

end
