(* ===== verification/Connection_Frame.thy ===== *)
theory Connection_Frame
  imports Tcp_Connection
begin

text \<open>
  What the operations of connections mean for a program that extends their state with its own: they
  reach that state through callbacks only. A relation \<open>R\<close> between states that holds when the
  extension is unchanged, is transitive, and is respected by the callbacks, is respected by every
  operation. Clients instantiate \<open>R\<close> with the preservation of their own invariants.
\<close>

section \<open>Results that respect a relation\<close>

definition leads :: "('w \<Rightarrow> 'w \<Rightarrow> bool) \<Rightarrow> 'w \<Rightarrow> 'w result \<Rightarrow> bool" where
  "leads R w r \<longleftrightarrow> (\<forall>w'. r = Inr w' \<longrightarrow> R w w')"

named_theorems leads_intros \<open>rules that take the proof of \<open>leads\<close> through a program\<close>

lemma leads_Inr [leads_intros]: "R w0 w \<Longrightarrow> leads R w0 (Inr w)"
  by (simp add: leads_def)

lemma leads_Inl [leads_intros]: "leads R w0 (Inl e)"
  by (simp add: leads_def)

lemma leads_rbind: "leads R w0 r \<Longrightarrow> (\<And>w. R w0 w \<Longrightarrow> leads R w0 (f w)) \<Longrightarrow> leads R w0 (rbind r f)"
  by (auto simp: leads_def rbind_eq_Inr_iff)

lemma leads_check [leads_intros]:
  "(r = Inr () \<Longrightarrow> leads R w0 (f ())) \<Longrightarrow> leads R w0 (rbind (r :: unit result) f)"
  by (auto simp: leads_def rbind_eq_Inr_iff)

text \<open>The calls that give something other than a state: buffers and bytes.\<close>

lemma leads_buffer:
  "(\<And>n saved b. r = Inr (n, saved, b) \<Longrightarrow> leads R w0 (f n saved b)) \<Longrightarrow>
   leads R w0 (rbind (r :: (ssize_t \<times> errno option \<times> buffer) result) (\<lambda>(n, saved, b). f n saved b))"
  by (auto simp: leads_def rbind_eq_Inr_iff)

lemma leads_buffer1: "(\<And>b. r = Inr b \<Longrightarrow> leads R w0 (f b)) \<Longrightarrow> leads R w0 (rbind (r :: buffer result) f)"
  by (auto simp: leads_def rbind_eq_Inr_iff)

lemma leads_text: "(\<And>b. r = Inr b \<Longrightarrow> leads R w0 (f b)) \<Longrightarrow> leads R w0 (rbind (r :: string result) f)"
  by (auto simp: leads_def rbind_eq_Inr_iff)

lemma leads_if [leads_intros]: "(b \<Longrightarrow> leads R w0 r) \<Longrightarrow> (\<not> b \<Longrightarrow> leads R w0 s) \<Longrightarrow> leads R w0 (if b then r else s)"
  by simp

lemma leads_option [leads_intros]:
  "(x = None \<Longrightarrow> leads R w0 r) \<Longrightarrow> (\<And>y. x = Some y \<Longrightarrow> leads R w0 (s y)) \<Longrightarrow>
   leads R w0 (case x of None \<Rightarrow> r | Some y \<Rightarrow> s y)"
  by (cases x) auto

lemma leads_rfold:
  assumes "\<And>x w. x \<in> set xs \<Longrightarrow> R w0 w \<Longrightarrow> leads R w0 (f x w)" and "R w0 w"
  shows "leads R w0 (rfold f xs w)"
  using assms
proof (induction xs arbitrary: w)
  case Nil
  then show ?case by (simp add: leads_Inr)
next
  case (Cons x xs)
  have "leads R w0 (rfold f xs w')" if "R w0 w'" for w' using Cons.IH [OF _ that] Cons.prems(1) by auto
  then show ?case using Cons.prems by (auto intro: leads_rbind)
qed

section \<open>The extension of the state\<close>

lemma more_simps [simp]:
  fixes w :: "('u, 'z) net_scheme"
  shows "net.more (RefreshActiveTime c w) = net.more w"
    "net.more (Socket_Close c w) = net.more w" "net.more (QueueInLoop l cb w) = net.more w"
    "net.more (HandleWakeupRead l w) = net.more w"
  by (simp_all add: RefreshActiveTime_def Socket_Close_def Let_def
      QueueInLoop_def wake_if_needed_def Wakeup_def push_functor_def HandleWakeupRead_eq)

lemma more_sys:
  fixes w :: "('u, 'z) net_scheme"
  shows "sys_readv fd cap w = (rv, w') \<Longrightarrow> net.more w' = net.more w"
    "write_out c w = (wv, w') \<Longrightarrow> net.more w' = net.more w"
  by (auto simp: sys_readv_def write_out_def sys_write_def Let_def split: list.splits sum.splits if_splits)

lemma more_masked:
  fixes w :: "('u, 'z) net_scheme"
  shows "masked ch f w w' \<Longrightarrow> net.more w' = net.more w"
  by (auto simp: masked_def)

locale frame_env =
  fixes E :: "('u, ('u, 'z) net_scheme) exec" and R :: "('u, 'z) net_scheme \<Rightarrow> ('u, 'z) net_scheme \<Rightarrow> bool"
  assumes frame: "net.more w' = net.more w \<Longrightarrow> R w w'"
    and trans: "R u v \<Longrightarrow> R v w \<Longrightarrow> R u w"
    and on_connection_leads: "R w0 w \<Longrightarrow> leads R w0 (on_connection E cb c w)"
    and on_message_leads: "R w0 w \<Longrightarrow> leads R w0 (on_message E cb c w)"
    and on_write_complete_leads: "R w0 w \<Longrightarrow> leads R w0 (on_write_complete E cb c w)"
    and on_close_leads: "R w0 w \<Longrightarrow> leads R w0 (on_close E cb c w)"
    and on_high_water_leads: "R w0 w \<Longrightarrow> leads R w0 (on_high_water E cb c n w)"
begin

lemma refl [simp]: "R w w"
  by (rule frame) simp

lemma same: "R w0 w \<Longrightarrow> net.more w' = net.more w \<Longrightarrow> R w0 w'"
  using trans frame by blast

lemma updates [leads_intros]:
  assumes "R w0 w"
  shows "R w0 (upd_conn c f w)" "R w0 (upd_channel ch g w)" "R w0 (upd_loop l h w)" "R w0 (RefreshActiveTime c w)"
    "R w0 (Socket_Close c w)" "R w0 (QueueInLoop l k w)" "R w0 (HandleWakeupRead l w)"
    "R w0 (w\<lparr>notified := n\<rparr>)" "R w0 (w\<lparr>accepted := a\<rparr>)" "R w0 (w\<lparr>sent := b\<rparr>)" "R w0 (w\<lparr>inbox := i\<rparr>)"
    "R w0 (w\<lparr>outbox := ob\<rparr>)" "R w0 (w\<lparr>closes := cl\<rparr>)"
  using same [OF assms] by simp_all

lemma masked_leads:
  assumes "R w0 w" and "\<And>w'. r = Inr w' \<Longrightarrow> masked ch f w w'"
  shows "leads R w0 r"
  unfolding leads_def using same [OF assms(1) more_masked [OF assms(2)]] by simp

lemma channel_leads [leads_intros]:
  assumes "R w0 w"
  shows "leads R w0 (EnableReading ch w)" "leads R w0 (DisableReading ch w)" "leads R w0 (EnableWriting ch w)"
    "leads R w0 (DisableWriting ch w)" "leads R w0 (DisableAll ch w)" "leads R w0 (RemoveChannel l ch w)"
  by (rule masked_leads [OF assms mask_ops(1)], assumption)
    (rule masked_leads [OF assms mask_ops(2)], assumption, rule masked_leads [OF assms mask_ops(3)], assumption,
     rule masked_leads [OF assms mask_ops(4)], assumption, rule masked_leads [OF assms mask_ops(5)], assumption,
     rule masked_leads [OF assms RemoveChannel_masks], assumption)

lemma invoke_leads [leads_intros]:
  assumes "\<And>u. leads R w0 (f u c w)" and "R w0 w"
  shows "leads R w0 (invoke f cb c w)"
  using assms by (auto simp: invoke_def intro: leads_intros)

lemma RunInLoop_leads [leads_intros]:
  assumes "R w0 w" and "leads R w0 (f k w)"
  shows "leads R w0 (RunInLoop f l k w)"
  unfolding RunInLoop_def using assms by (intro leads_intros)

lemma withdraw_channel_leads [leads_intros]: "R w0 w \<Longrightarrow> leads R w0 (withdraw_channel c w)"
  unfolding withdraw_channel_def by (intro leads_rbind leads_intros)

lemma notify_close_leads [leads_intros]: "R w0 w \<Longrightarrow> leads R w0 (notify_close E c w)"
  unfolding notify_close_def by (intro leads_intros on_close_leads)

lemma HandleClose_leads [leads_intros]: "R w0 w \<Longrightarrow> leads R w0 (HandleClose E c w)"
  unfolding HandleClose_def Let_def by (intro leads_intros leads_rbind)

lemma HandleError_leads [leads_intros]: "R w0 w \<Longrightarrow> leads R w0 (HandleError E c w)"
  unfolding HandleError_def by (rule HandleClose_leads)

lemma ConnectDestroyed_leads [leads_intros]: "R w0 w \<Longrightarrow> leads R w0 (ConnectDestroyed c w)"
  unfolding ConnectDestroyed_def Let_def by (intro leads_intros leads_rbind)

lemma ConnectEstablished_leads [leads_intros]: "R w0 w \<Longrightarrow> leads R w0 (ConnectEstablished E c w)"
  unfolding ConnectEstablished_def Let_def by (intro leads_intros leads_rbind on_connection_leads)

lemma HandleRead_leads [leads_intros]:
  assumes "R w0 w"
  shows "leads R w0 (HandleRead E c w)"
proof -
  obtain rv w1 where sys: "sys_readv (GetFd c w) (readv_capacity (m_input_buffer (conns w c))) w = (rv, w1)"
    by (cases "sys_readv (GetFd c w) (readv_capacity (m_input_buffer (conns w c))) w")
  have w1: "R w0 w1" using same [OF assms more_sys(1) [OF sys]] .
  show ?thesis
    unfolding HandleRead_def sys prod.case Let_def
    by (intro leads_check leads_buffer leads_if leads_Inr invoke_leads on_message_leads HandleClose_leads updates w1)
qed

lemma wrote_same: "R w0 w \<Longrightarrow> R w0 (wrote c n b w)"
  unfolding wrote_def Let_def by (auto intro: updates)

lemma HandleWrite_leads [leads_intros]:
  assumes "R w0 w"
  shows "leads R w0 (HandleWrite E c w)"
proof -
  obtain wv w1 where sys: "write_out c w = (wv, w1)" by (cases "write_out c w")
  have w1: "R w0 w1" using same [OF assms more_sys(2) [OF sys]] .
  show ?thesis
    unfolding HandleWrite_eq sys prod.case Let_def
    by (intro leads_check leads_buffer leads_if leads_Inr leads_rbind [OF channel_leads(4)]
        leads_rbind [OF invoke_leads] on_write_complete_leads HandleClose_leads wrote_same w1 assms)
qed

lemma ShutdownInLoop_leads [leads_intros]: "R w0 w \<Longrightarrow> leads R w0 (ShutdownInLoop E c w)"
  unfolding ShutdownInLoop_def by (intro leads_intros)

lemma Shutdown_leads [leads_intros]: "R w0 w \<Longrightarrow> leads R w0 (Shutdown E c w)"
  unfolding Shutdown_def Let_def by (intro leads_intros)

lemma ForceCloseInLoop_leads [leads_intros]: "R w0 w \<Longrightarrow> leads R w0 (ForceCloseInLoop E c w)"
  unfolding ForceCloseInLoop_def Let_def by (intro leads_intros leads_rbind)

lemma ForceClose_leads [leads_intros]: "R w0 w \<Longrightarrow> leads R w0 (ForceClose E c w)"
  unfolding ForceClose_def Let_def by (intro leads_intros)

lemma SendInLoop_leads [leads_intros]: "R w0 w \<Longrightarrow> leads R w0 (SendInLoop E c data len w)"
  unfolding SendInLoop_def Let_def
  by (intro leads_check leads_buffer1 leads_if leads_Inr leads_rbind invoke_leads on_high_water_leads updates
      channel_leads)

lemma Send_leads [leads_intros]: "R w0 w \<Longrightarrow> leads R w0 (Send E c message w)"
  unfolding Send_def by (intro leads_intros)

lemma Send_bytes_leads [leads_intros]: "R w0 w \<Longrightarrow> leads R w0 (Send_bytes E c data len w)"
  unfolding Send_bytes_def by (intro leads_check leads_if leads_Inr leads_text SendInLoop_leads updates)

lemma run_conn_leads:
  assumes "R w0 w" and "\<And>f. leads R w0 (other f w)"
  shows "leads R w0 (run_conn E other f w)"
  unfolding run_conn_def using assms by (cases f) (auto intro: leads_intros)

end

end
