(* ===== verification/Connection_Properties.thy ===== *)
theory Connection_Properties
  imports Tcp_Connection
begin

text \<open>
  What the invariant of \<open>Tcp_Connection\<close> gives for the users of a connection: bytes leave in the
  order in which they were accepted, output never stalls, the close callback is called at most
  once, and the behaviour of the single handlers, including the ways of closing a connection that
  do not do what their comments say.
\<close>

section \<open>Fresh connections and runs\<close>

lemma wf_fresh_buffer [simp]: "wf_buffer (Buffer kInitialSize)" "content (Buffer kInitialSize) = []"
  by (simp_all add: kInitialSize_def wf_Buffer max_size_def content_Buffer)

lemma TcpConnection_ok:
  assumes ok: "net_ok {} C w" and c: "c \<notin> C" and ch: "\<And>d. d \<in> C \<Longrightarrow> m_channel (conns w d) \<noteq> ch"
    and new: "c \<notin> set (notified w)"
  shows "net_ok {} (insert c C) (TcpConnection c l name sock peer ch w)"
proof -
  let ?w = "TcpConnection c l name sock peer ch w"
  have cn: "conns ?w d = conns w d" "channels ?w (m_channel (conns w d)) = channels w (m_channel (conns w d))"
    "sent ?w d = sent w d" "accepted ?w d = accepted w d" if "d \<in> C" for d
    using that c ch [OF that] by (auto simp: TcpConnection_def RefreshActiveTime_def Let_def)
  have n: "notified ?w = notified w"
    by (simp add: TcpConnection_def RefreshActiveTime_def Let_def)
  have "conn_ok False d ?w" if "d \<in> C" for d
    using ok that cn [OF that] n by (simp add: net_ok_def conn_ok_def)
  moreover have "ReadableBytes (Buffer kInitialSize) = 0"
    using unat_ReadableBytes [OF wf_fresh_buffer(1)] by (simp add: unat_eq_zero)
  then have "conn_ok False c ?w"
    using new
    by (simp add: conn_ok_def TcpConnection_def RefreshActiveTime_def Let_def count_notin Channel_def
        SetReadCallback_def SetWriteCallback_def SetCloseCallback_def SetErrorCallback_def
        legal_events_def kNoneEvent_def)
  moreover have "m_channel (conns ?w c) = ch"
    by (simp add: TcpConnection_def RefreshActiveTime_def Let_def)
  then have "inj_on (\<lambda>c. m_channel (conns ?w c)) (insert c C)"
    using ok ch cn(1) c by (auto simp: net_ok_def inj_on_def)
  ultimately show ?thesis by (simp add: net_ok_def)
qed

lemma rfold_activity:
  assumes "rfold (\<lambda>(c, a). do_action E c a) as w = Inr w'" and "\<forall>(c, a) \<in> set as. c \<in> C"
  shows "activity E C w w'"
  by (rule rfold_invariant [OF assms(1), where I = "activity E C w"])
    (use assms(2) in \<open>auto intro: activity_start activity_action\<close>)

text \<open>Callbacks that only write to the log, like most of those \<open>main.cpp\<close> installs.\<close>

definition log_only :: "('u, ('u, 'z) net_scheme) exec" where
  "log_only = \<lparr>on_connection = \<lambda>u c w. Inr w, on_message = \<lambda>u c w. Inr w,
     on_write_complete = \<lambda>u c w. Inr w, on_close = \<lambda>u c w. Inr w, on_high_water = \<lambda>u c n w. Inr w\<rparr>"

lemma log_only_env: "callback_env log_only J C"
  by unfold_locales (auto simp: log_only_def)

text \<open>A program with one loop, run by thread 1, and one connection on descriptor 7.\<close>

definition blank_conn :: "'u conn" where
  "blank_conn = \<lparr>m_loop = 0, m_name = [], m_socket = - 1, m_peer_addr = Address_default, m_channel = 0, m_context = None,
     m_last_active_ms = 0, m_state = Disconnected, m_input_buffer = Buffer 0, m_output_buffer = Buffer 0,
     m_pending_write_bytes = 0, m_total_bytes_read = 0, m_total_bytes_written = 0, m_connection_callback = None,
     m_message_callback = None, m_write_complete_callback = None, m_conn_close_callback = None,
     m_high_water_mark = 0, m_high_water_mark_callback = None\<rparr>"

definition example_net :: "'u net" where
  "example_net = world.extend example_world
     \<lparr>conns = \<lambda>_. blank_conn, inbox = \<lambda>_. [], outbox = \<lambda>_. [], sent = \<lambda>_. [], closes = [], wall_ms = 1000,
      notified = [], accepted = \<lambda>_. []\<rparr>"

definition example_conn :: "'u net" where
  "example_conn = (TcpConnection 0 0 ''c'' 7 Address_default 5 example_net)
     \<lparr>outbox := (\<lambda>_. [])(7 := [Inr 1, Inl EAGAIN, Inr 9])\<rparr>"

lemma example_conn_ok: "net_ok {} {0} (example_conn :: 'u net)"
proof -
  have "net_ok {} {} (example_net :: 'u net)" by (simp add: net_ok_def)
  then have "net_ok {} {0} (TcpConnection 0 0 ''c'' 7 Address_default 5 example_net :: 'u net)"
    using TcpConnection_ok [of "{}" "example_net :: 'u net" 0 5] by (simp add: example_net_def world.defs)
  then show ?thesis by (simp add: example_conn_def net_ok_def conn_ok_def)
qed

definition example_actions :: "(conn_id \<times> conn_action) list" where
  "example_actions = [(0, AEstablish), (0, ASend ''hi''), (0, AWrite)]"

lemma example_run:
  obtains w where "activity log_only {0} (example_conn :: nat net) w"
    and "sent w 0 = ''h''" "content (m_output_buffer (conns w 0)) = ''i''" "m_state (conns w 0) = Connected"
proof -
  have "case rfold (\<lambda>(c, a). do_action log_only c a) example_actions (example_conn :: nat net) of Inl e \<Rightarrow> False
    | Inr w \<Rightarrow> sent w 0 = ''h'' \<and> content (m_output_buffer (conns w 0)) = ''i'' \<and> m_state (conns w 0) = Connected"
    by code_simp
  then obtain w where "rfold (\<lambda>(c, a). do_action log_only c a) example_actions (example_conn :: nat net) = Inr w"
    "sent w 0 = ''h''" "content (m_output_buffer (conns w 0)) = ''i''" "m_state (conns w 0) = Connected"
    by (auto split: sum.splits)
  then show ?thesis using rfold_activity [of log_only example_actions] that by (auto simp: example_actions_def)
qed

section \<open>Properties of every run\<close>

text \<open>C1 (the output stream is intact). Whatever happens to a set of connections, from any threads
  and with any callbacks that keep the invariant of the connections (and some predicate \<open>J\<close> of the rest of
  the program's state, of the caller's choice), the bytes that \<open>write\<close> took from a connection,
  followed by the bytes in its output buffer, are exactly the bytes \<open>Send\<close> was given for it while it
  was connected, each once and in order; and until the connection is closed its counter of pending
  bytes is the number of bytes not yet written.\<close>

theorem connection_stream_intact:
  assumes "callback_env E J C" and "J (chans w0) (net.more w0)" and "net_ok {} C w0" and "activity E C w0 w" and "c \<in> C"
  shows "accepted w c = sent w c @ content (m_output_buffer (conns w c)) \<and>
    (m_state (conns w c) \<noteq> Disconnected \<longrightarrow>
       unat (GetPendingWriteBytes c w) = length (accepted w c) - length (sent w c))"
proof -
  have ok: "conn_ok False c w" using callback_env.activity_ok(1) [OF assms(1,4,3,5,2)] .
  then have wf: "wf_buffer (m_output_buffer (conns w c))"
    and "accepted w c = sent w c @ content (m_output_buffer (conns w c))" by (simp_all add: conn_ok_def)
  moreover have "GetPendingWriteBytes c w = ReadableBytes (m_output_buffer (conns w c))"
    if "m_state (conns w c) \<noteq> Disconnected"
    using ok that by (simp add: conn_ok_def GetPendingWriteBytes_def)
  ultimately show ?thesis by (simp add: unat_ReadableBytes length_content)
qed

theorem connection_stream_intact_witness:
  "\<exists>w. activity log_only {0} (example_conn :: nat net) w \<and> sent w 0 = ''h'' \<and> accepted w 0 = ''hi'' \<and>
     unat (GetPendingWriteBytes 0 w) = 1"
proof -
  obtain w where w: "activity log_only {0} (example_conn :: nat net) w" "sent w 0 = ''h''"
    "content (m_output_buffer (conns w 0)) = ''i''" "m_state (conns w 0) = Connected" by (rule example_run)
  from connection_stream_intact [OF log_only_env [where J = "\<lambda>_ _. True"] TrueI example_conn_ok w(1), of 0] w show ?thesis by auto
qed



text \<open>C12 (output never stalls). Under the same assumptions, between operations a connected connection with
  bytes left to write has its channel asking for write events.\<close>

theorem connection_never_stalls:
  assumes "callback_env E J C" and "J (chans w0) (net.more w0)" and "net_ok {} C w0" and "activity E C w0 w" and "c \<in> C"
    and "IsConnected c w" and "sent w c \<noteq> accepted w c"
  shows "IsWriting Linux (channels w (m_channel (conns w c)))"
  using callback_env.activity_ok(1) [OF assms(1,4,3,5,2)] assms(6,7) by (auto simp: conn_ok_def IsConnected_def)

theorem connection_never_stalls_witness:
  "\<exists>w. activity log_only {0} (example_conn :: nat net) w \<and> accepted w 0 = ''hi'' \<and> sent w 0 = ''h'' \<and>
     IsWriting Linux (channels w (m_channel (conns w 0)))"
proof -
  obtain w where w: "activity log_only {0} (example_conn :: nat net) w" "sent w 0 = ''h''"
    "content (m_output_buffer (conns w 0)) = ''i''" "m_state (conns w 0) = Connected" by (rule example_run)
  have acc: "accepted w 0 = ''hi''"
    using callback_env.activity_ok(1) [OF log_only_env [where J = "\<lambda>_ _. True"] w(1) example_conn_ok] w by (simp add: conn_ok_def)
  from connection_never_stalls [OF log_only_env [where J = "\<lambda>_ _. True"] TrueI example_conn_ok w(1), of 0] w acc show ?thesis
    by (auto simp: IsConnected_def)
qed

section \<open>Writing\<close>

text \<open>What \<open>HandleWrite\<close> does when the kernel takes \<open>k\<close> bytes.\<close>

lemma HandleWrite_takes:
  assumes loop: "IsInLoopThread (m_loop (conns w c)) w" and con: "IsConnected c w"
    and wf: "wf_buffer (m_output_buffer (conns w c))" and ne: "content (m_output_buffer (conns w c)) \<noteq> []"
    and ob: "outbox w (GetFd c w) = Inr k # rest" and k: "0 < k"
  obtains b ms tot w2 where "w2 = upd_conn c (\<lambda>cn. cn\<lparr>m_output_buffer := b, m_total_bytes_written := tot,
        m_pending_write_bytes := ReadableBytes b, m_last_active_ms := ms\<rparr>)
      (w\<lparr>outbox := (outbox w)(GetFd c w := rest),
         sent := (sent w)(c := sent w c @ take k (content (m_output_buffer (conns w c))))\<rparr>)"
    and "wf_buffer b" and "content b = drop k (content (m_output_buffer (conns w c)))"
    and "HandleWrite E c w = (if length (content (m_output_buffer (conns w c))) \<le> k
      then rbind (DisableWriting (m_channel (conns w c)) w2)
        (\<lambda>w. invoke (on_write_complete E) (m_write_complete_callback (conns w c)) c w) else Inr w2)"
proof -
  let ?o = "m_output_buffer (conns w c)" and ?d = "content (m_output_buffer (conns w c))"
  define m where "m = (of_nat (min k (length ?d)) :: size_t)"
  have small: "length ?d \<le> 9223372036854775807" using wf_bounds [OF wf] by (simp add: length_content [OF wf])
  have m: "unat m = min k (length ?d)" unfolding m_def by (rule min_unat_of_nat) (use small in simp)
  have le: "unat m \<le> length ?d" by (simp add: m)
  from WriteToFd_ok [OF wf ne le] obtain b where b: "WriteToFd (Inr m) ?o = Inr (m, None, b)" "wf_buffer b"
    "content b = drop (unat m) ?d" by blast
  have drop: "content b = drop k ?d" unfolding b(3) m by (simp add: min_def)
  have pos: "0 < sint m" using sint_pos_size_t [of m] m le small k ne by simp
  have "ReadableBytes ?o \<noteq> 0" using ne unat_ReadableBytes [OF wf] by auto
  then have out: "write_out c w = (Inr m, w\<lparr>outbox := (outbox w)(GetFd c w := rest),
      sent := (sent w)(c := sent w c @ take k ?d)\<rparr>)"
    using ob by (simp add: write_out_def sys_write_def Let_def m_def)
  define w1 where "w1 = w\<lparr>outbox := (outbox w)(GetFd c w := rest), sent := (sent w)(c := sent w c @ take k ?d)\<rparr>"
  define w2 where "w2 = upd_conn c (\<lambda>cn. cn\<lparr>m_output_buffer := b, m_total_bytes_written := m_total_bytes_written (conns w c) + m,
        m_pending_write_bytes := ReadableBytes b, m_last_active_ms := wall_ms w\<rparr>) w1"
  have w2: "wrote c m b w1 = w2"
    using pos by (simp add: wrote_def w2_def RefreshActiveTime_def w1_def upd_conn_def)
  have fin: "DisableWriting (m_channel (conns w2 c)) w2 = Inr w3 \<Longrightarrow> conns w3 = conns w2" for w3
    using maskedD(1) [OF mask_ops(4)] by blast
  have eq: "HandleWrite E c w = (if length ?d \<le> k
      then rbind (DisableWriting (m_channel (conns w c)) w2)
        (\<lambda>w. invoke (on_write_complete E) (m_write_complete_callback (conns w c)) c w) else Inr w2)"
  proof -
    have st: "m_state (conns w2 c) = Connected" "m_channel (conns w2 c) = m_channel (conns w c)"
      "ReadableBytes (m_output_buffer (conns w2 c)) = 0 \<longleftrightarrow> length ?d \<le> k"
      using con drop unat_ReadableBytes [OF b(2)]
      by (simp_all add: w2_def w1_def IsConnected_def flip: unat_eq_zero)
    have "HandleWrite E c w = (if length ?d \<le> k
      then rbind (DisableWriting (m_channel (conns w2 c)) w2)
        (\<lambda>w. if m_state (conns w c) = Disconnecting then HandleClose E c w
           else rbind (invoke (on_write_complete E) (m_write_complete_callback (conns w c)) c w) Inr) else Inr w2)"
      using loop con pos st(3)
      by (simp add: HandleWrite_eq AssertInLoopThread_def out [folded w1_def] b(1) w2 Let_def cong: if_cong)
    also have "rbind (DisableWriting (m_channel (conns w2 c)) w2)
        (\<lambda>w. if m_state (conns w c) = Disconnecting then HandleClose E c w
           else rbind (invoke (on_write_complete E) (m_write_complete_callback (conns w c)) c w) Inr) =
      rbind (DisableWriting (m_channel (conns w2 c)) w2)
        (\<lambda>w. invoke (on_write_complete E) (m_write_complete_callback (conns w c)) c w)"
      by (rule rbind_cong [OF refl]) (use fin st(1) in \<open>auto simp: rbind_def split: sum.splits\<close>)
    finally show ?thesis by (simp add: st(2))
  qed
  show ?thesis by (rule that [OF w2_def [unfolded w1_def] b(2) drop eq])
qed


text \<open>The channel of a connection belongs to the connection's loop, as the constructor sets it up.\<close>

definition wired :: "conn_id \<Rightarrow> ('u, 'z) net_scheme \<Rightarrow> bool" where
  "wired c w \<longleftrightarrow> IsInLoopThread (m_loop (conns w c)) w \<and>
     m_ownerLoop (channels w (m_channel (conns w c))) = m_loop (conns w c) \<and>
     legal_events Linux (m_events (channels w (m_channel (conns w c))))"

lemma m_ownerLoop_mask [simp]:
  "m_ownerLoop (SetAdded b ch) = m_ownerLoop ch" "m_ownerLoop (events_enable e ch) = m_ownerLoop ch"
  "m_ownerLoop (events_disable e ch) = m_ownerLoop ch"
  by (simp_all add: SetAdded_def events_enable_def events_disable_def)

lemma DisableWriting_wired:
  assumes "wired c w"
  obtains w' where "DisableWriting (m_channel (conns w c)) w = Inr w'" and "conns w' = conns w"
    and "sent w' = sent w" and "outbox w' = outbox w" and "wired c w'"
    and "\<not> IsWriting Linux (channels w' (m_channel (conns w c)))"
proof -
  let ?ch = "m_channel (conns w c)"
  have "IsInLoopThread (m_ownerLoop (channels w ?ch)) (upd_channel ?ch (events_disable (kWriteEvent Linux)) w)"
    using assms by (simp add: wired_def IsInLoopThread_def)
  from UpdateChannel_returns(1) [OF this] obtain w' where w': "DisableWriting ?ch w = Inr w'"
    by (auto simp: DisableWriting_def Let_def)
  note m = maskedD [OF mask_ops(4) [OF w']]
  obtain b where b: "channels w' ?ch = SetAdded b (events_disable (kWriteEvent Linux) (channels w ?ch))"
    using m(11) by blast
  have legal: "legal_events Linux (m_events (channels w ?ch))" using assms by (simp add: wired_def)
  have w: "wired c w'" using assms legal_mask_ops(3) [OF legal] by (simp add: wired_def IsInLoopThread_def m b)
  have "\<not> IsWriting Linux (channels w' ?ch)" using disable_is_cleared(2) [OF legal] by (simp add: b)
  with that w' w m(1,3,7) show ?thesis by blast
qed

text \<open>One write of a connection that installed no write-complete callback.\<close>

lemma HandleWrite_step:
  assumes wired: "wired c w" and con: "IsConnected c w" and cb: "m_write_complete_callback (conns w c) = None"
    and wf: "wf_buffer (m_output_buffer (conns w c))" and ne: "content (m_output_buffer (conns w c)) \<noteq> []"
    and ob: "outbox w (GetFd c w) = Inr k # rest" and k: "0 < k"
  obtains w' where "HandleWrite E c w = Inr w'" and "wired c w'" and "IsConnected c w'"
    and "m_write_complete_callback (conns w' c) = None" and "wf_buffer (m_output_buffer (conns w' c))"
    and "content (m_output_buffer (conns w' c)) = drop k (content (m_output_buffer (conns w c)))"
    and "outbox w' (GetFd c w') = rest" and "sent w' c = sent w c @ take k (content (m_output_buffer (conns w c)))"
    and "length (content (m_output_buffer (conns w c))) \<le> k \<longrightarrow>
      \<not> IsWriting Linux (channels w' (m_channel (conns w' c)))"
proof -
  from wired have loop: "IsInLoopThread (m_loop (conns w c)) w" by (simp add: wired_def)
  obtain b ms tot w2 where w2: "w2 = upd_conn c (\<lambda>cn. cn\<lparr>m_output_buffer := b, m_total_bytes_written := tot,
        m_pending_write_bytes := ReadableBytes b, m_last_active_ms := ms\<rparr>)
      (w\<lparr>outbox := (outbox w)(GetFd c w := rest),
         sent := (sent w)(c := sent w c @ take k (content (m_output_buffer (conns w c))))\<rparr>)"
    and b: "wf_buffer b" "content b = drop k (content (m_output_buffer (conns w c)))"
    and eq: "HandleWrite E c w = (if length (content (m_output_buffer (conns w c))) \<le> k
      then rbind (DisableWriting (m_channel (conns w c)) w2)
        (\<lambda>w. invoke (on_write_complete E) (m_write_complete_callback (conns w c)) c w) else Inr w2)"
    by (rule HandleWrite_takes [OF loop con wf ne ob k])
  have s: "wired c w2" "IsConnected c w2" "m_write_complete_callback (conns w2 c) = None"
    "m_output_buffer (conns w2 c) = b" "outbox w2 (GetFd c w2) = rest" "GetFd c w2 = GetFd c w"
    "m_channel (conns w2 c) = m_channel (conns w c)"
    "sent w2 c = sent w c @ take k (content (m_output_buffer (conns w c)))"
    using wired con cb by (simp_all add: w2 wired_def IsInLoopThread_def IsConnected_def GetFd_def)
  show ?thesis
  proof (cases "length (content (m_output_buffer (conns w c))) \<le> k")
    case False
    then have "HandleWrite E c w = Inr w2" using eq by simp
    then show ?thesis by (rule that [of w2]) (use False s b in simp_all)
  next
    case True
    obtain w3 where dis: "DisableWriting (m_channel (conns w2 c)) w2 = Inr w3" and *: "conns w3 = conns w2" "sent w3 = sent w2"
      "outbox w3 = outbox w2" "wired c w3" "\<not> IsWriting Linux (channels w3 (m_channel (conns w2 c)))"
      by (rule DisableWriting_wired [OF s(1)])
    have "HandleWrite E c w = Inr w3" using True eq dis s(3,7) *(1) by (simp add: invoke_def)
    moreover have "IsConnected c w3" "GetFd c w3 = GetFd c w2" using s(2) *(1) by (simp_all add: IsConnected_def GetFd_def)
    ultimately show ?thesis using s b * by (intro that [of w3]) simp_all
  qed
qed


definition drain_example :: "nat net" where
  "drain_example = (case rfold (\<lambda>(c, a). do_action log_only c a) [(0, AEstablish), (0, ASend ''abc'')] example_conn of
     Inl e \<Rightarrow> example_conn | Inr w \<Rightarrow> w\<lparr>outbox := (\<lambda>_. [])(7 := [Inr 1, Inr 1, Inr 1])\<rparr>)"

lemma drain_example_facts:
  "wired 0 drain_example" "IsConnected 0 drain_example" "m_write_complete_callback (conns drain_example 0) = None"
  "content (m_output_buffer (conns drain_example 0)) = ''abc''" "outbox drain_example (GetFd 0 drain_example) = map Inr [1, 1, 1]"
  "sent drain_example 0 = []"
  by code_simp+

lemma drain_example_wf: "wf_buffer (m_output_buffer (conns drain_example 0))"
proof -
  let ?run = "rfold (\<lambda>(c, a). do_action log_only c a) [(0, AEstablish), (0, ASend ''abc'')] (example_conn :: nat net)"
  have "case ?run of Inl e \<Rightarrow> False | Inr w \<Rightarrow> True" by code_simp
  then obtain w where w: "?run = Inr w" by (cases ?run) simp_all
  then have "activity log_only {0} (example_conn :: nat net) w" using rfold_activity by fastforce
  from callback_env.activity_ok(1) [OF log_only_env [where J = "\<lambda>_ _. True"] this example_conn_ok] show ?thesis
    unfolding drain_example_def w by (simp add: conn_ok_def)
qed


section \<open>Closing\<close>

lemma EnableWriting_wired:
  assumes "wired c w"
  obtains w' where "EnableWriting (m_channel (conns w c)) w = Inr w'" and "conns w' = conns w"
    and "sent w' = sent w" and "wired c w'" and "IsWriting Linux (channels w' (m_channel (conns w c)))"
proof -
  let ?ch = "m_channel (conns w c)"
  have "IsInLoopThread (m_ownerLoop (channels w ?ch)) (upd_channel ?ch (events_enable (kWriteEvent Linux)) w)"
    using assms by (simp add: wired_def IsInLoopThread_def)
  from UpdateChannel_returns(1) [OF this] obtain w' where w': "EnableWriting ?ch w = Inr w'"
    by (auto simp: EnableWriting_def Let_def)
  note m = maskedD [OF mask_ops(3) [OF w']]
  obtain b where b: "channels w' ?ch = SetAdded b (events_enable (kWriteEvent Linux) (channels w ?ch))"
    using m(11) by blast
  have legal: "legal_events Linux (m_events (channels w ?ch))" using assms by (simp add: wired_def)
  have w: "wired c w'" using assms legal_mask_ops(2) [OF legal] by (simp add: wired_def IsInLoopThread_def m b)
  have "IsWriting Linux (channels w' ?ch)" using enable_is_set(2) [OF legal] by (simp add: b)
  with that w' w m(1,3) show ?thesis by blast
qed

text \<open>C37 (a graceful shutdown with pending output never finishes). \<open>Shutdown\<close> is to close the
  connection once its output has been sent. In its loop's thread, with output pending, it leaves the
  connection disconnecting with the output unsent and the channel asking for write events; and from
  then on \<open>HandleWrite\<close> does nothing at all, however often the poller calls it: it returns at its first
  test, because the connection is no longer connected.\<close>

theorem graceful_shutdown_stalls:
  assumes "wired c w" and "IsConnected c w" and "wf_buffer (m_output_buffer (conns w c))"
    and "content (m_output_buffer (conns w c)) \<noteq> []"
  shows "\<exists>w'. Shutdown E c w = Inr w' \<and> m_state (conns w' c) = Disconnecting \<and>
    content (m_output_buffer (conns w' c)) = content (m_output_buffer (conns w c)) \<and> sent w' c = sent w c \<and>
    IsWriting Linux (channels w' (m_channel (conns w' c))) \<and>
    (\<forall>n. rfold (\<lambda>_. HandleWrite E c) (replicate n ()) w' = Inr w')"
proof -
  define w1 where "w1 = upd_conn c (\<lambda>cn. cn\<lparr>m_state := Disconnecting\<rparr>) w"
  have wired: "wired c w1" using assms(1) by (simp add: wired_def w1_def IsInLoopThread_def)
  then have loop: "IsInLoopThread (m_loop (conns w1 c)) w1" by (simp add: wired_def)
  have pend: "0 < ReadableBytes (m_output_buffer (conns w1 c))"
    using assms(4) unat_ReadableBytes [OF assms(3)] by (auto simp: w1_def word_less_nat_alt)
  have "Shutdown E c w = ShutdownInLoop E c w1"
    using assms(2) loop by (simp add: Shutdown_def IsConnected_def RunInLoop_def flip: w1_def)
  also have "\<dots> = (if \<not> IsWriting Linux (channels w1 (m_channel (conns w1 c)))
      then EnableWriting (m_channel (conns w1 c)) w1 else Inr w1)"
    using loop pend by (simp add: ShutdownInLoop_def AssertInLoopThread_def)
  finally have eq: "Shutdown E c w = (if \<not> IsWriting Linux (channels w1 (m_channel (conns w1 c)))
      then EnableWriting (m_channel (conns w1 c)) w1 else Inr w1)" .
  have "\<exists>w'. Shutdown E c w = Inr w' \<and> conns w' = conns w1 \<and> sent w' = sent w1 \<and> wired c w' \<and>
      IsWriting Linux (channels w' (m_channel (conns w1 c)))"
  proof (cases "IsWriting Linux (channels w1 (m_channel (conns w1 c)))")
    case False
    obtain w' where "EnableWriting (m_channel (conns w1 c)) w1 = Inr w'" "conns w' = conns w1" "sent w' = sent w1"
      "wired c w'" "IsWriting Linux (channels w' (m_channel (conns w1 c)))"
      by (rule EnableWriting_wired [OF wired])
    with False eq show ?thesis by auto
  qed (use wired eq in auto)
  then obtain w' where w': "Shutdown E c w = Inr w'" "conns w' = conns w1" "sent w' = sent w1" "wired c w'"
    "IsWriting Linux (channels w' (m_channel (conns w1 c)))" by blast
  have "HandleWrite E c w' = Inr w'"
    using w'(2,4) by (simp add: HandleWrite_def AssertInLoopThread_def wired_def IsConnected_def w1_def)
  then have "rfold (\<lambda>_. HandleWrite E c) (replicate n ()) w' = Inr w'" for n by (induction n) simp_all
  with w' show ?thesis by (auto simp: w1_def)
qed

theorem graceful_shutdown_stalls_witness:
  "\<exists>w'. Shutdown log_only 0 drain_example = Inr w' \<and> m_state (conns w' 0) = Disconnecting \<and>
     content (m_output_buffer (conns w' 0)) = ''abc'' \<and> HandleWrite log_only 0 w' = Inr w'"
proof -
  note d = drain_example_facts
  have "content (m_output_buffer (conns drain_example 0)) \<noteq> []" by (simp add: d(4))
  from graceful_shutdown_stalls [OF d(1,2) drain_example_wf this, where E = log_only] obtain w' where
    "Shutdown log_only 0 drain_example = Inr w'" "m_state (conns w' 0) = Disconnecting"
    "content (m_output_buffer (conns w' 0)) = ''abc''"
    "\<forall>n. rfold (\<lambda>_. HandleWrite log_only 0) (replicate n ()) w' = Inr w'" by (auto simp: d(4))
  moreover from this(4) have "rfold (\<lambda>_. HandleWrite log_only 0) (replicate 1 ()) w' = Inr w'" by blast
  ultimately show ?thesis by (auto simp: rbind_eq_Inr_iff)
qed

text \<open>C39 (sending an empty message closes the connection). \<open>Send\<close> of the empty string on an idle
  connection asks for write events although nothing is to be written; the next write event then calls
  \<open>HandleWrite\<close>, which takes the return value 0 of the empty write, with no error set, for a failure
  and closes the connection.\<close>

theorem empty_send_closes:
  assumes "wired c w" and "IsConnected c w" and "wf_buffer (m_output_buffer (conns w c))"
    and "content (m_output_buffer (conns w c)) = []" and "\<not> IsWriting Linux (channels w (m_channel (conns w c)))"
  shows "\<exists>w'. Send E c [] w = Inr w' \<and> IsConnected c w' \<and>
    IsWriting Linux (channels w' (m_channel (conns w' c))) \<and> HandleWrite E c w' = HandleClose E c w'"
proof -
  have loop: "IsInLoopThread (m_loop (conns w c)) w" using assms(1) by (simp add: wired_def)
  have "unat (m_write_idx (m_output_buffer (conns w c))) + unat (0 :: size_t) \<le> max_size"
    using wf_bounds [OF assms(3)] by (simp add: max_size_def)
  from Append_ok [OF assms(3) this, of "[]"] assms(4) obtain b where
    b: "Append [] 0 (m_output_buffer (conns w c)) = Inr b" "wf_buffer b" "content b = []" by auto
  have zero: "ReadableBytes (m_output_buffer (conns w c)) = 0" "ReadableBytes b = 0"
    using unat_ReadableBytes [OF assms(3)] unat_ReadableBytes [OF b(2)] assms(4) b(3)
    by (simp_all flip: unat_eq_zero)
  define w1 where "w1 = upd_conn c (\<lambda>cn. cn\<lparr>m_output_buffer := b, m_pending_write_bytes := 0\<rparr>)
      (w\<lparr>accepted := (accepted w)(c := accepted w c)\<rparr>)"
  have "Send E c [] w = (if \<not> IsWriting Linux (channels w1 (m_channel (conns w1 c)))
      then EnableWriting (m_channel (conns w1 c)) w1 else Inr w1)"
    using assms(2) loop b(1) zero
    by (cases "m_high_water_mark (conns w c) = 0")
      (simp_all add: Send_def SendInLoop_def AssertInLoopThread_def Let_def w1_def)
  with assms(5) have send: "Send E c [] w = EnableWriting (m_channel (conns w1 c)) w1" by (simp add: w1_def)
  have wired: "wired c w1" using assms(1) by (simp add: wired_def w1_def IsInLoopThread_def)
  obtain w' where w': "EnableWriting (m_channel (conns w1 c)) w1 = Inr w'" "conns w' = conns w1" "sent w' = sent w1"
    "wired c w'" "IsWriting Linux (channels w' (m_channel (conns w1 c)))"
    by (rule EnableWriting_wired [OF wired])
  have con: "IsConnected c w'" and out: "m_output_buffer (conns w' c) = b"
    using assms(2) by (simp_all add: IsConnected_def w'(2) w1_def)
  have "upd_conn c (\<lambda>cn. cn\<lparr>m_output_buffer := b\<rparr>) w' = w'"
    using out unfolding upd_conn_def by (simp add: fun_upd_idem)
  then have "HandleWrite E c w' = HandleClose E c w'"
    using w'(4) con out zero(2) WriteToFd_empty [OF b(2,3)]
    by (simp add: HandleWrite_def AssertInLoopThread_def wired_def IsNormalWouldBlock_def EAGAIN_def)
  with send w' con show ?thesis by auto
qed

theorem empty_send_closes_witness:
  "\<exists>w w'. ConnectEstablished log_only 0 (example_conn :: nat net) = Inr w \<and> Send log_only 0 [] w = Inr w' \<and>
     HandleWrite log_only 0 w' = HandleClose log_only 0 w'"
proof -
  have "case ConnectEstablished log_only 0 (example_conn :: nat net) of Inl e \<Rightarrow> False
    | Inr w \<Rightarrow> wired 0 w \<and> IsConnected 0 w \<and> content (m_output_buffer (conns w 0)) = [] \<and>
        \<not> IsWriting Linux (channels w (m_channel (conns w 0)))" by code_simp
  then obtain w where w: "ConnectEstablished log_only 0 (example_conn :: nat net) = Inr w" "wired 0 w" "IsConnected 0 w"
    "content (m_output_buffer (conns w 0)) = []" "\<not> IsWriting Linux (channels w (m_channel (conns w 0)))"
    by (auto split: sum.splits)
  have "activity log_only {0} (example_conn :: nat net) w"
    using activity_action [OF activity_start, where a = AEstablish and c = 0 and C = "{0}"] w(1) by simp
  from callback_env.activity_ok(1) [OF log_only_env [where J = "\<lambda>_ _. True"] this example_conn_ok]
  have "wf_buffer (m_output_buffer (conns w 0))" by (simp add: conn_ok_def)
  from empty_send_closes [OF w(2,3) this w(4,5), where E = log_only] w(1) show ?thesis by blast
qed

end
