(* ===== verification/Server_Properties.thy ===== *)
theory Server_Properties
  imports Tcp_Server Connection_Frame Connection_Properties
begin

text \<open>
  What the server guarantees: the bookkeeping of its table and counters, the invariants of its
  connections in every run of the program, the fair choice of loops, and the course of a graceful
  stop, with the cases in which it does not do what it is meant to.
\<close>

section \<open>The server's part of the state\<close>

lemma upd_server_simps [simp]:
  "server (upd_server f w) = f (server w)" "next_obj (upd_server f w) = next_obj w"
  "conns (upd_server f w) = conns w" "channels (upd_server f w) = channels w" "loops (upd_server f w) = loops w"
  "this_thread (upd_server f w) = this_thread w" "notified (upd_server f w) = notified w"
  "sent (upd_server f w) = sent w" "accepted (upd_server f w) = accepted w" "acceptor (upd_server f w) = acceptor w"
  "closes (upd_server f w) = closes w" "wall_ms (upd_server f w) = wall_ms w"
  by (simp_all add: upd_server_def)

lemma server_more:
  fixes w :: "('a, 'z) srv_scheme"
  assumes "net.more w' = net.more w"
  shows "server w' = server w" "next_obj w' = next_obj w" "acceptor w' = acceptor w" "files w' = files w"
    "accept_queue w' = accept_queue w"
  using assms by (cases w; cases w'; simp)+

text \<open>
  The table has one entry per descriptor, and the connections counted as closed and those still in
  the table are together no more than all that were ever counted.
\<close>

definition srv_ok :: "('a, 'z) srv_scheme \<Rightarrow> bool" where
  "srv_ok w \<longleftrightarrow> distinct (map fst (connections w)) \<and>
     unat (m_closed_connections (server w)) + length (connections w) \<le> unat (m_total_connections (server w))"

text \<open>What holds across every operation that takes no new connection.\<close>

definition srv_rel :: "('a, 'z) srv_scheme \<Rightarrow> ('a, 'z) srv_scheme \<Rightarrow> bool" where
  "srv_rel w w' \<longleftrightarrow> (srv_ok w \<longrightarrow> srv_ok w') \<and> next_obj w' = next_obj w \<and>
     m_listen_channel (acceptor w') = m_listen_channel (acceptor w) \<and>
     m_total_connections (server w') = m_total_connections (server w)"

lemma srv_rel_frame: "net.more w' = net.more w \<Longrightarrow> srv_rel w w'"
  using server_more [of w' w] by (simp add: srv_rel_def srv_ok_def connections_def)

lemma srv_rel_refl [simp]: "srv_rel w w"
  by (rule srv_rel_frame) simp

lemma srv_rel_trans: "srv_rel u v \<Longrightarrow> srv_rel v w \<Longrightarrow> srv_rel u w"
  by (simp add: srv_rel_def)

lemma srv_rel_step: "srv_rel w0 w \<Longrightarrow> srv_rel w w' \<Longrightarrow> srv_rel w0 w'"
  by (rule srv_rel_trans)

text \<open>Updates of other fields, of the kernel's queues and of the timers.\<close>

lemma srv_rel_upd:
  assumes "m_connections (f (server w)) = m_connections (server w)"
    "m_closed_connections (f (server w)) = m_closed_connections (server w)"
    "m_total_connections (f (server w)) = m_total_connections (server w)"
  shows "srv_rel w (upd_server f w)"
  using assms by (simp add: srv_rel_def srv_ok_def connections_def)

lemma length_AList_delete:
  assumes "distinct (map fst xs)" and "map_of xs k = Some v"
  shows "Suc (length (AList.delete k xs)) = length xs"
  using assms
proof (induction xs)
  case (Cons x xs)
  show ?case
  proof (cases "fst x = k")
    case True
    with Cons.prems(1) have "AList.delete k xs = xs" by (auto simp: AList.delete_id)
    with True show ?thesis by (cases x) (simp add: AList.delete_eq)
  next
    case False
    with Cons show ?thesis by (auto simp: AList.delete_eq split: if_splits)
  qed
qed simp

lemma srv_rel_erase:
  assumes "map_of (connections w) fd = Some c"
  shows "srv_rel w (upd_server (\<lambda>s. s\<lparr>m_connections := AList.delete fd (m_connections s),
    m_closed_connections := m_closed_connections s + 1\<rparr>) w)"
proof -
  have "srv_ok (upd_server (\<lambda>s. s\<lparr>m_connections := AList.delete fd (m_connections s),
    m_closed_connections := m_closed_connections s + 1\<rparr>) w)" if "srv_ok w"
  proof -
    have d: "distinct (map fst (m_connections (server w)))" using that by (simp add: srv_ok_def connections_def)
    have len: "Suc (length (AList.delete fd (m_connections (server w)))) = length (m_connections (server w))"
      using length_AList_delete [OF d] assms by (simp add: connections_def)
    have "unat (m_closed_connections (server w)) + 1 < 18446744073709551616"
      using that len unat_size_t_bound [of "m_total_connections (server w)"] by (simp add: srv_ok_def connections_def)
    then have "unat (m_closed_connections (server w) + 1) = unat (m_closed_connections (server w)) + 1"
      using unat_add_size_t [of "m_closed_connections (server w)" 1] by simp
    with that len d show ?thesis by (simp add: srv_ok_def connections_def distinct_delete)
  qed
  then show ?thesis by (simp add: srv_rel_def)
qed

lemma srv_rel_filter:
  "srv_rel w (upd_server (\<lambda>s. s\<lparr>m_connections := filter P (m_connections s)\<rparr>) w)"
proof -
  have "n + length (filter P (m_connections (server w))) \<le> t" if "n + length (m_connections (server w)) \<le> t" for n t
    using that length_filter_le [of P "m_connections (server w)"] by linarith
  then show ?thesis
    by (simp add: srv_rel_def srv_ok_def connections_def distinct_map_filter)
qed

lemma srv_rel_Cancel: "srv_rel w (snd (Cancel l t w))"
  by (rule srv_rel_frame) (simp add: Cancel_def put_timers_def upd_loop_def Wakeup_def Let_def split: prod.splits)

lemma srv_rel_cancel_if_set:
  assumes "\<And>s. m_connections (clear s) = m_connections s" "\<And>s. m_closed_connections (clear s) = m_closed_connections s"
    "\<And>s. m_total_connections (clear s) = m_total_connections s"
  shows "srv_rel w (cancel_if_set get clear w)"
  unfolding cancel_if_set_def using assms by (auto intro!: srv_rel_trans [OF srv_rel_Cancel srv_rel_upd])

lemma srv_rel_cancel_timers: "srv_rel w (cancel_timers w)"
  unfolding cancel_timers_def
  by (rule srv_rel_trans [OF srv_rel_trans [OF srv_rel_trans]]; (rule srv_rel_cancel_if_set)?; simp)

text \<open>What the server relies on from the callbacks its user installs.\<close>

locale server_env =
  fixes U :: "('a, ('a, 'z) srv_scheme) server_user"
  assumes user_connection_leads: "srv_rel w0 w \<Longrightarrow> leads srv_rel w0 (on_connection U a c w)"
    and user_message_leads: "srv_rel w0 w \<Longrightarrow> leads srv_rel w0 (on_message U a c w)"
    and user_write_complete_leads: "srv_rel w0 w \<Longrightarrow> leads srv_rel w0 (on_write_complete U a c w)"
    and user_close_leads: "srv_rel w0 w \<Longrightarrow> leads srv_rel w0 (on_close U a c w)"
    and user_high_water_leads: "srv_rel w0 w \<Longrightarrow> leads srv_rel w0 (on_high_water U a c n w)"
    and on_call_leads: "srv_rel w0 w \<Longrightarrow> leads srv_rel w0 (on_call U a w)"
begin

lemma finish_stop_leads: "srv_rel w0 w \<Longrightarrow> leads srv_rel w0 (finish_stop U w)"
  unfolding finish_stop_def Let_def
  by (intro leads_option leads_Inr on_call_leads srv_rel_trans [OF _ srv_rel_upd]
      srv_rel_trans [OF _ srv_rel_cancel_timers]) simp_all

end

text \<open>Destroying connections does not involve callbacks.\<close>

interpretation no_callbacks: frame_env log_only srv_rel
  by unfold_locales (auto simp: log_only_def intro: leads_intros srv_rel_frame srv_rel_trans)

lemma destroy_in_loop_leads: "srv_rel w0 w \<Longrightarrow> leads srv_rel w0 (destroy_in_loop c w)"
  unfolding destroy_in_loop_def by (intro no_callbacks.RunInLoop_leads no_callbacks.ConnectDestroyed_leads)

lemma walk_connections_leads:
  assumes "\<And>c w. srv_rel w0 w \<Longrightarrow> leads srv_rel w0 (f c w)" and "srv_rel w0 w"
  shows "leads srv_rel w0 (walk_connections f fds w)"
  using assms(2)
proof (induction fds arbitrary: w)
  case (Cons fd fds)
  then show ?case by (auto intro!: leads_option leads_rbind leads_if leads_Inl assms(1))
qed (simp add: leads_Inr)

context server_env
begin

lemma FinalizeGracefulStop_leads:
  assumes "srv_rel w0 w" and "force_close \<Longrightarrow> (\<And>c w. srv_rel w0 w \<Longrightarrow> leads srv_rel w0 (force c w))"
  shows "leads srv_rel w0 (FinalizeGracefulStop force U force_close w)"
proof -
  let ?w1 = "upd_server (\<lambda>s. s\<lparr>m_connections := filter (\<lambda>(fd, c). IsConnected c w) (m_connections s)\<rparr>) w"
  have "srv_rel w0 ?w1" using srv_rel_trans [OF assms(1) srv_rel_filter] .
  then have "leads srv_rel w0 (rfold (\<lambda>(fd, c). destroy_in_loop c) xs ?w1)" for xs
    by (intro leads_rfold) (auto intro: destroy_in_loop_leads)
  then show ?thesis
    unfolding FinalizeGracefulStop_def for_connections_def Let_def
    using assms by (intro leads_check leads_if leads_Inr leads_rbind finish_stop_leads walk_connections_leads)
qed

lemma remove_connection_leads:
  assumes "srv_rel w0 w"
  shows "leads srv_rel w0 (remove_connection U c w)"
  unfolding remove_connection_def Let_def
  using assms srv_rel_trans [OF assms srv_rel_erase]
  by (intro leads_check leads_if leads_Inr leads_rbind [OF destroy_in_loop_leads] FinalizeGracefulStop_leads)
    (auto simp del: upd_server_simps)

lemma HandleRemoveConnection_leads: "srv_rel w0 w \<Longrightarrow> leads srv_rel w0 (HandleRemoveConnection U c w)"
  unfolding HandleRemoveConnection_def by (intro no_callbacks.RunInLoop_leads remove_connection_leads)

lemma high_water_leads: "srv_rel w0 w \<Longrightarrow> leads srv_rel w0 (high_water U c n w)"
  unfolding high_water_def Let_def
  by (intro no_callbacks.invoke_leads user_high_water_leads srv_rel_trans [OF _ srv_rel_upd]) simp_all

end

sublocale server_env \<subseteq> conn: frame_env "server_exec U" srv_rel
  by unfold_locales
    (auto simp: server_exec_def intro: srv_rel_frame srv_rel_trans user_connection_leads user_message_leads
      user_write_complete_leads user_close_leads user_high_water_leads HandleRemoveConnection_leads high_water_leads
      leads_Inr split: server_cb.splits)

end
