(* ===== verification/Server_Runs.thy ===== *)
theory Server_Runs
  imports Server_Properties
begin

text \<open>
  The connections of a running server. The relation \<open>evolves\<close> of the connections is kept by
  every operation of the server, as long as the server's table holds known connections only; and a
  new connection joins the known ones in good state. It follows that all connections the server ever
  made keep their invariant in every run.
\<close>

section \<open>The table of connections\<close>

definition table_in :: "conn_id set \<Rightarrow> (conn_id \<Rightarrow> chan_id) \<Rightarrow> ('a, 'z) srv_ext acc_net_ext \<Rightarrow> bool" where
  "table_in C chan z \<longleftrightarrow> (\<forall>w :: ('a, 'z) srv_scheme. net.more w = z \<longrightarrow>
     snd ` set (connections w) \<subseteq> C \<and> m_listen_channel (acceptor w) \<notin> chan ` C)"

text \<open>The table holds connections of \<open>C\<close>, and the channel of the acceptor is none of theirs.\<close>

definition tabled :: "conn_id set \<Rightarrow> ('a, 'z) srv_scheme \<Rightarrow> bool" where
  "tabled C w \<longleftrightarrow> snd ` set (connections w) \<subseteq> C \<and> (\<forall>d \<in> C. m_channel (conns w d) \<noteq> m_listen_channel (acceptor w))"

lemma table_in_iff [simp]:
  fixes w :: "('a, 'b) srv_scheme"
  shows "table_in C (chans w) (net.more w) \<longleftrightarrow> tabled C w"
proof -
  have eq: "connections w' = connections w \<and> acceptor w' = acceptor w" if "net.more w' = net.more w"
    for w' :: "('a, 'b) srv_scheme"
    using server_more(1,3) [OF that] by (simp add: connections_def)
  show ?thesis
  proof
    assume "table_in C (chans w) (net.more w)"
    then show "tabled C w" unfolding table_in_def tabled_def by (force simp: chans_def)
  next
    assume "tabled C w"
    then have "snd ` set (connections w) \<subseteq> C" "m_listen_channel (acceptor w) \<notin> chans w ` C"
      by (auto simp: tabled_def chans_def)
    then show "table_in C (chans w) (net.more w)" unfolding table_in_def using eq by metis
  qed
qed

lemma tabledD: "tabled C w \<Longrightarrow> (fd, c) \<in> set (connections w) \<Longrightarrow> c \<in> C"
  by (force simp: tabled_def)

text \<open>The relation the operations of the server keep.\<close>

definition kept :: "conn_id set \<Rightarrow> ('a, 'z) srv_scheme \<Rightarrow> ('a, 'z) srv_scheme \<Rightarrow> bool" where
  "kept C = evolves (table_in C) C"

lemma kept_refl [simp]: "kept C w w"
  by (simp add: kept_def)

lemma kept_trans: "kept C u v \<Longrightarrow> kept C v w \<Longrightarrow> kept C u w"
  unfolding kept_def by (rule evolves_trans)

lemma kept_leads: "kept C w0 w \<Longrightarrow> (\<And>w'. r = Inr w' \<Longrightarrow> kept C w w') \<Longrightarrow> leads (kept C) w0 r"
  unfolding leads_def using kept_trans by blast

lemma kept_assume: "(tabled C w0 \<Longrightarrow> leads (kept C) w0 r) \<Longrightarrow> leads (kept C) w0 r"
  by (auto simp: leads_def kept_def evolves_def)

lemma kept_table: "kept C w0 w \<Longrightarrow> tabled C w0 \<Longrightarrow> tabled C w"
  by (simp add: kept_def evolves_def)

lemma kept_frame:
  assumes "conns w' = conns w" "channels w' = channels w" "notified w' = notified w" "sent w' = sent w"
    "accepted w' = accepted w" "set (connections w') \<subseteq> set (connections w)"
    "m_listen_channel (acceptor w') = m_listen_channel (acceptor w)"
  shows "kept C w w'"
  using assms by (auto simp: kept_def evolves_def net_ok_def conn_ok_def tabled_def)

lemma kept_upd_server:
  assumes "kept C w0 w" and "set (m_connections (f (server w))) \<subseteq> set (m_connections (server w))"
  shows "kept C w0 (upd_server f w)"
  by (rule kept_trans [OF assms(1) kept_frame]) (use assms(2) in \<open>simp_all add: connections_def\<close>)

lemma server_frames [simp]:
  "server (QueueInLoop l k w) = server w" "server (snd (Cancel l t w)) = server w"
  "conns (QueueInLoop l k w) = conns w" "conns (snd (Cancel l t w)) = conns w"
  "channels (QueueInLoop l k w) = channels w" "channels (snd (Cancel l t w)) = channels w"
  "sent (QueueInLoop l k w) = sent w" "sent (snd (Cancel l t w)) = sent w"
  "accepted (QueueInLoop l k w) = accepted w" "accepted (snd (Cancel l t w)) = accepted w"
  "notified (QueueInLoop l k w) = notified w" "notified (snd (Cancel l t w)) = notified w"
  "acceptor (snd (Cancel l t w)) = acceptor w" "next_obj (snd (Cancel l t w)) = next_obj w"
  by (simp_all add: QueueInLoop_def wake_if_needed_def Wakeup_def push_functor_def Cancel_def put_timers_def
      upd_loop_def Let_def split: prod.splits)

lemma next_obj_QueueInLoop [simp]: "next_obj (QueueInLoop l k w) = next_obj w" "acceptor (QueueInLoop l k w) = acceptor w"
  by (simp_all add: QueueInLoop_def wake_if_needed_def Wakeup_def push_functor_def upd_loop_def)

lemma kept_QueueInLoop: "kept C w0 w \<Longrightarrow> kept C w0 (QueueInLoop l k w)"
  by (erule kept_trans) (rule kept_frame; simp add: connections_def)

lemma kept_cancel_timers: "kept C w0 w \<Longrightarrow> kept C w0 (cancel_timers w)"
  by (erule kept_trans)
    (rule kept_frame; simp add: cancel_timers_def cancel_if_set_def connections_def)

lemma kept_RunInLoop:
  assumes "kept C w0 w" and "leads (kept C) w0 (f k w)"
  shows "leads (kept C) w0 (RunInLoop f l k w)"
  using assms by (auto simp: RunInLoop_def intro: leads_Inr kept_QueueInLoop)

lemma destroy_in_loop_kept:
  assumes "kept C w0 w" and "c \<in> C"
  shows "leads (kept C) w0 (destroy_in_loop c w)"
  unfolding destroy_in_loop_def
  using assms by (intro kept_RunInLoop kept_leads) (auto simp: kept_def intro: ConnectDestroyed_evolves)

lemma walk_connections_kept:
  assumes f: "\<And>c w. kept C w0 w \<Longrightarrow> c \<in> C \<Longrightarrow> leads (kept C) w0 (f c w)" and "kept C w0 w"
    and t: "tabled C w0"
  shows "leads (kept C) w0 (walk_connections f fds w)"
  using assms(2)
proof (induction fds arbitrary: w)
  case (Cons fd fds)
  have "c \<in> C" if "map_of (connections w) fd = Some c" for c
    using tabledD [OF kept_table [OF Cons.prems t]] that by (auto dest: map_of_SomeD)
  with Cons show ?case by (auto intro!: leads_option leads_rbind leads_if leads_Inl f)
qed (simp add: leads_Inr)

locale server_user_env = server_env U for U :: "('a, ('a, 'z) srv_scheme) server_user" +
  assumes user_connection_kept: "c \<in> C \<Longrightarrow> on_connection U a c w = Inr w' \<Longrightarrow> kept C w w'"
    and user_message_kept: "c \<in> C \<Longrightarrow> on_message U a c w = Inr w' \<Longrightarrow> kept C w w'"
    and user_write_complete_kept: "c \<in> C \<Longrightarrow> on_write_complete U a c w = Inr w' \<Longrightarrow> kept C w w'"
    and user_close_kept: "c \<in> C \<Longrightarrow> on_close U a c w = Inr w' \<Longrightarrow> kept C w w'"
    and user_high_water_kept: "c \<in> C \<Longrightarrow> on_high_water U a c n w = Inr w' \<Longrightarrow> kept C w w'"
    and on_call_kept: "on_call U a w = Inr w' \<Longrightarrow> kept C w w'"
begin

lemma on_call_kept_leads: "kept C w0 w \<Longrightarrow> leads (kept C) w0 (on_call U a w)"
  by (erule kept_leads) (rule on_call_kept)

lemma user_high_water_kept_leads: "kept C w0 w \<Longrightarrow> c \<in> C \<Longrightarrow> leads (kept C) w0 (on_high_water U a c n w)"
  by (erule kept_leads) (rule user_high_water_kept)

lemma finish_stop_kept: "kept C w0 w \<Longrightarrow> leads (kept C) w0 (finish_stop U w)"
  unfolding finish_stop_def Let_def
  by (intro leads_option leads_Inr on_call_kept_leads kept_upd_server kept_cancel_timers) simp_all

lemma FinalizeGracefulStop_kept:
  assumes "kept C w0 w"
    and "force_close \<Longrightarrow> (\<And>c w. kept C w0 w \<Longrightarrow> c \<in> C \<Longrightarrow> leads (kept C) w0 (force c w))"
  shows "leads (kept C) w0 (FinalizeGracefulStop force U force_close w)"
proof (rule kept_assume)
  assume t: "tabled C w0"
  let ?w1 = "upd_server (\<lambda>s. s\<lparr>m_connections := filter (\<lambda>(fd, c). IsConnected c w) (m_connections s)\<rparr>) w"
  have "kept C w0 ?w1" by (rule kept_upd_server [OF assms(1)]) auto
  moreover have "c \<in> C" if "(fd, c) \<in> set (filter P (connections w))" for fd c P
    using tabledD [OF kept_table [OF assms(1) t]] that by auto
  ultimately have "leads (kept C) w0 (rfold (\<lambda>(fd, c). destroy_in_loop c) (filter (\<lambda>(fd, c). \<not> IsConnected c w) (connections w)) ?w1)"
    by (intro leads_rfold) (auto intro!: destroy_in_loop_kept)
  then show "leads (kept C) w0 (FinalizeGracefulStop force U force_close w)"
    unfolding FinalizeGracefulStop_def for_connections_def Let_def
    using assms t by (intro leads_check leads_if leads_Inr leads_rbind finish_stop_kept walk_connections_kept)
qed

lemma remove_connection_kept:
  assumes "kept C w0 w" and "c \<in> C"
  shows "leads (kept C) w0 (remove_connection U c w)"
  unfolding remove_connection_def Let_def
  using assms
  by (intro leads_check leads_if leads_Inr leads_rbind [OF destroy_in_loop_kept] FinalizeGracefulStop_kept kept_upd_server)
    (auto simp: AList.delete_eq)

lemma HandleRemoveConnection_kept:
  "kept C w0 w \<Longrightarrow> c \<in> C \<Longrightarrow> leads (kept C) w0 (HandleRemoveConnection U c w)"
  unfolding HandleRemoveConnection_def by (intro kept_RunInLoop remove_connection_kept)

lemma high_water_kept: "kept C w0 w \<Longrightarrow> c \<in> C \<Longrightarrow> leads (kept C) w0 (high_water U c n w)"
  unfolding high_water_def Let_def invoke_def
  by (intro leads_option leads_Inr user_high_water_kept_leads kept_upd_server) simp_all

end

sublocale server_user_env \<subseteq> callbacks: callback_env "server_exec U" "table_in C" C for C
proof unfold_locales

  have on: "evolves (table_in C) C w w'" if "leads (kept C) w r" "r = Inr w'" for w w' r
    using that by (simp add: leads_def kept_def)
  fix c u w w' n assume c: "c \<in> C"
  show "on_connection (server_exec U) u c w = Inr w' \<Longrightarrow> evolves (table_in C) C w w'"
    using user_connection_kept [OF c] by (auto simp: server_exec_def kept_def split: server_cb.splits)
  show "on_message (server_exec U) u c w = Inr w' \<Longrightarrow> evolves (table_in C) C w w'"
    using user_message_kept [OF c] by (auto simp: server_exec_def kept_def split: server_cb.splits)
  show "on_write_complete (server_exec U) u c w = Inr w' \<Longrightarrow> evolves (table_in C) C w w'"
    using user_write_complete_kept [OF c] by (auto simp: server_exec_def kept_def split: server_cb.splits)
  show "on_close (server_exec U) u c w = Inr w' \<Longrightarrow> evolves (table_in C) C w w'"
    using user_close_kept [OF c] on [OF HandleRemoveConnection_kept [OF kept_refl c]]
    by (auto simp: server_exec_def kept_def split: server_cb.splits)
  show "on_high_water (server_exec U) u c n w = Inr w' \<Longrightarrow> evolves (table_in C) C w w'"
    using user_high_water_kept [OF c] on [OF high_water_kept [OF kept_refl c]]
    by (auto simp: server_exec_def kept_def split: server_cb.splits)
qed

section \<open>Both relations together\<close>

definition good :: "conn_id set \<Rightarrow> ('a, 'z) srv_scheme \<Rightarrow> ('a, 'z) srv_scheme \<Rightarrow> bool" where
  "good C w w' \<longleftrightarrow> srv_rel w w' \<and> kept C w w'"

lemma good_refl [simp]: "good C w w"
  by (simp add: good_def)

lemma good_trans: "good C u v \<Longrightarrow> good C v w \<Longrightarrow> good C u w"
  unfolding good_def using srv_rel_trans kept_trans by blast

lemma good_leads:
  assumes "good C w0 w" and "leads srv_rel w r" and "leads (kept C) w r"
  shows "leads (good C) w0 r"
  using assms good_trans unfolding leads_def good_def by blast

lemma good_table: "good C w0 w \<Longrightarrow> tabled C w0 \<Longrightarrow> tabled C w"
  unfolding good_def using kept_table by blast

lemma good_same:
  assumes "good C w0 w" and "conns w' = conns w" "channels w' = channels w" "notified w' = notified w" "sent w' = sent w"
    "accepted w' = accepted w" "server w' = server w" "next_obj w' = next_obj w"
    "m_listen_channel (acceptor w') = m_listen_channel (acceptor w)"
  shows "good C w0 w'"
proof -
  have "srv_rel w w'" using assms by (simp add: srv_rel_def srv_ok_def connections_def)
  moreover have "kept C w w'" by (rule kept_frame) (use assms in \<open>simp_all add: connections_def\<close>)
  ultimately show ?thesis using good_trans [OF assms(1)] by (simp add: good_def)
qed

lemma good_upd_server:
  assumes "good C w0 w" and "m_connections (f (server w)) = m_connections (server w)"
    "m_closed_connections (f (server w)) = m_closed_connections (server w)"
    "m_total_connections (f (server w)) = m_total_connections (server w)"
  shows "good C w0 (upd_server f w)"
  using assms srv_rel_trans [OF _ srv_rel_upd] kept_upd_server [of C w0 w f] by (auto simp: good_def)

lemma good_channel:
  assumes "good C w0 w" and "masked ch f w w'" and "\<And>d. d \<in> C \<Longrightarrow> m_channel (conns w d) \<noteq> ch"
  shows "good C w0 w'"
proof -
  note m = maskedD [OF assms(2)]
  have "kept C w w'"
    using assms(3) m(1-4,10) server_more(1,3) [OF m(16)]
    by (auto simp: kept_def evolves_def net_ok_def conn_ok_def connections_def tabled_def)
  moreover have "srv_rel w w'" using srv_rel_frame [OF m(16)] .
  ultimately show ?thesis using good_trans [OF assms(1)] by (simp add: good_def)
qed

lemma Stop_good:
  assumes "good C w0 w" and "tabled C w"
  shows "leads (good C) w0 (Stop w)"
proof -
  have "leads (good C) w0 (rbind (DisableReading (m_listen_channel (acceptor w)) w)
      (\<lambda>w. Inr (w\<lparr>acceptor := (acceptor w)\<lparr>m_is_listening := False\<rparr>\<rparr>)))"
  proof (rule leads_rbind)
    show "leads (good C) w0 (DisableReading (m_listen_channel (acceptor w)) w)"
      unfolding leads_def using good_channel [OF assms(1) mask_ops(2)] assms(2) by (auto simp: tabled_def)
  qed (auto intro!: leads_Inr elim!: good_same)
  with assms(1) show ?thesis unfolding Stop_def by (intro leads_check leads_if leads_Inr)
qed

lemma Listen_good:
  assumes "good C w0 w" and "tabled C w"
  shows "leads (good C) w0 (Listen w)"
proof -
  have "leads (good C) w0 (rbind (EnableReading (m_listen_channel (acceptor w)) w)
      (\<lambda>w. Inr (w\<lparr>acceptor := (acceptor w)\<lparr>m_is_listening := True\<rparr>\<rparr>)))"
  proof (rule leads_rbind)
    show "leads (good C) w0 (EnableReading (m_listen_channel (acceptor w)) w)"
      unfolding leads_def using good_channel [OF assms(1) mask_ops(1)] assms(2) by (auto simp: tabled_def)
  qed (auto intro!: leads_Inr elim!: good_same)
  then show ?thesis unfolding Listen_def by (intro leads_check)
qed

lemma timer_frames [simp]:
  "server (snd (RunEvery d l i k w)) = server w" "next_obj (snd (RunEvery d l i k w)) = next_obj w"
  "conns (snd (RunEvery d l i k w)) = conns w" "channels (snd (RunEvery d l i k w)) = channels w"
  "sent (snd (RunEvery d l i k w)) = sent w" "accepted (snd (RunEvery d l i k w)) = accepted w"
  "notified (snd (RunEvery d l i k w)) = notified w" "acceptor (snd (RunEvery d l i k w)) = acceptor w"
  "server (snd (RunAfter d l i k w)) = server w" "next_obj (snd (RunAfter d l i k w)) = next_obj w"
  "conns (snd (RunAfter d l i k w)) = conns w" "channels (snd (RunAfter d l i k w)) = channels w"
  "sent (snd (RunAfter d l i k w)) = sent w" "accepted (snd (RunAfter d l i k w)) = accepted w"
  "notified (snd (RunAfter d l i k w)) = notified w" "acceptor (snd (RunAfter d l i k w)) = acceptor w"
  "server (snd (steady_now d w)) = server w" "next_obj (snd (steady_now d w)) = next_obj w"
  "conns (snd (steady_now d w)) = conns w"
  "sent (snd (steady_now d w)) = sent w" "accepted (snd (steady_now d w)) = accepted w"
  "notified (snd (steady_now d w)) = notified w" "acceptor (snd (steady_now d w)) = acceptor w"
  by (simp_all add: RunEvery_def RunAfter_def RunAt_def steady_now_def wake_if_needed_def Wakeup_def put_timers_def
      upd_loop_def Let_def split: prod.splits)

lemma good_RunEvery: "good C w0 w \<Longrightarrow> good C w0 (snd (RunEvery d l i k w))"
  by (erule good_same) simp_all

lemma good_RunAfter: "good C w0 w \<Longrightarrow> good C w0 (snd (RunAfter d l i k w))"
  by (erule good_same) simp_all

lemma stop_timers_good: "good C w0 w \<Longrightarrow> good C w0 (stop_timers e timeout_ms w)"
  unfolding stop_timers_def Let_def split_beta
  by (intro good_upd_server good_RunAfter) (auto intro!: good_upd_server good_RunEvery)

lemma ExportPrometheusMetrics_good:
  assumes "good C w0 w"
  shows "leads (good C) w0 (ExportPrometheusMetrics e w)"
proof -
  obtain payload w1 where p: "GetPrometheusMetrics e w = (payload, w1)" by (cases "GetPrometheusMetrics e w")
  then have "good C w0 w1"
    using good_same [OF assms, of "snd (steady_now (dt e) w)"] assms
    by (auto simp: GetPrometheusMetrics_def Let_def split: prod.splits if_splits)
  moreover from this have "good C w0 (w1\<lparr>files := g\<rparr>)" for g by (rule good_same) simp_all
  ultimately show ?thesis
    unfolding ExportPrometheusMetrics_def Let_def p prod.case using assms
    by (intro leads_check leads_if leads_Inr) simp_all
qed

context server_user_env
begin

lemma action_good:
  assumes "good C w0 w" and "c \<in> C"
  shows "leads (good C) w0 (ForceClose (server_exec U) c w)" "leads (good C) w0 (Shutdown (server_exec U) c w)"
    "leads (good C) w0 (do_action (server_exec U) c a w)"
proof -
  have k: "leads (kept C) w (do_action (server_exec U) c a w)" for a
    unfolding leads_def kept_def using callbacks.do_action_evolves [OF _ assms(2)] by blast
  have s: "leads srv_rel w (do_action (server_exec U) c a w)" for a
    by (cases a) (auto intro!: leads_intros)
  show *: "leads (good C) w0 (do_action (server_exec U) c a w)" for a by (rule good_leads [OF assms(1) s k])
  show "leads (good C) w0 (ForceClose (server_exec U) c w)" "leads (good C) w0 (Shutdown (server_exec U) c w)"
    using * [of AForceClose] * [of AShutdown] by simp_all
qed

lemma on_call_good: "good C w0 w \<Longrightarrow> leads (good C) w0 (on_call U a w)"
  by (rule good_leads [OF _ on_call_leads [OF srv_rel_refl] on_call_kept_leads [OF kept_refl]])

lemma ForceClose_kept: "kept C w0 w \<Longrightarrow> c \<in> C \<Longrightarrow> leads (kept C) w0 (ForceClose (server_exec U) c w)"
  by (erule kept_leads) (simp add: kept_def callbacks.ForceClose_evolves)

lemma Finalize_good: "good C w0 w \<Longrightarrow> leads (good C) w0 (FinalizeGracefulStop (ForceClose (server_exec U)) U force_close w)"
  by (rule good_leads [OF _ FinalizeGracefulStop_leads [OF srv_rel_refl] FinalizeGracefulStop_kept [OF kept_refl]])
    (auto intro: conn.ForceClose_leads ForceClose_kept)

lemma remove_connection_good: "good C w0 w \<Longrightarrow> c \<in> C \<Longrightarrow> leads (good C) w0 (remove_connection U c w)"
  by (rule good_leads [OF _ remove_connection_leads [OF srv_rel_refl] remove_connection_kept [OF kept_refl]])

lemma shutdown_check_good: "good C w0 w \<Longrightarrow> leads (good C) w0 (shutdown_check U w)"
  unfolding shutdown_check_def by (intro leads_if leads_Inr Finalize_good)

lemma ScanIdleConnections_good:
  assumes g: "good C w0 w" and t: "tabled C w"
  shows "leads (good C) w0 (ScanIdleConnections U w)"
proof -
  have "c \<in> C" if "c \<in> set (idle_connections w)" for c using that tabledD [OF t] by (auto simp: idle_connections_def)
  then have "leads (good C) w0 (rfold (ForceClose (server_exec U)) (idle_connections w) w)"
    using g by (intro leads_rfold action_good(1))
  with g show ?thesis unfolding ScanIdleConnections_def by (intro leads_check leads_if leads_Inr)
qed

lemma walk_good:
  assumes f: "\<And>c w. good C w0 w \<Longrightarrow> c \<in> C \<Longrightarrow> leads (good C) w0 (f c w)" and "good C w0 w"
    and t: "tabled C w0"
  shows "leads (good C) w0 (walk_connections f fds w)"
  using assms(2)
proof (induction fds arbitrary: w)
  case (Cons fd fds)
  have "c \<in> C" if "map_of (connections w) fd = Some c" for c
    using tabledD [OF good_table [OF Cons.prems t]] that by (auto dest: map_of_SomeD)
  with Cons show ?case by (auto intro!: leads_option leads_rbind leads_if leads_Inl f)
qed (simp add: leads_Inr)

lemma StopGracefully_good:
  assumes t: "tabled C w"
  shows "leads (good C) w (StopGracefully e U timeout_ms cb w)"
proof -
  define w1 where "w1 = upd_server (\<lambda>s. s\<lparr>m_stopping := True, m_shutdown_complete_callback := cb\<rparr>) w"
  have w1: "good C w w1" "tabled C w1"
    unfolding w1_def using t by (auto intro!: good_upd_server simp: tabled_def connections_def)
  have "leads (good C) w (StopGracefully_in_loop e U timeout_ms cb w)"
    unfolding StopGracefully_in_loop_def w1_def [symmetric] for_connections_def Let_def [of w1]
    by (intro leads_check leads_if leads_option leads_Inr leads_rbind on_call_good walk_good action_good(2)
        Finalize_good Stop_good w1 stop_timers_good good_upd_server good_refl t) simp_all
  moreover have "good C w (QueueInLoop l k w)" for l k by (rule good_same [OF good_refl]) (simp_all add: next_obj_QueueInLoop)
  ultimately show ?thesis unfolding StopGracefully_def by (intro leads_if leads_Inr)
qed

lemma Start_good:
  assumes t: "tabled C w"
  shows "leads (good C) w (Start e w)"
proof -
  define w1 where "w1 = upd_server (\<lambda>s. s\<lparr>m_start_time := fst (steady_now (dt e) (upd_server (\<lambda>s. s\<lparr>m_started := True\<rparr>) w))\<rparr>)
    (snd (steady_now (dt e) (upd_server (\<lambda>s. s\<lparr>m_started := True\<rparr>) w)))"
  have "good C w (upd_server (\<lambda>s. s\<lparr>m_started := True\<rparr>) w)" by (intro good_upd_server good_refl) simp_all
  then have "good C w (snd (steady_now (dt e) (upd_server (\<lambda>s. s\<lparr>m_started := True\<rparr>) w)))"
    by (rule good_same) simp_all
  then have w1: "good C w w1" "tabled C w1"
    unfolding w1_def using t by (auto intro!: good_upd_server simp: tabled_def connections_def)
  show ?thesis
    unfolding Start_def Let_def split_beta w1_def [symmetric]
    by (intro leads_check leads_if leads_Inr leads_rbind Listen_good w1 ExportPrometheusMetrics_good good_upd_server
        good_RunEvery good_refl) (auto intro!: good_upd_server good_RunEvery)
qed

end

section \<open>Runs of a server program\<close>

text \<open>
  The connections numbered from \<open>base\<close> on are the server's. The channel of each has its own number;
  the acceptor's channel lies below.
\<close>

definition known :: "nat \<Rightarrow> ('a, 'z) srv_scheme \<Rightarrow> conn_id set" where
  "known base w = {base..<next_obj w}"

definition server_inv :: "nat \<Rightarrow> ('a, 'z) srv_scheme \<Rightarrow> bool" where
  "server_inv base w \<longleftrightarrow> srv_ok w \<and> net_ok {} (known base w) w \<and> snd ` set (connections w) \<subseteq> known base w \<and>
     (\<forall>c \<in> known base w. m_channel (conns w c) = c) \<and> set (notified w) \<subseteq> known base w \<and>
     m_listen_channel (acceptor w) < base \<and> base \<le> next_obj w \<and>
     unat (m_total_connections (server w)) = next_obj w - base"

text \<open>The connections a closure mentions.\<close>

fun closure_conns :: "'u closure \<Rightarrow> conn_id set" where
  "closure_conns (OnRead c) = {c}"
| "closure_conns (OnWrite c) = {c}"
| "closure_conns (OnClose c) = {c}"
| "closure_conns (OnError c) = {c}"
| "closure_conns (DoConnectEstablished c) = {c}"
| "closure_conns (DoConnectDestroyed c) = {c}"
| "closure_conns (DoShutdown c) = {c}"
| "closure_conns (DoForceClose c) = {c}"
| "closure_conns (DoSend c d) = {c}"
| "closure_conns (DoRemoveConnection c) = {c}"
| "closure_conns _ = {}"

text \<open>
  A run: closures that mention existing connections are executed in any order, by any threads, at
  any time; users call the interfaces of connections and server; the kernel's queues, clocks, loops
  and the running thread change at will.
\<close>

inductive server_run ::
  "env \<Rightarrow> ('a, ('a, 'z) srv_scheme) server_user \<Rightarrow> nat \<Rightarrow> ('a, 'z) srv_scheme \<Rightarrow> ('a, 'z) srv_scheme \<Rightarrow> bool"
  for e U base w0 where
  run_start: "server_run e U base w0 w0"
| run_closure: "server_run e U base w0 w \<Longrightarrow> closure_conns f \<subseteq> known base w \<Longrightarrow>
    unat (m_total_connections (server w)) + 1 < 18446744073709551616 \<Longrightarrow>
    run_server e U f w = Inr w' \<Longrightarrow> server_run e U base w0 w'"
| run_action: "server_run e U base w0 w \<Longrightarrow> c \<in> known base w \<Longrightarrow> do_action (server_exec U) c a w = Inr w' \<Longrightarrow>
    server_run e U base w0 w'"
| run_Start: "server_run e U base w0 w \<Longrightarrow> Start e w = Inr w' \<Longrightarrow> server_run e U base w0 w'"
| run_Stop: "server_run e U base w0 w \<Longrightarrow> StopGracefully e U timeout_ms cb w = Inr w' \<Longrightarrow> server_run e U base w0 w'"
| run_other: "server_run e U base w0 w \<Longrightarrow> conns w' = conns w \<Longrightarrow> channels w' = channels w \<Longrightarrow>
    notified w' = notified w \<Longrightarrow> sent w' = sent w \<Longrightarrow> accepted w' = accepted w \<Longrightarrow> server w' = server w \<Longrightarrow>
    next_obj w' = next_obj w \<Longrightarrow> acceptor w' = acceptor w \<Longrightarrow> server_run e U base w0 w'"

lemma server_inv_tabled: "server_inv base w \<Longrightarrow> tabled (known base w) w"
  by (auto simp: server_inv_def tabled_def known_def)

lemma server_inv_good:
  assumes inv: "server_inv base w" and g: "good (known base w) w w'"
  shows "server_inv base w'"
proof -
  have k: "known base w' = known base w" using g by (simp add: good_def srv_rel_def known_def)
  have t: "tabled (known base w) w" by (rule server_inv_tabled [OF inv])
  then have t': "tabled (known base w) w'" by (rule good_table [OF g])
  from t g have e: "net_ok {} (known base w) w'" "set (notified w') \<subseteq> set (notified w) \<union> known base w"
    "\<And>c. c \<in> known base w \<Longrightarrow> m_channel (conns w' c) = m_channel (conns w c)" "next_obj w' = next_obj w"
    "srv_ok w'" "m_listen_channel (acceptor w') = m_listen_channel (acceptor w)"
    "m_total_connections (server w') = m_total_connections (server w)"
    using inv by (auto simp: good_def srv_rel_def kept_def evolves_def server_inv_def)
  then show ?thesis using inv t' unfolding server_inv_def k tabled_def by auto
qed


subsection \<open>Taking a new connection\<close>

text \<open>The fields \<open>add_connection\<close> leaves in the new connection, and what it does to the rest.\<close>

definition installed :: "'a server \<Rightarrow> 'a server_cb conn \<Rightarrow> 'a server_cb conn" where
  "installed s cn = cn\<lparr>m_connection_callback := map_option UserCb (m_srv_connection_callback s),
     m_message_callback := map_option UserCb (m_srv_message_callback s),
     m_write_complete_callback := map_option UserCb (m_srv_write_complete_callback s),
     m_high_water_mark := m_high_water_mark_bytes s, m_high_water_mark_callback := Some HighWater,
     m_conn_close_callback := Some RemoveConnection\<rparr>"

definition conn_name :: "env \<Rightarrow> SocketType \<Rightarrow> Address \<Rightarrow> string" where
  "conn_name e fd addr = ''Conn-'' @ Address_ToString (host e) addr @ ''-'' @ to_string fd"

lemma add_connection_eq:
  "add_connection e l fd addr w = (next_obj w,
     upd_server (\<lambda>s. s\<lparr>m_total_connections := m_total_connections s + 1,
       m_connections := AList.update fd (next_obj w) (m_connections s)\<rparr>)
       (upd_conn (next_obj w) (installed (server w))
         (TcpConnection (next_obj w) l (conn_name e fd addr) fd addr (next_obj w) (w\<lparr>next_obj := Suc (next_obj w)\<rparr>))))"
  by (simp add: add_connection_def Let_def installed_def conn_name_def SetConnectionCallback_conn_def
      SetMessageCallback_conn_def SetWriteCompleteCallback_conn_def SetHighWaterMarkCallback_conn_def
      SetCloseCallback_conn_def upd_conn_def upd_server_def GetFd_def TcpConnection_def RefreshActiveTime_def
      upd_channel_def)

lemma TcpConnection_server [simp]:
  "server (TcpConnection c l n fd addr ch w) = server w" "next_obj (TcpConnection c l n fd addr ch w) = next_obj w"
  "acceptor (TcpConnection c l n fd addr ch w) = acceptor w" "notified (TcpConnection c l n fd addr ch w) = notified w"
  "d \<noteq> c \<Longrightarrow> conns (TcpConnection c l n fd addr ch w) d = conns w d"
  "m_channel (conns (TcpConnection c l n fd addr ch w) c) = ch"
  "server (upd_conn c f w) = server w" "next_obj (upd_conn c f w) = next_obj w" "acceptor (upd_conn c f w) = acceptor w"
  by (simp_all add: TcpConnection_def RefreshActiveTime_def upd_conn_def upd_channel_def Let_def)

lemma length_AList_update: "length (AList.update k v xs) \<le> Suc (length xs)"
  by (induction xs) auto

lemma set_AList_update: "set (AList.update k v xs) \<subseteq> insert (k, v) (set xs)"
  by (induction xs) auto

lemma add_connection_inv:
  assumes inv: "server_inv base w" and bound: "unat (m_total_connections (server w)) + 1 < 18446744073709551616"
  shows "server_inv base (snd (add_connection e l fd addr w))"
proof -
  let ?c = "next_obj w"
  define w1 where "w1 = TcpConnection ?c l (conn_name e fd addr) fd addr ?c (w\<lparr>next_obj := Suc ?c\<rparr>)"
  define w2 where "w2 = upd_conn ?c (installed (server w)) w1"
  define w3 where "w3 = upd_server (\<lambda>s. s\<lparr>m_total_connections := m_total_connections s + 1,
       m_connections := AList.update fd ?c (m_connections s)\<rparr>) w2"
  have eq: "snd (add_connection e l fd addr w) = w3" by (simp add: add_connection_eq w1_def w2_def w3_def)
  have base: "base \<le> ?c" and listen: "m_listen_channel (acceptor w) < base" and ok: "srv_ok w"
    and table: "snd ` set (connections w) \<subseteq> known base w" and chans: "\<And>d. d \<in> known base w \<Longrightarrow> m_channel (conns w d) = d"
    and noted: "set (notified w) \<subseteq> known base w" and net: "net_ok {} (known base w) w"
    using inv by (auto simp: server_inv_def)
  have k: "known base w3 = insert ?c (known base w)"
    using base by (auto simp: known_def w3_def w2_def w1_def)
  have "net_ok {} (known base w) (w\<lparr>next_obj := Suc ?c\<rparr>)" using net by (simp add: net_ok_def conn_ok_def)
  then have "net_ok {} (insert ?c (known base w)) w1"
    unfolding w1_def using chans noted by (intro TcpConnection_ok) (auto simp: known_def)
  then have "net_ok {} (insert ?c (known base w)) w2"
    using evolves_upd_same [where J = "\<lambda>_ _. True" and C = "insert ?c (known base w)" and c = ?c and f = "installed (server w)"]
    by (auto simp: w2_def installed_def evolves_def)
  then have net3: "net_ok {} (insert ?c (known base w)) w3" by (simp add: w3_def net_ok_def conn_ok_def)
  have total: "unat (m_total_connections (server w) + 1) = unat (m_total_connections (server w)) + 1"
    using unat_add_size_t [of "m_total_connections (server w)" 1] bound by simp
  have "srv_ok w3"
    using ok length_AList_update [of fd ?c "m_connections (server w)"] total
    by (simp add: srv_ok_def connections_def w3_def w2_def w1_def distinct_update)
  moreover have "snd ` set (connections w3) \<subseteq> insert ?c (known base w)"
    using table set_AList_update [of fd ?c "m_connections (server w)"]
    by (force simp: connections_def w3_def w2_def w1_def)
  moreover have "m_channel (conns w3 d) = d" if "d \<in> insert ?c (known base w)" for d
    using that chans by (cases "d = ?c") (auto simp: w3_def w2_def w1_def installed_def known_def)
  moreover have "set (notified w3) \<subseteq> insert ?c (known base w)" using noted by (auto simp: w3_def w2_def w1_def)
  moreover have "m_listen_channel (acceptor w3) < base" "base \<le> next_obj w3"
    using listen base by (simp_all add: w3_def w2_def w1_def)
  moreover have "unat (m_total_connections (server w3)) = next_obj w3 - base"
    using total base inv by (simp add: w3_def w2_def w1_def server_inv_def)
  ultimately show ?thesis unfolding eq server_inv_def k using net3 by blast
qed

lemma NextLoop_cases:
  assumes "NextLoop w = Inr (l, w')"
  shows "w' = w \<or> w' = upd_server (\<lambda>s. s\<lparr>m_next_loop_idx := m_next_loop_idx s + 1\<rparr>) w"
  using assms by (auto simp: NextLoop_def Let_def split: if_splits)

context server_user_env
begin

lemma HandleNewConnection_inv:
  assumes inv: "server_inv base w" and bound: "unat (m_total_connections (server w)) + 1 < 18446744073709551616"
    and r: "HandleNewConnection e U fd addr w = Inr w'"
  shows "server_inv base w'"
proof (cases "m_stopping (server w)")
  case True
  with r have w': "w' = w\<lparr>closes := closes w @ [fd]\<rparr>" by (auto simp: HandleNewConnection_def rbind_eq_Inr_iff)
  have "good (known base w) w w'" unfolding w' by (rule good_same [OF good_refl]) simp_all
  with inv show ?thesis by (rule server_inv_good)
next
  case False
  with r obtain l w1 where nl: "NextLoop w = Inr (l, w1)"
    and est: "RunInLoop (\<lambda>_. ConnectEstablished (server_exec U) (next_obj w1)) l
      (DoConnectEstablished (next_obj w1)) (snd (add_connection e l fd addr w1)) = Inr w'"
    by (auto simp: HandleNewConnection_def rbind_eq_Inr_iff add_connection_eq)
  have "good (known base w) w w1"
    using NextLoop_cases [OF nl] by (auto intro!: good_upd_server)
  then have "server_inv base w1" by (rule server_inv_good [OF inv])
  moreover have "m_total_connections (server w1) = m_total_connections (server w)"
    using NextLoop_cases [OF nl] by auto
  ultimately have inv2: "server_inv base (snd (add_connection e l fd addr w1))"
    using add_connection_inv bound by metis
  define w2 where "w2 = snd (add_connection e l fd addr w1)"
  have c: "next_obj w1 \<in> known base w2"
    using \<open>server_inv base w1\<close> by (simp add: w2_def add_connection_eq known_def server_inv_def)
  have "good (known base w2) w2 w'"
  proof (cases "IsInLoopThread l w2")
    case True
    with est have "do_action (server_exec U) (next_obj w1) AEstablish w2 = Inr w'"
      by (simp add: RunInLoop_def w2_def)
    with action_good(3) [OF good_refl c, of w2 AEstablish] show ?thesis by (simp add: leads_def)
  next
    case False
    with est have "w' = QueueInLoop l (DoConnectEstablished (next_obj w1)) w2" by (simp add: RunInLoop_def w2_def)
    then show ?thesis by (auto intro: good_same [OF good_refl])
  qed
  with inv2 show ?thesis unfolding w2_def [symmetric] by (rule server_inv_good)
qed

lemma HandleAccept_inv:
  assumes inv: "server_inv base w" and bound: "unat (m_total_connections (server w)) + 1 < 18446744073709551616"
    and r: "HandleAccept (Some (HandleNewConnection e U)) w = Inr w'"
  shows "server_inv base w'"
proof -
  obtain client w1 where sys: "sys_accept w = (client, w1)" by (cases "sys_accept w")
  then have "good (known base w) w w1" and same: "server w1 = server w"
    by (auto simp: sys_accept_def intro!: good_same [OF good_refl] split: if_splits list.splits sum.splits prod.splits)
  then have inv1: "server_inv base w1" using server_inv_good [OF inv] by blast
  from r sys show ?thesis
    using inv1 HandleNewConnection_inv [OF inv1, of e] bound same
    by (auto simp: HandleAccept_def rbind_eq_Inr_iff split: option.splits prod.splits)
qed

lemma run_closure_good:
  assumes inv: "server_inv base w" and f: "closure_conns f \<subseteq> known base w" and "f \<noteq> OnAccept"
  shows "leads (good (known base w)) w (run_server e U f w)"
proof -
  let ?C = "known base w"
  have t: "tabled ?C w" by (rule server_inv_tabled [OF inv])
  have act: "leads (good ?C) w (do_action (server_exec U) c a w)" if "c \<in> ?C" for c a
    by (rule action_good(3) [OF good_refl that])
  have wake: "good ?C w (HandleWakeupRead l w)" for l
    by (rule good_same [OF good_refl]) (simp_all add: HandleWakeupRead_eq upd_loop_def)
  show ?thesis
  proof (cases f)
    case (User u)
    then show ?thesis
      using on_call_good [OF good_refl] by (cases u) (auto simp: run_server_def run_conn_def intro: leads_Inr)
  qed (use f assms(3) act [of _ ARead] act [of _ AWrite] act [of _ AClose] act [of _ AError] act [of _ AEstablish]
      act [of _ ADestroy] act [of _ AShutdownInLoop] act [of _ AForceCloseInLoop] act [of _ "ASendInLoop _ _"] wake
      Stop_good [OF good_refl t] remove_connection_good [OF good_refl] StopGracefully_good [OF t]
      ScanIdleConnections_good [OF good_refl t] shutdown_check_good [OF good_refl] Finalize_good [OF good_refl]
      ExportPrometheusMetrics_good [OF good_refl] in \<open>auto simp: run_server_def run_conn_def intro: leads_Inr\<close>)
qed

lemma server_run_inv:
  assumes "server_run e U base w0 w" and "server_inv base w0"
  shows "server_inv base w"
  using assms
proof (induction rule: server_run.induct)
  case (run_closure w f w')
  show ?case
  proof (cases "f = OnAccept")
    case True
    with run_closure show ?thesis using HandleAccept_inv by (auto simp: run_server_def run_conn_def)
  next
    case False
    with run_closure run_closure_good [of base w f e] server_inv_good show ?thesis by (auto simp: leads_def)
  qed
next
  case (run_action w c a w')
  have "good (known base w) w w'"
    using action_good(3) [OF good_refl run_action.hyps(2), of w a] run_action.hyps(3) by (simp add: leads_def)
  with run_action server_inv_good show ?case by blast
next
  case (run_Start w w')
  have "tabled (known base w) w" using run_Start by (intro server_inv_tabled)
  with run_Start Start_good server_inv_good show ?case unfolding leads_def by blast
next
  case (run_Stop w timeout_ms cb w')
  have "tabled (known base w) w" using run_Stop by (intro server_inv_tabled)
  with run_Stop StopGracefully_good server_inv_good show ?case unfolding leads_def by blast
next
  case (run_other w w')
  then have "good (known base w) w w'" by (intro good_same [OF good_refl]) simp_all
  with run_other server_inv_good show ?case by blast
qed

end

end
