(* ===== verification/Length_Field_Codec.thy ===== *)
theory Length_Field_Codec
  imports Byte_Buffer
begin

text \<open>
  The length-prefixed codec of \<open>include/length_field_codec.h\<close> and
  \<open>src/length_field_codec.cpp\<close>. The connection is seen through the operations the codec calls
  on it: \<open>IsConnected\<close>, \<open>Send\<close> and \<open>ForceClose\<close>, arguments of the definitions that act on a
  state \<open>'w\<close>; the message callback is an optional function, as a \<open>std::function\<close> may be empty.
  The decoding loop is compared with \<open>decode_frames\<close>, a function on byte lists.
\<close>

section \<open>The codec\<close>

definition default_max_frame_len :: size_t where
  "default_max_frame_len = 4 * 1024 * 1024"

text \<open>\<open>static_cast<size_t>\<close> of an \<open>int32_t\<close>.\<close>

definition size_of_int32 :: "int32 \<Rightarrow> size_t" where
  "size_of_int32 x = of_int (sint x)"

lemma Retrieve_ReadableBytes:
  "Retrieve len b = Inr b' \<Longrightarrow>
   len \<le> ReadableBytes b \<and> ReadableBytes b' = ReadableBytes b - len"
  by (auto simp: Retrieve_def ReadableBytes_def elim!: rbind_InrE)

lemma RetrieveAsString_ReadableBytes:
  "RetrieveAsString len b = Inr (s, b') \<Longrightarrow>
   len \<le> ReadableBytes b \<and> ReadableBytes b' = ReadableBytes b - len"
  by (auto simp: RetrieveAsString_def elim!: rbind_InrE dest!: Retrieve_ReadableBytes)

lemma frame_consumes:
  assumes "\<not> ReadableBytes b < 4" and "Retrieve 4 b = Inr b1"
    and "RetrieveAsString n b1 = Inr (m, b2)"
  shows "unat (ReadableBytes b2) < unat (ReadableBytes b)"
proof -
  have "unat (ReadableBytes b1) = unat (ReadableBytes b) - 4" "4 \<le> unat (ReadableBytes b)"
    using assms(1) Retrieve_ReadableBytes [OF assms(2)]
    by (simp_all add: word_le_nat_alt word_less_nat_alt size_simps)
  moreover have "unat (ReadableBytes b2) \<le> unat (ReadableBytes b1)"
    using RetrieveAsString_ReadableBytes [OF assms(3)]
    by (simp add: word_le_nat_alt size_simps)
  ultimately show ?thesis by simp
qed

function (sequential) OnMessage ::
  "endian \<Rightarrow> size_t \<Rightarrow> (string \<Rightarrow> 'w \<Rightarrow> 'w result) option \<Rightarrow> ('w \<Rightarrow> 'w result)
   \<Rightarrow> buffer \<Rightarrow> 'w \<Rightarrow> (buffer \<times> 'w) result" where
  "OnMessage e m_max_frame_len m_message_callback conn_ForceClose b w =
     (if ReadableBytes b < 4 then Inr (b, w)
      else
        rbind (PeekInt32 e b) (\<lambda>payload_len.
        if sint payload_len < 0 \<or> m_max_frame_len < size_of_int32 payload_len then
          rbind (conn_ForceClose w) (\<lambda>w'. Inr (b, w'))
        else
          let frame_len = 4 + size_of_int32 payload_len in
          if ReadableBytes b < frame_len then Inr (b, w)
          else
            rbind (Retrieve 4 b) (\<lambda>b1.
            rbind (RetrieveAsString (size_of_int32 payload_len) b1) (\<lambda>mb.
            rbind (case m_message_callback of None \<Rightarrow> Inr w | Some cb \<Rightarrow> cb (fst mb) w) (\<lambda>w'.
            OnMessage e m_max_frame_len m_message_callback conn_ForceClose (snd mb) w')))))"
  by pat_completeness auto
termination
  by (relation "measure (\<lambda>(e, mx, cb, fc, b, w). unat (ReadableBytes b))")
    (auto intro: frame_consumes)

declare OnMessage.simps [simp del]

definition framed :: "endian \<Rightarrow> string \<Rightarrow> string" where
  "framed e message = object_bytes e (HostToNetLong e (of_nat (length message))) @ message"

definition Send_codec ::
  "endian \<Rightarrow> ('w \<Rightarrow> bool) \<Rightarrow> (string \<Rightarrow> 'w \<Rightarrow> 'w result) \<Rightarrow> string \<Rightarrow> 'w \<Rightarrow> 'w result" where
  "Send_codec e conn_IsConnected conn_Send message w =
     (if \<not> conn_IsConnected w then Inr w else conn_Send (framed e message) w)"

definition HandleHeartbeat ::
  "endian \<Rightarrow> (string \<Rightarrow> 'w \<Rightarrow> 'w result) \<Rightarrow> string \<Rightarrow> 'w \<Rightarrow> (bool \<times> 'w) result" where
  "HandleHeartbeat e conn_Send message w =
     (if message = ''PING'' then
        rbind (conn_Send (object_bytes e (HostToNetLong e 4) @ ''PONG'') w) (\<lambda>w'. Inr (True, w'))
      else Inr (False, w))"

section \<open>The decoding function\<close>

text \<open>
  The messages a byte string holds, the bytes that remain, and whether the remaining bytes start
  with a length the codec refuses.
\<close>

function decode_frames :: "size_t \<Rightarrow> string \<Rightarrow> string list \<times> string \<times> bool" where
  "decode_frames mx s =
     (if length s < 4 then ([], s, False)
      else
        let n = be_value (take 4 s) in
        if sint n < 0 \<or> mx < size_of_int32 n then ([], s, True)
        else if length s < 4 + unat n then ([], s, False)
        else
          let (ms, r, bad) = decode_frames mx (drop (4 + unat n) s)
          in (take (unat n) (drop 4 s) # ms, r, bad))"
  by pat_completeness auto
termination
  by (relation "measure (\<lambda>(mx, s). length s)") auto

declare decode_frames.simps [simp del]

lemma size_of_int32_nonneg:
  assumes "0 \<le> sint (x :: int32)"
  shows "unat (size_of_int32 x) = unat x" and "unat x < 2147483648"
proof -
  have lt: "sint x < 2147483648" using sint_lt [of x] by simp
  have stb: "sint x = signed_take_bit 31 (uint x)"
    using sint_uint [of x] by simp
  then have "\<not> bit (uint x) 31"
    using assms by (simp flip: signed_take_bit_negative_iff)
  moreover have "take_bit (Suc 31) (uint x) = uint x"
    using uint_lt2p [of x] by (intro take_bit_int_eq_self) simp_all
  ultimately have eq: "sint x = uint x"
    unfolding stb signed_take_bit_eq_take_bit_minus by simp
  then have eq': "sint x = int (unat x)" by simp
  with lt have "int (unat x) < int 2147483648" by simp
  then show u: "unat x < 2147483648" by (simp only: of_nat_less_iff)
  have "size_of_int32 x = of_nat (unat x)"
    by (simp only: size_of_int32_def eq' of_int_of_nat_eq)
  then show "unat (size_of_int32 x) = unat x"
    using u unat_of_nat_size_t [of "unat x"] by simp
qed

lemma size_of_int32_of_nat:
  assumes "n < 2147483648"
  shows "0 \<le> sint (of_nat n :: int32)" and "unat (of_nat n :: int32) = n"
    and "size_of_int32 (of_nat n) = of_nat n"
proof -
  show u: "unat (of_nat n :: int32) = n" using assms by (simp add: unat_of_nat)
  have "uint (of_nat n :: int32) = int n"
    using u by (metis uint_nat)
  then have s: "sint (of_nat n :: int32) = int n"
    using assms by (simp add: sint_uint signed_take_bit_int_eq_self)
  then show "0 \<le> sint (of_nat n :: int32)" by simp
  show "size_of_int32 (of_nat n) = of_nat n" by (simp add: size_of_int32_def s)
qed

section \<open>The loop computes the decoding function\<close>

definition run_callback :: "(string \<Rightarrow> 'w \<Rightarrow> 'w result) option \<Rightarrow> string \<Rightarrow> 'w \<Rightarrow> 'w result" where
  "run_callback cb m w = (case cb of None \<Rightarrow> Inr w | Some f \<Rightarrow> f m w)"

text \<open>One iteration that finds a whole frame.\<close>

lemma OnMessage_frame:
  assumes wf: "wf_buffer b" and four: "4 \<le> length (content b)"
    and n: "be_value (take 4 (content b)) = n" and ok: "0 \<le> sint n" "\<not> mx < size_of_int32 n"
    and whole: "4 + unat n \<le> length (content b)"
  shows "\<exists>b2. wf_buffer b2 \<and> content b2 = drop (4 + unat n) (content b)
    \<and> m_write_idx b2 = m_write_idx b
    \<and> (\<forall>w. OnMessage e mx cb fc b w
      = rbind (run_callback cb (take (unat n) (drop 4 (content b))) w) (OnMessage e mx cb fc b2))"
proof -
  define b1 where "b1 = b\<lparr>m_read_idx := m_read_idx b + 4\<rparr>"
  define b2 where "b2 = b1\<lparr>m_read_idx := m_read_idx b1 + size_of_int32 n\<rparr>"
  have four': "unat (4 :: size_t) \<le> length (content b)" using four by simp
  note r1 = Retrieve_ok [OF wf four', folded b1_def]
  have un: "unat (size_of_int32 n) = unat n" using ok(1) by (rule size_of_int32_nonneg)
  then have len: "unat (size_of_int32 n) \<le> length (content b1)"
    using r1(3) whole by simp
  note r2 = RetrieveAsString_ok [OF r1(2) len, folded b2_def] Retrieve_ok [OF r1(2) len, folded b2_def]
  have "unat (4 + size_of_int32 n) = 4 + unat n"
    using size_of_int32_nonneg [OF ok(1)] by (simp add: size_simps)
  then have guards: "\<not> ReadableBytes b < 4" "\<not> ReadableBytes b < 4 + size_of_int32 n"
    using four whole by (simp_all add: word_less_nat_alt unat_ReadableBytes [OF wf])
  have "OnMessage e mx cb fc b w
      = rbind (run_callback cb (take (unat n) (drop 4 (content b))) w) (OnMessage e mx cb fc b2)" for w
    using guards ok PeekInt32_ok [OF wf four, of e] n r1 r2(1) un
    by (simp add: OnMessage.simps [of e mx cb fc b w] Let_def run_callback_def split: option.splits)
  moreover have "content b2 = drop (4 + unat n) (content b)"
    using r1(3) r2(4) un by (simp add: add.commute [of 4 "unat n"])
  ultimately show ?thesis
    using r2(3) by (auto simp: b2_def b1_def)
qed

lemma OnMessage_decodes:
  "wf_buffer b \<Longrightarrow> decode_frames mx (content b) = (ms, r, bad) \<Longrightarrow>
   \<exists>b'. wf_buffer b' \<and> content b' = r \<and> m_write_idx b' = m_write_idx b
     \<and> (\<forall>w. OnMessage e mx cb fc b w
        = rbind (rfold (run_callback cb) ms w) (\<lambda>w'.
          rbind (if bad then fc w' else Inr w') (\<lambda>w''. Inr (b', w''))))"
proof (induction mx "content b" arbitrary: b ms r bad rule: decode_frames.induct)
  case (1 mx b)
  note wf = "1.prems"(1)
  define s where "s = content b"
  define n where "n = be_value (take 4 s)"
  note dec = "1.prems"(2) [unfolded decode_frames.simps [of mx "content b"] Let_def, folded s_def, folded n_def]
  have readable: "ReadableBytes b < k \<longleftrightarrow> length s < unat k" for k
    by (simp add: word_less_nat_alt unat_ReadableBytes [OF wf] s_def)
  show ?case
  proof (cases "length s < 4")
    case True
    with dec wf readable [of 4] show ?thesis
      by (intro exI [of _ b]) (simp add: OnMessage.simps [of e mx cb fc b] s_def)
  next
    case four: False
    then have peek: "PeekInt32 e b = Inr n"
      using PeekInt32_ok [OF wf, of e] by (simp add: s_def n_def)
    show ?thesis
    proof (cases "sint n < 0 \<or> mx < size_of_int32 n")
      case True
      with dec four peek wf readable [of 4] show ?thesis
        by (intro exI [of _ b]) (auto simp: OnMessage.simps [of e mx cb fc b] s_def)
    next
      case ok: False
      then have nonneg: "0 \<le> sint n" by simp
      note un = size_of_int32_nonneg [OF nonneg]
      have frame: "unat (4 + size_of_int32 n) = 4 + unat n"
        using un by (simp add: size_simps)
      show ?thesis
      proof (cases "length s < 4 + unat n")
        case True
        with dec four ok peek wf readable [of 4] readable [of "4 + size_of_int32 n"] frame
        show ?thesis
          by (intro exI [of _ b]) (auto simp: OnMessage.simps [of e mx cb fc b] Let_def s_def)
      next
        case whole: False
        obtain ms' where ms: "ms = take (unat n) (drop 4 s) # ms'"
          and rest: "decode_frames mx (drop (4 + unat n) s) = (ms', r, bad)"
          using dec four ok whole by (auto split: prod.splits)
        obtain b2 where b2: "wf_buffer b2" "content b2 = drop (4 + unat n) s"
          "m_write_idx b2 = m_write_idx b"
          "\<And>w. OnMessage e mx cb fc b w
            = rbind (run_callback cb (take (unat n) (drop 4 s)) w) (OnMessage e mx cb fc b2)"
          using OnMessage_frame [OF wf, of n mx e cb fc] four ok whole nonneg
          by (auto simp: s_def n_def)
        have "\<exists>b'. wf_buffer b' \<and> content b' = r \<and> m_write_idx b' = m_write_idx b2
            \<and> (\<forall>w. OnMessage e mx cb fc b2 w
              = rbind (rfold (run_callback cb) ms' w) (\<lambda>w'.
                rbind (if bad then fc w' else Inr w') (\<lambda>w''. Inr (b', w''))))"
          using four ok whole b2(1,2) rest
          by (intro "1.hyps") (simp_all add: s_def n_def)
        then obtain b' where b': "wf_buffer b'" "content b' = r" "m_write_idx b' = m_write_idx b2"
          "OnMessage e mx cb fc b2 = (\<lambda>w. rbind (rfold (run_callback cb) ms' w) (\<lambda>w'.
                rbind (if bad then fc w' else Inr w') (\<lambda>w''. Inr (b', w''))))"
          by (auto simp: fun_eq_iff)
        with b2(3,4) show ?thesis
          by (intro exI [of _ b']) (simp add: ms rbind_assoc)
      qed
    qed
  qed
qed

section \<open>Frames, chunks and whole streams\<close>

text \<open>What a sender puts on the wire does not depend on its byte order.\<close>

lemma framed_eq: "framed e m = be_bytes (of_nat (length m)) @ m"
  by (simp add: framed_def)

lemma decode_short: "length s < 4 \<Longrightarrow> decode_frames mx s = ([], s, False)"
  by (simp add: decode_frames.simps)

definition fits_frame :: "size_t \<Rightarrow> string \<Rightarrow> bool" where
  "fits_frame mx m \<longleftrightarrow> length m < 2147483648 \<and> length m \<le> unat mx"

lemma fits_frame_header:
  assumes "fits_frame mx m"
  shows "0 \<le> sint (of_nat (length m) :: int32)" and "unat (of_nat (length m) :: int32) = length m"
    and "\<not> mx < size_of_int32 (of_nat (length m))"
  using assms size_of_int32_of_nat [of "length m"]
  by (simp_all add: fits_frame_def word_less_nat_alt unat_of_nat_size_t)

lemma decode_framed:
  assumes "fits_frame mx m" and "decode_frames mx s = (ms, r, bad)"
  shows "decode_frames mx (framed e m @ s) = (m # ms, r, bad)"
  unfolding framed_eq using assms fits_frame_header [OF assms(1)]
  by (simp add: decode_frames.simps [of mx "be_bytes (of_nat (length m)) @ m @ s"] Let_def not_less)

lemma decode_framed_list:
  assumes "\<forall>m \<in> set ms. fits_frame mx m" and "decode_frames mx s = (ms', r, bad)"
  shows "decode_frames mx (concat (map (framed e) ms) @ s) = (ms @ ms', r, bad)"
  using assms by (induction ms) (simp_all add: decode_framed)

text \<open>More bytes never change what has been decoded: decoding can be resumed on the rest.\<close>

lemma decode_append:
  "decode_frames mx s = (ms, r, False) \<Longrightarrow> decode_frames mx (r @ t) = (ms', r', bad) \<Longrightarrow>
   decode_frames mx (s @ t) = (ms @ ms', r', bad)"
proof (induction mx s arbitrary: ms rule: decode_frames.induct)
  case (1 mx s)
  define n where "n = be_value (take 4 s)"
  note dec = "1.prems"(1) [unfolded decode_frames.simps [of mx s] Let_def, folded n_def]
  show ?case
  proof (cases "length s < 4 + unat n \<or> length s < 4")
    case True
    with dec have "ms = [] \<and> r = s" by (auto split: if_splits)
    with "1.prems"(2) show ?thesis by simp
  next
    case False
    then have four: "\<not> length s < 4" and whole: "\<not> length s < 4 + unat n" by simp_all
    with dec have ok: "\<not> (sint n < 0 \<or> mx < size_of_int32 n)" by (auto split: if_splits)
    obtain m ms1 where ms: "ms = m # ms1" "m = take (unat n) (drop 4 s)"
      and rest: "decode_frames mx (drop (4 + unat n) s) = (ms1, r, False)"
      using dec four whole ok by (auto split: prod.splits)
    have IH: "decode_frames mx (drop (4 + unat n) s @ t) = (ms1 @ ms', r', bad)"
      using "1.IH" [OF four n_def ok whole rest "1.prems"(2)] .
    have "take 4 (s @ t) = take 4 s" "drop (4 + unat n) (s @ t) = drop (4 + unat n) s @ t"
      "take (unat n) (drop 4 (s @ t)) = m"
      using four whole by (simp_all add: ms(2))
    then show ?thesis
      using four whole ok IH
      by (simp add: decode_frames.simps [of mx "s @ t"] ms(1) flip: n_def)
  qed
qed

lemma decode_rest:
  "decode_frames mx s = (ms, r, False) \<Longrightarrow> decode_frames mx r = ([], r, False)"
proof (induction mx s arbitrary: ms rule: decode_frames.induct)
  case (1 mx s)
  show ?case
    using "1.prems" "1.IH" by (subst (asm) decode_frames.simps)
      (auto simp: Let_def split: if_splits prod.splits, auto simp: decode_frames.simps Let_def)
qed

lemma decode_bad_append:
  "decode_frames mx s = (ms, r, True) \<Longrightarrow> decode_frames mx (s @ t) = (ms, r @ t, True)"
proof (induction mx s arbitrary: ms rule: decode_frames.induct)
  case (1 mx s)
  define n where "n = be_value (take 4 s)"
  note dec = "1.prems" [unfolded decode_frames.simps [of mx s] Let_def, folded n_def]
  from dec have four: "\<not> length s < 4" by (auto split: if_splits)
  then have n: "be_value (take 4 (s @ t)) = n" by (simp add: n_def)
  show ?case
  proof (cases "sint n < 0 \<or> mx < size_of_int32 n")
    case True
    with dec four have "ms = []" "r = s" by auto
    with four n True show ?thesis
      by (subst decode_frames.simps) (simp add: Let_def)
  next
    case ok: False
    with dec four have whole: "\<not> length s < 4 + unat n" by (auto split: if_splits)
    with dec four ok obtain ms1 where ms: "ms = take (unat n) (drop 4 s) # ms1"
      and rest: "decode_frames mx (drop (4 + unat n) s) = (ms1, r, True)"
      by (auto split: prod.splits)
    from "1.IH" [OF four n_def ok whole rest]
    have "decode_frames mx (drop (4 + unat n) s @ t) = (ms1, r @ t, True)" .
    with four whole ok n ms show ?thesis
      by (simp add: decode_frames.simps [of mx "s @ t"])
  qed
qed

text \<open>A connection's reads: each chunk is appended to the buffer and handed to the codec.\<close>

definition feed ::
  "endian \<Rightarrow> size_t \<Rightarrow> (string \<Rightarrow> 'w \<Rightarrow> 'w result) option \<Rightarrow> ('w \<Rightarrow> 'w result)
   \<Rightarrow> string list \<Rightarrow> buffer \<times> 'w \<Rightarrow> (buffer \<times> 'w) result" where
  "feed e mx cb fc =
     rfold (\<lambda>chunk (b, w). rbind (Append_string chunk b) (\<lambda>b'. OnMessage e mx cb fc b' w))"

lemma feed_decodes:
  assumes "wf_buffer b" and "unat (m_write_idx b) + length (concat chunks) \<le> max_size"
    and "decode_frames mx (content b) = ([], content b, False)"
    and "decode_frames mx (content b @ concat chunks) = (ms, r, False)"
  shows "\<exists>b'. wf_buffer b' \<and> content b' = r \<and> (\<forall>w. feed e mx cb fc chunks (b, w)
    = rbind (rfold (run_callback cb) ms w) (\<lambda>w'. Inr (b', w')))"
  using assms
proof (induction chunks arbitrary: b ms)
  case Nil
  then show ?case by (intro exI [of _ b]) (simp add: feed_def)
next
  case (Cons c chunks)
  then obtain b1 where b1: "Append_string c b = Inr b1" "wf_buffer b1" "content b1 = content b @ c"
    "unat (m_write_idx b1) \<le> unat (m_write_idx b) + length c"
    using Append_string_ok [OF Cons.prems(1), of c] by auto
  obtain ms1 r1 bad1 where d1: "decode_frames mx (content b1) = (ms1, r1, bad1)"
    by (cases "decode_frames mx (content b1)") auto
  with Cons.prems(4) decode_bad_append [of mx "content b1" ms1 r1 "concat chunks"]
  have d1: "decode_frames mx (content b1) = (ms1, r1, False)"
    by (cases bad1) (auto simp: b1(3))
  obtain ms2 r2 bad2 where d2: "decode_frames mx (r1 @ concat chunks) = (ms2, r2, bad2)"
    by (cases "decode_frames mx (r1 @ concat chunks)") auto
  with decode_append [OF d1 d2] Cons.prems(4)
  have d2: "decode_frames mx (r1 @ concat chunks) = (ms2, r, False)" and ms: "ms = ms1 @ ms2"
    by (auto simp: b1(3))
  from OnMessage_decodes [OF b1(2) d1, of e cb fc] obtain b2 where
    b2: "wf_buffer b2" "content b2 = r1" "m_write_idx b2 = m_write_idx b1"
      "\<And>w. OnMessage e mx cb fc b1 w
        = rbind (rfold (run_callback cb) ms1 w) (\<lambda>w'. Inr (b2, w'))"
    by auto
  have "\<exists>b'. wf_buffer b' \<and> content b' = r \<and> (\<forall>w. feed e mx cb fc chunks (b2, w)
      = rbind (rfold (run_callback cb) ms2 w) (\<lambda>w'. Inr (b', w')))"
    using b2 b1(4) Cons.prems(2) d2 decode_rest [OF d1] by (intro Cons.IH) simp_all
  then obtain b' where b': "wf_buffer b'" "content b' = r"
    "\<And>w. feed e mx cb fc chunks (b2, w)
      = rbind (rfold (run_callback cb) ms2 w) (\<lambda>w'. Inr (b', w'))" by blast
  then show ?case
    using b1(1) b2(4)
    by (intro exI [of _ b']) (simp add: feed_def ms rfold_append rbind_assoc)
qed

lemma run_callback_Some [simp]: "run_callback (Some f) = f"
  by (simp add: run_callback_def fun_eq_iff)

lemma decode_refused:
  assumes "sint n < 0 \<or> mx < size_of_int32 n"
  shows "decode_frames mx (be_bytes n @ t) = ([], be_bytes n @ t, True)"
  using assms by (auto simp: decode_frames.simps [of mx "be_bytes n @ t"])

section \<open>Properties\<close>

text \<open>C2 (reassembly of split and merged packets). Let a peer of any byte order frame any
  messages the receiver admits, followed by an incomplete frame, and let the network cut the
  resulting stream into chunks in any way. Appending the chunks one by one to a fresh buffer and
  calling \<open>OnMessage\<close> after each runs the message callback on exactly those messages, in order,
  and leaves the incomplete frame in the buffer; \<open>ForceClose\<close> is never called.\<close>

theorem codec_reassembles:
  assumes "\<forall>m \<in> set ms. fits_frame mx m"
    and "concat chunks = concat (map (framed e') ms) @ rest"
    and "decode_frames mx rest = ([], rest, False)"
    and "length (concat chunks) \<le> max_size"
  shows "\<exists>b'. wf_buffer b' \<and> content b' = rest \<and>
    (\<forall>w. feed e mx (Some cb) fc chunks (Buffer kInitialSize, w)
       = rbind (rfold cb ms w) (\<lambda>w'. Inr (b', w')))"
proof -
  have wf: "wf_buffer (Buffer kInitialSize)"
    by (rule wf_Buffer) (simp add: kInitialSize_def max_size_def)
  have dec: "decode_frames mx (content (Buffer kInitialSize) @ concat chunks) = (ms, rest, False)"
    using decode_framed_list [OF assms(1,3), of e'] assms(2) by simp
  show ?thesis
    using feed_decodes [OF wf _ _ dec, of e "Some cb" fc] assms(4)
    by (simp add: decode_short) (simp add: Buffer_def)
qed

theorem codec_reassembles_witness:
  "\<exists>b'. wf_buffer b' \<and> content b' = [CHR 0x00] \<and>
    (\<forall>w. feed LittleEndian default_max_frame_len (Some (\<lambda>m w. Inr (w @ [m]))) (\<lambda>w. Inr [])
         [[CHR 0x00, CHR 0x00], [CHR 0x00, CHR 0x02, CHR ''o''],
          [CHR ''k'', CHR 0x00, CHR 0x00, CHR 0x00, CHR 0x00, CHR 0x00]] (Buffer kInitialSize, w)
       = rbind (rfold (\<lambda>m w. Inr (w @ [m])) [''ok'', []] w) (\<lambda>w'. Inr (b', w')))"
proof (rule codec_reassembles [where e' = BigEndian])
  show "\<forall>m \<in> set [''ok'', []]. fits_frame default_max_frame_len m"
    by (simp add: fits_frame_def default_max_frame_len_def)
  show "concat [[CHR 0x00, CHR 0x00], [CHR 0x00, CHR 0x02, CHR ''o''],
          [CHR ''k'', CHR 0x00, CHR 0x00, CHR 0x00, CHR 0x00, CHR 0x00]]
      = concat (map (framed BigEndian) [''ok'', []]) @ [CHR 0x00]"
    by (simp add: framed_eq be_bytes_def) code_simp
qed (simp_all add: decode_short max_size_def)

text \<open>C33 (illegal lengths). When the readable bytes are admissible frames followed by a header
  whose value is negative as an \<open>int32_t\<close> or exceeds the configured maximum, \<open>OnMessage\<close> runs the
  callback on the frames before it, then calls \<open>ForceClose\<close> once and returns; the refused header
  stays in the buffer and no later byte is interpreted.\<close>

theorem codec_refuses_illegal_length:
  assumes "wf_buffer b" and "\<forall>m \<in> set ms. fits_frame mx m"
    and "content b = concat (map (framed e') ms) @ be_bytes n @ t"
    and "sint n < 0 \<or> mx < size_of_int32 n"
  shows "\<exists>b'. wf_buffer b' \<and> content b' = be_bytes n @ t \<and>
    OnMessage e mx (Some cb) fc b w
      = rbind (rfold cb ms w) (\<lambda>w'. rbind (fc w') (\<lambda>w''. Inr (b', w'')))"
proof -
  have "decode_frames mx (content b) = (ms, be_bytes n @ t, True)"
    using decode_framed_list [OF assms(2) decode_refused [OF assms(4)], of e' t] assms(3) by simp
  from OnMessage_decodes [OF assms(1) this, of e "Some cb" fc] show ?thesis by auto
qed

theorem codec_refuses_illegal_length_witness:
  "\<exists>b'. wf_buffer b' \<and> content b' = be_bytes 8388608 @ [] \<and>
    OnMessage LittleEndian default_max_frame_len (Some (\<lambda>m w. Inr (w + 1))) (\<lambda>w. Inr (w + 100))
      \<lparr>m_buf = be_bytes 8388608, m_read_idx = 0, m_write_idx = 4\<rparr> (0 :: nat)
      = rbind (rfold (\<lambda>m w. Inr (w + 1)) [] 0) (\<lambda>w'. rbind (Inr (w' + 100)) (\<lambda>w''. Inr (b', w'')))"
proof -
  let ?b = "\<lparr>m_buf = be_bytes 8388608, m_read_idx = 0, m_write_idx = 4\<rparr>"
  have "wf_buffer ?b" by (simp add: wf_buffer_def max_size_def)
  moreover have "\<forall>m \<in> set []. fits_frame default_max_frame_len m" by simp
  moreover have "content ?b = concat (map (framed BigEndian) []) @ be_bytes 8388608 @ []"
    by (simp add: content_def)
  moreover have "sint (8388608 :: int32) < 0 \<or> default_max_frame_len < size_of_int32 8388608"
    by (simp add: default_max_frame_len_def size_of_int32_def)
  ultimately show ?thesis
    using codec_refuses_illegal_length [of ?b "[]" default_max_frame_len BigEndian 8388608 "[]"
        LittleEndian "\<lambda>m w. Inr (w + 1)" "\<lambda>w. Inr (w + 100)" "0 :: nat"]
    by simp
qed

end
