(* ===== verification/Echo_Server.thy ===== *)
theory Echo_Server
  imports Server_Runs Length_Field_Codec
begin

text \<open>
  The program \<open>main.cpp\<close>: an echo server that answers each length-prefixed message with itself, and
  heartbeats with their reply, on top of the server, its connections, the codec and the main loop.

  The callbacks the program installs have codes; most of them only write to the log. The layers are
  executed from below: a message is answered with the connection's \<open>Send\<close> and \<open>ForceClose\<close>, which
  call none of the program's callbacks but those for back-pressure and for the end of the graceful
  stop (\<open>plain_user\<close>).
\<close>

datatype main_cb = LogConnection | EchoMessage | LogWriteComplete | LogBackpressure | PrintStats | CheckStop | QuitMain

record echo = "main_cb srv" +
  g_stop_requested :: bool

section \<open>The program\<close>

definition ParsePort :: "string option \<Rightarrow> uint16 result" where
  "ParsePort arg =
     (case arg of
        None \<Rightarrow> Inr 9000
      | Some s \<Rightarrow> rbind (atoi s) (\<lambda>port.
          if port \<le> 0 \<or> 65535 < port then Inr 9000 else Inr (of_int port)))"

definition ParseThreads :: "string option \<Rightarrow> size_t result" where
  "ParseThreads arg =
     (case arg of
        None \<Rightarrow> Inr 4
      | Some s \<Rightarrow> rbind (atoi s) (\<lambda>threads.
          if threads < 0 then Inr 4 else Inr (of_int threads)))"

definition HandleSignal :: "int \<Rightarrow> ('z) echo_scheme \<Rightarrow> 'z echo_scheme" where
  "HandleSignal signo w = (if signo = 2 then w\<lparr>g_stop_requested := True\<rparr> else w)"

text \<open>The callbacks that do not involve the server's own operations.\<close>

definition plain_user :: "(main_cb, 'z echo_scheme) server_user" where
  "plain_user = \<lparr>on_connection = \<lambda>u c w. Inr w, on_message = \<lambda>u c w. Inr w, on_write_complete = \<lambda>u c w. Inr w,
     on_close = \<lambda>u c w. Inr w, on_high_water = \<lambda>u c n w. Inr w,
     on_call = \<lambda>u w. case u of QuitMain \<Rightarrow> Inr (Quit (main_loop w) w) | _ \<Rightarrow> Inr w\<rparr>"

definition conn_send :: "conn_id \<Rightarrow> string \<Rightarrow> 'z echo_scheme \<Rightarrow> 'z echo_scheme result" where
  "conn_send c = Send (server_exec plain_user) c"

text \<open>The message callback of the codec, and the one of the server that hands it the bytes.\<close>

definition echo_message :: "endian \<Rightarrow> conn_id \<Rightarrow> string \<Rightarrow> 'z echo_scheme \<Rightarrow> 'z echo_scheme result" where
  "echo_message h c message w =
     rbind (HandleHeartbeat h (conn_send c) message w) (\<lambda>(beat, w).
     if beat then Inr w
     else Send_codec h (IsConnected c) (conn_send c) message w)"

definition echo_on_message :: "endian \<Rightarrow> conn_id \<Rightarrow> 'z echo_scheme \<Rightarrow> 'z echo_scheme result" where
  "echo_on_message h c w =
     rbind (OnMessage h default_max_frame_len (Some (echo_message h c)) (ForceClose (server_exec plain_user) c)
        (m_input_buffer (conns w c)) w) (\<lambda>(b, w).
     Inr (upd_conn c (\<lambda>cn. cn\<lparr>m_input_buffer := b\<rparr>) w))"

definition check_stop :: "env \<Rightarrow> 'z echo_scheme \<Rightarrow> 'z echo_scheme result" where
  "check_stop e w =
     (if \<not> g_stop_requested w then Inr w
      else StopGracefully e plain_user 5000 (Some QuitMain) (w\<lparr>g_stop_requested := False\<rparr>))"

definition echo_user :: "env \<Rightarrow> (main_cb, 'z echo_scheme) server_user" where
  "echo_user e = plain_user\<lparr>
     on_message := \<lambda>u c w. case u of EchoMessage \<Rightarrow> echo_on_message (host e) c w | _ \<Rightarrow> Inr w,
     on_call := \<lambda>u w. case u of CheckStop \<Rightarrow> check_stop e w | _ \<Rightarrow> on_call plain_user u w\<rparr>"

text \<open>
  \<open>main\<close> up to the start of the loop: \<open>wake\<close> is the main loop's wake-up channel and descriptor, \<open>subs\<close>
  the sub loops, one per thread, and \<open>pton\<close> the library's \<open>inet_pton\<close>.
\<close>

definition boot ::
  "env \<Rightarrow> (string \<Rightarrow> string option) \<Rightarrow> uint16 \<Rightarrow> chan_id \<times> SocketType \<Rightarrow> SocketType \<Rightarrow> chan_id \<Rightarrow>
   (loop_id \<times> chan_id \<times> SocketType \<times> thread_id) list \<Rightarrow> 'z echo_scheme \<Rightarrow> 'z echo_scheme result" where
  "boot e pton port wake sockfd ch subs w =
     rbind (EventLoop 0 (fst wake) (snd wake) (WakeupRead 0) None w) (\<lambda>w.
     rbind (TcpServer 0 (Address pton (host e) ''0.0.0.0'' port) sockfd ch subs w) (\<lambda>w.
     let w = SetIdleTimeoutSeconds 120 w;
         w = SetHighWaterMarkBytes (256 * 1024) w;
         w = SetHighWaterMarkCallback_srv (Some LogBackpressure) w;
         w = EnablePrometheusMetricsExport ''./tcframe_metrics.prom'' 5 w;
         w = SetConnectionCallback_srv (Some LogConnection) w;
         w = SetMessageCallback_srv (Some EchoMessage) w;
         w = SetWriteCompleteCallback_srv (Some LogWriteComplete) w;
         (_, w) = RunEvery (dt e) 0 10000 (Some (User (UserCb PrintStats))) w;
         (_, w) = RunEvery (dt e) 0 200 (Some (User (UserCb CheckStop))) w
     in Start e w))"

definition echo_main ::
  "env \<Rightarrow> (string \<Rightarrow> string option) \<Rightarrow> uint16 \<Rightarrow> chan_id \<times> SocketType \<Rightarrow> SocketType \<Rightarrow> chan_id \<Rightarrow>
   (loop_id \<times> chan_id \<times> SocketType \<times> thread_id) list \<Rightarrow> (errno + (SocketType \<times> uint32) list) list \<Rightarrow>
   'z echo_scheme \<Rightarrow> 'z echo_scheme result" where
  "echo_main e pton port wake sockfd ch subs ready w =
     rbind (boot e pton port wake sockfd ch subs w) (\<lambda>w.
     Loop (dt e) (run_server e (echo_user e)) 0 ready w)"

section \<open>Its callbacks keep what the server relies on\<close>

lemma Quit_frames [simp]:
  "server (Quit l w) = server w" "next_obj (Quit l w) = next_obj w" "acceptor (Quit l w) = acceptor w"
  "conns (Quit l w) = conns w" "channels (Quit l w) = channels w" "notified (Quit l w) = notified w"
  "sent (Quit l w) = sent w" "accepted (Quit l w) = accepted w"
  by (simp_all add: Quit_def Wakeup_def upd_loop_def Let_def)

lemma srv_rel_Quit: "srv_rel w (Quit l w)"
  by (simp add: srv_rel_def srv_ok_def connections_def)

interpretation plain: server_user_env "plain_user :: (main_cb, 'z echo_scheme) server_user"
proof unfold_locales
  have quit: "kept C w (Quit l w)" for C l and w :: "'z echo_scheme"
    by (rule kept_frame) (simp_all add: connections_def)
  show "srv_rel w0 w \<Longrightarrow> leads srv_rel w0 (on_call plain_user a w)" for a and w0 w :: "'z echo_scheme"
    by (auto simp: plain_user_def intro!: leads_Inr srv_rel_trans [OF _ srv_rel_Quit] split: main_cb.split)
  show "on_call plain_user a w = Inr w' \<Longrightarrow> kept C w w'" for C a and w w' :: "'z echo_scheme"
    by (auto simp: plain_user_def quit split: main_cb.splits)
qed (auto simp: plain_user_def intro: leads_Inr)

text \<open>A message callback and a \<open>ForceClose\<close> that respect a relation make \<open>OnMessage\<close> respect it.\<close>

lemma OnMessage_leads:
  assumes cb: "\<And>m w. R w0 w \<Longrightarrow> leads R w0 (cb m w)" and fc: "\<And>w. R w0 w \<Longrightarrow> leads R w0 (fc w)"
  shows "R w0 w \<Longrightarrow> OnMessage e mx (Some cb) fc b w = Inr (b', w') \<Longrightarrow> R w0 w'"
proof (induction "unat (ReadableBytes b)" arbitrary: b w rule: less_induct)
  case less
  show ?case
  proof (cases "ReadableBytes b < 4")
    case True
    with less.prems show ?thesis by (simp add: OnMessage.simps [of e mx "Some cb" fc b])
  next
    case False
    with less.prems(2) obtain n where n: "PeekInt32 e b = Inr n"
      by (auto simp: OnMessage.simps [of e mx "Some cb" fc b] rbind_eq_Inr_iff)
    note eq = less.prems(2) [unfolded OnMessage.simps [of e mx "Some cb" fc b] n rbind_Inr Let_def]
    show ?thesis
    proof (cases "sint n < 0 \<or> mx < size_of_int32 n")
      case True
      with eq False have "fc w = Inr w'" by (auto simp: rbind_eq_Inr_iff)
      with fc [OF less.prems(1)] show ?thesis by (simp add: leads_def)
    next
      case legal: False
      show ?thesis
      proof (cases "ReadableBytes b < 4 + size_of_int32 n")
        case True
        with eq False legal less.prems(1) show ?thesis by simp
      next
        case whole: False
        with eq False legal obtain b1 m b2 w1 where b1: "Retrieve 4 b = Inr b1"
          and b2: "RetrieveAsString (size_of_int32 n) b1 = Inr (m, b2)" and w1: "cb m w = Inr w1"
          and rest: "OnMessage e mx (Some cb) fc b2 w1 = Inr (b', w')"
          by (auto simp: rbind_eq_Inr_iff)
        have "R w0 w1" using cb [OF less.prems(1), of m] w1 by (simp add: leads_def)
        from less.hyps [OF frame_consumes [OF False b1 b2] this rest] show ?thesis .
      qed
    qed
  qed
qed

lemma OnMessage_wf:
  assumes "wf_buffer b" and "OnMessage e mx cb fc b w = Inr (b', w')"
  shows "wf_buffer b'"
proof -
  obtain ms r bad where "decode_frames mx (content b) = (ms, r, bad)" by (cases "decode_frames mx (content b)") auto
  from OnMessage_decodes [OF assms(1) this, of e cb fc] assms(2) show ?thesis by (auto simp: rbind_eq_Inr_iff)
qed

text \<open>A step that uses \<open>Send\<close> and \<open>ForceClose\<close> of one connection, in either relation.\<close>

lemma conn_send_good:
  assumes "good C w0 w" and "c \<in> C"
  shows "leads (good C) w0 (conn_send c m w)"
  using plain.action_good(3) [OF assms, of "ASend m"] by (simp add: conn_send_def)

lemma echo_message_good:
  assumes "good C w0 w" and "c \<in> C"
  shows "leads (good C) w0 (echo_message h c m w)"
proof -
  have "leads (good C) w0 (conn_send c d w)" for d by (rule conn_send_good [OF assms])
  then show ?thesis
    using assms by (auto simp: echo_message_def HandleHeartbeat_def Send_codec_def leads_def rbind_eq_Inr_iff
        split: if_splits)
qed

lemma good_input:
  assumes g: "good C w w1" and c: "c \<in> C" and wf: "wf_buffer (m_input_buffer (conns w c)) \<Longrightarrow> wf_buffer b"
  shows "good C w (upd_conn c (\<lambda>cn. cn\<lparr>m_input_buffer := b\<rparr>) w1)"
proof -
  let ?w = "upd_conn c (\<lambda>cn. cn\<lparr>m_input_buffer := b\<rparr>) w1"
  have "net_ok X C ?w" if "tabled C w" "net_ok X C w" for X
  proof (rule touches_net_ok [OF _ c])
    show "touches c w1 ?w" by (rule touches_upd_conn) simp
    show "net_ok X C w1" using g that by (simp add: good_def kept_def evolves_def)
    assume "conn_ok (c \<in> X) c w1"
    moreover have "wf_buffer (m_input_buffer (conns w c))" using that(2) c by (auto simp: net_ok_def conn_ok_def)
    ultimately show "conn_ok (c \<in> X) c ?w" using wf by (simp add: conn_ok_def)
  qed simp
  moreover have "chans ?w = chans w1" by (auto simp: chans_def)
  ultimately have "kept C w ?w"
    using g by (auto simp: good_def kept_def evolves_def)
  moreover have "srv_rel w ?w"
    using g srv_rel_trans [OF _ srv_rel_frame, of w w1 ?w] by (simp add: good_def)
  ultimately show ?thesis by (simp add: good_def)
qed

lemma echo_on_message_good:
  assumes c: "c \<in> C"
  shows "leads (good C) w (echo_on_message h c w)"
  unfolding leads_def
proof (intro allI impI)
  fix w' assume "echo_on_message h c w = Inr w'"
  then obtain b w1 where r: "OnMessage h default_max_frame_len (Some (echo_message h c)) (ForceClose (server_exec plain_user) c)
      (m_input_buffer (conns w c)) w = Inr (b, w1)" and w': "w' = upd_conn c (\<lambda>cn. cn\<lparr>m_input_buffer := b\<rparr>) w1"
    by (auto simp: echo_on_message_def rbind_eq_Inr_iff)
  have "good C w w1"
    by (rule OnMessage_leads [OF echo_message_good [OF _ c] plain.action_good(1) [OF _ c] good_refl r])
  then show "good C w w'" unfolding w' by (rule good_input [OF _ c OnMessage_wf [OF _ r]])
qed


section \<open>The graceful stop with respect to the table alone\<close>

lemma srv_rel_same:
  assumes "srv_rel w0 w" and "server w' = server w" "next_obj w' = next_obj w"
    "m_listen_channel (acceptor w') = m_listen_channel (acceptor w)"
  shows "srv_rel w0 w'"
  by (rule srv_rel_trans [OF assms(1)]) (simp add: srv_rel_def srv_ok_def connections_def assms(2-4))

lemma Stop_srv: "srv_rel w0 w \<Longrightarrow> leads srv_rel w0 (Stop w)"
  unfolding Stop_def
  by (intro leads_check leads_if leads_Inr leads_rbind [OF no_callbacks.channel_leads(2)]) (auto elim: srv_rel_same)

context server_env
begin

lemma StopGracefully_srv:
  assumes "srv_rel w0 w"
  shows "leads srv_rel w0 (StopGracefully e U timeout_ms cb w)"
proof -
  have timers: "srv_rel w0 (stop_timers e timeout_ms w')" if "srv_rel w0 w'" for w'
    by (rule srv_rel_trans [OF that])
      (simp add: stop_timers_def Let_def split_beta srv_rel_def srv_ok_def connections_def)
  define w1 where "w1 = upd_server (\<lambda>s. s\<lparr>m_stopping := True, m_shutdown_complete_callback := cb\<rparr>) w"
  have w1: "srv_rel w0 w1" unfolding w1_def by (rule srv_rel_trans [OF assms srv_rel_upd]) simp_all
  have set: "srv_rel w0 (upd_server (\<lambda>s. s\<lparr>m_shutdown_complete_callback := Some f\<rparr>) w)" for f
    by (rule srv_rel_trans [OF assms srv_rel_upd]) simp_all
  have "leads srv_rel w0 (StopGracefully_in_loop e U timeout_ms cb w)"
    unfolding StopGracefully_in_loop_def w1_def [symmetric] for_connections_def Let_def [of w1]
    by (intro leads_check leads_if leads_option leads_Inr leads_rbind on_call_leads walk_connections_leads
        conn.Shutdown_leads FinalizeGracefulStop_leads conn.ForceClose_leads Stop_srv w1 timers set assms)
  moreover have "srv_rel w0 (QueueInLoop l k w)" for l k by (rule srv_rel_same [OF assms]) simp_all
  ultimately show ?thesis unfolding StopGracefully_def by (intro leads_if leads_Inr)
qed

end

context server_user_env
begin

lemma StopGracefully_kept: "leads (kept C) w (StopGracefully e U timeout_ms cb w)"
proof (rule kept_assume)
  assume "tabled C w"
  from StopGracefully_good [OF this, of e timeout_ms cb] show "leads (kept C) w (StopGracefully e U timeout_ms cb w)"
    by (auto simp: leads_def good_def)
qed

end

section \<open>The callbacks of the program\<close>

lemma check_stop_respects:
  "srv_rel w0 w \<Longrightarrow> leads srv_rel w0 (check_stop e w)" "leads (kept C) w (check_stop e w)"
proof -
  let ?w = "w\<lparr>g_stop_requested := False\<rparr>"
  show "leads srv_rel w0 (check_stop e w)" if "srv_rel w0 w"
    unfolding check_stop_def
    by (intro leads_if leads_Inr that plain.StopGracefully_srv srv_rel_same [OF that]) simp_all
  have "kept C w ?w" by (rule kept_frame) (simp_all add: connections_def)
  then have "leads (kept C) w (StopGracefully e plain_user 5000 (Some QuitMain) ?w)"
    using plain.StopGracefully_kept [of C ?w e 5000 "Some QuitMain"]
    by (elim kept_leads) (simp add: leads_def)
  then show "leads (kept C) w (check_stop e w)"
    unfolding check_stop_def by (intro leads_if leads_Inr kept_refl)
qed

interpretation echo: server_user_env "echo_user e :: (main_cb, 'z echo_scheme) server_user" for e
proof unfold_locales
  have msg: "leads (good C) w (case a of EchoMessage \<Rightarrow> echo_on_message (host e) c w | _ \<Rightarrow> Inr w)"
    if "c \<in> C" for a c C and w :: "'z echo_scheme"
    using echo_on_message_good [OF that] by (auto intro: leads_Inr split: main_cb.split)
  show "srv_rel w0 w \<Longrightarrow> leads srv_rel w0 (on_message (echo_user e) a c w)" for a c and w0 w :: "'z echo_scheme"
    using msg [of c UNIV w a] srv_rel_trans [of w0 w] by (auto simp: echo_user_def leads_def good_def)
  show "c \<in> C \<Longrightarrow> on_message (echo_user e) a c w = Inr w' \<Longrightarrow> kept C w w'" for C a c and w w' :: "'z echo_scheme"
    using msg [of c C w a] by (auto simp: echo_user_def leads_def good_def)
  show "srv_rel w0 w \<Longrightarrow> leads srv_rel w0 (on_call (echo_user e) a w)" for a and w0 w :: "'z echo_scheme"
    using check_stop_respects(1) [of w0 w e] plain.on_call_leads [of w0 w]
    by (auto simp: echo_user_def split: main_cb.split)
  show "on_call (echo_user e) a w = Inr w' \<Longrightarrow> kept C w w'" for C a and w w' :: "'z echo_scheme"
    using check_stop_respects(2) [of C w e] plain.on_call_kept [of _ w w' C]
    by (auto simp: echo_user_def leads_def split: main_cb.splits)
qed (auto simp: echo_user_def plain_user_def intro: leads_Inr)

end
