(* ===== verification/Server_Examples.thy ===== *)
theory Server_Examples
  imports Echo_Server
begin

text \<open>
  Concrete states of the echo program, small enough to evaluate: one loop and one client about to be
  accepted, the same after it was accepted, and a connection that lives in a worker loop.
\<close>

section \<open>An example\<close>

definition example_env :: env where
  "example_env = \<lparr>dt = \<lambda>_. 1, host = LittleEndian, show_seconds = \<lambda>_. ''0'', via_seconds = id, can_open = \<lambda>_. True,
     can_rename = \<lambda>_ _. True\<rparr>"

definition blank_server :: "'a server" where
  "blank_server = \<lparr>m_main_loop = 0, m_listen_addr = Address_default, m_thread_num = 0, m_sub_loops = [],
     m_connections = [], m_srv_connection_callback = None, m_srv_message_callback = None,
     m_srv_write_complete_callback = None, m_srv_high_water_mark_callback = None, m_next_loop_idx = 0,
     m_started = False, m_stopping = False, m_idle_timeout_seconds = 0, m_idle_scan_timer_id = 0,
     m_shutdown_check_timer_id = 0, m_shutdown_deadline_timer_id = 0, m_total_connections = 0,
     m_closed_connections = 0, m_high_water_mark_triggered = 0, m_high_water_mark_bytes = 0,
     m_shutdown_complete_callback = None, m_metrics_export_enabled = False, m_metrics_export_path = [],
     m_metrics_export_interval_seconds = 0, m_metrics_export_timer_id = 0, m_start_time = 0\<rparr>"

text \<open>
  The echo program after \<open>main\<close> has started the server, without its timers: everything runs in the
  main loop, on thread 1; a client is waiting to be accepted on descriptor 7.
\<close>

definition ready_echo :: echo where
  "ready_echo = net.extend (example_net\<lparr>channels := (channels example_net)(1 := SetReadCallback OnAccept (Channel 0 4)),
       inbox := (\<lambda>_. [])(7 := [Inr [CHR 0x00, CHR 0x00, CHR 0x00, CHR 0x02, CHR ''o'', CHR ''k'']])\<rparr>)
     \<lparr>acceptor = \<lparr>m_acc_loop = 0, m_listen_socket = 4, m_listen_channel = 1, m_is_listening = True\<rparr>,
      accept_queue = [Inr (7, Address_default)],
      server = blank_server\<lparr>m_started := True, m_srv_connection_callback := Some LogConnection,
        m_srv_message_callback := Some EchoMessage, m_srv_write_complete_callback := Some LogWriteComplete,
        m_srv_high_water_mark_callback := Some LogBackpressure, m_high_water_mark_bytes := 256 * 1024\<rparr>,
      next_obj = 10, files = \<lambda>_. None, g_stop_requested = False\<rparr>"

lemma ready_echo_simps [simp]:
  "server ready_echo = blank_server\<lparr>m_started := True, m_srv_connection_callback := Some LogConnection,
        m_srv_message_callback := Some EchoMessage, m_srv_write_complete_callback := Some LogWriteComplete,
        m_srv_high_water_mark_callback := Some LogBackpressure, m_high_water_mark_bytes := 256 * 1024\<rparr>"
  "next_obj ready_echo = 10" "notified ready_echo = []"
  "acceptor ready_echo = \<lparr>m_acc_loop = 0, m_listen_socket = 4, m_listen_channel = 1, m_is_listening = True\<rparr>"
  by (simp_all add: ready_echo_def net.defs example_net_def world.defs)

lemma ready_echo_inv: "server_inv 10 ready_echo"
  by (simp add: server_inv_def srv_ok_def known_def connections_def blank_server_def net_ok_def)

text \<open>What \<open>HandleNewConnection\<close> does for a server that takes connections.\<close>

lemma add_connection_loop_thread:
  "IsInLoopThread l (snd (add_connection e k fd addr w)) \<longleftrightarrow> IsInLoopThread l w"
  by (simp add: add_connection_eq IsInLoopThread_def TcpConnection_def RefreshActiveTime_def Let_def)

lemma HandleNewConnection_takes:
  assumes "IsInLoopThread (main_loop w) w" and "\<not> m_stopping (server w)" and "NextLoop w = Inr (l, w1)"
  shows "HandleNewConnection e U fd addr w =
    (if IsInLoopThread l w1
     then ConnectEstablished (server_exec U) (next_obj w1) (snd (add_connection e l fd addr w1))
     else Inr (QueueInLoop l (DoConnectEstablished (next_obj w1)) (snd (add_connection e l fd addr w1))))"
proof -
  define w2 where "w2 = snd (add_connection e l fd addr w1)"
  have "add_connection e l fd addr w1 = (next_obj w1, w2)"
    by (simp add: w2_def add_connection_eq)
  moreover have "IsInLoopThread l w2 \<longleftrightarrow> IsInLoopThread l w1" by (simp add: w2_def add_connection_loop_thread)
  ultimately show ?thesis
    unfolding w2_def [symmetric] using assms
    by (simp add: HandleNewConnection_def AssertInLoopThread_def RunInLoop_def)
qed

lemma HandleAccept_next:
  assumes "IsInLoopThread (m_acc_loop (acceptor w)) w" and "m_listen_socket (acceptor w) \<noteq> INVALID_SOCKET_VALUE"
    and "accept_queue w = Inr (fd, addr) # q" and "fd \<noteq> INVALID_SOCKET_VALUE"
  shows "run_server e U OnAccept w = HandleNewConnection e U fd addr (w\<lparr>accept_queue := q\<rparr>)"
  using assms by (simp add: run_server_def run_conn_def HandleAccept_def AssertInLoopThread_def sys_accept_def)

definition accepted_echo :: echo where
  "accepted_echo = projr (ConnectEstablished (server_exec (echo_user example_env)) 10
     (snd (add_connection example_env 0 7 Address_default (ready_echo\<lparr>accept_queue := []\<rparr>))))"

lemma accepted_echo_facts:
  "connections accepted_echo = [(7, 10)]" "m_state (conns accepted_echo 10) = Connected" "next_obj accepted_echo = 11"
  "accepted accepted_echo 10 = []" "m_total_connections (server accepted_echo) = 1"
  by code_simp+

lemma accept_step: "run_server example_env (echo_user example_env) OnAccept ready_echo = Inr accepted_echo"
proof -
  let ?w = "ready_echo\<lparr>accept_queue := []\<rparr>"
  have "accept_queue ready_echo = [Inr (7, Address_default)]" by code_simp
  then have "run_server example_env (echo_user example_env) OnAccept ready_echo =
      HandleNewConnection example_env (echo_user example_env) 7 Address_default ?w"
    by (intro HandleAccept_next) (simp_all add: IsInLoopThread_def INVALID_SOCKET_VALUE_def ready_echo_def net.defs
        example_net_def world.defs example_defs)
  also have "\<dots> = ConnectEstablished (server_exec (echo_user example_env)) 10
      (snd (add_connection example_env 0 7 Address_default ?w))"
  proof -
    have l: "IsInLoopThread 0 ?w"
      by (simp add: IsInLoopThread_def ready_echo_def net.defs example_net_def world.defs example_defs)
    have "HandleNewConnection example_env (echo_user example_env) 7 Address_default ?w =
      (if IsInLoopThread 0 ?w then ConnectEstablished (server_exec (echo_user example_env)) (next_obj ?w)
         (snd (add_connection example_env 0 7 Address_default ?w))
       else Inr (QueueInLoop 0 (DoConnectEstablished (next_obj ?w)) (snd (add_connection example_env 0 7 Address_default ?w))))"
      by (rule HandleNewConnection_takes) (use l in \<open>simp_all add: main_loop_def blank_server_def NextLoop_def\<close>)
    with l show ?thesis by simp
  qed
  also have "\<dots> = Inr accepted_echo"
  proof -
    have "\<not> isl (ConnectEstablished (server_exec (echo_user example_env)) 10
      (snd (add_connection example_env 0 7 Address_default ?w)))" by code_simp
    then show ?thesis unfolding accepted_echo_def by (metis sum.collapse(2))
  qed
  finally show ?thesis .
qed

lemma accept_run: "server_run example_env (echo_user example_env) 10 ready_echo accepted_echo"
  by (rule run_closure [OF run_start _ _ accept_step]) (simp_all add: blank_server_def)

section \<open>A connection in a worker loop\<close>

text \<open>Loop 4 is run by thread 2, which is running; the connection is established there.\<close>

definition worker_echo :: echo where
  "worker_echo = projr (ConnectEstablished (server_exec (echo_user example_env)) 10
     (snd (add_connection example_env 4 7 Address_default (ready_echo\<lparr>accept_queue := [], this_thread := 2,
       loops := (loops ready_echo)(4 := (loops ready_echo 4)\<lparr>m_threadId := 2\<rparr>)\<rparr>))))"

lemma worker_echo_facts:
  "wired 10 worker_echo" "\<not> IsInLoopThread (main_loop worker_echo) worker_echo" "m_state (conns worker_echo 10) = Connected"
  "m_conn_close_callback (conns worker_echo 10) = Some RemoveConnection" "connections worker_echo = [(7, 10)]"
  by code_simp+

lemma worker_echo_loops:
  "m_loop (conns worker_echo 10) = 4" "m_threadId (loops worker_echo 0) = 1" "m_threadId (loops worker_echo 4) = 2"
  "m_last_active_ms (conns worker_echo 10) = 1000"
  by code_simp+

lemma worker_echo_server:
  "m_main_loop (server worker_echo) = 0" "m_started (server worker_echo)" "\<not> m_stopping (server worker_echo)"
  "m_shutdown_check_timer_id (server worker_echo) = 0"
  by code_simp+

lemma worker_echo_acceptor:
  "m_acc_loop (acceptor worker_echo) = 0" "m_listen_channel (acceptor worker_echo) = 1"
  "m_ownerLoop (channels worker_echo 1) = 0"
  by code_simp+

end
