(* ===== verification/Server_Claims.thy ===== *)
theory Server_Claims
  imports Server_Examples "HOL-Library.Multiset"
begin

text \<open>
  The properties of the server and of the echo program that rest on the invariants of
  \<open>Server_Runs\<close>, and the choice of the loop for a new connection.
\<close>

section \<open>Every run of the echo server\<close>

text \<open>C13 (the server's books). In every run of the echo server its table has one entry per
  descriptor, for connections the server made; the number of connections ever made is the total counter, and the
  connections counted as closed and those in the table are together no more than that.\<close>

theorem server_accounting:
  assumes "server_run e (echo_user e) base w0 w" and "server_inv base w0"
  shows "distinct (map fst (connections w)) \<and> snd ` set (connections w) \<subseteq> {base..<next_obj w} \<and>
    unat (m_total_connections (server w)) = card {base..<next_obj w} \<and>
    unat (m_closed_connections (server w)) + length (connections w) \<le> unat (m_total_connections (server w))"
  using echo.server_run_inv [OF assms] by (simp add: server_inv_def srv_ok_def known_def)

theorem server_accounting_witness:
  "connections accepted_echo = [(7, 10)] \<and>
    unat (m_closed_connections (server accepted_echo)) + 1 \<le> unat (m_total_connections (server accepted_echo))"
  using server_accounting [OF accept_run ready_echo_inv] by (simp add: accepted_echo_facts)



section \<open>The choice of a loop\<close>

fun next_loops :: "nat \<Rightarrow> ('a, 'z) srv_scheme \<Rightarrow> (loop_id list \<times> ('a, 'z) srv_scheme) result" where
  "next_loops 0 w = Inr ([], w)"
| "next_loops (Suc n) w =
     rbind (NextLoop w) (\<lambda>(l, w). rbind (next_loops n w) (\<lambda>(ls, w). Inr (l # ls, w)))"

lemma NextLoop_picks:
  assumes "m_thread_num (server w) = of_nat (length (m_sub_loops (server w)))" and "m_sub_loops (server w) \<noteq> []"
    and "length (m_sub_loops (server w)) < 18446744073709551616"
  shows "NextLoop w = Inr (m_sub_loops (server w) ! (unat (m_next_loop_idx (server w)) mod length (m_sub_loops (server w))),
    upd_server (\<lambda>s. s\<lparr>m_next_loop_idx := m_next_loop_idx s + 1\<rparr>) w)"
proof -
  have n: "unat (m_thread_num (server w)) = length (m_sub_loops (server w))"
    using assms by (simp add: unat_of_nat_size_t)
  then have "m_thread_num (server w) \<noteq> 0" using assms(2) by (metis length_0_conv unat_0)
  with n assms(2) show ?thesis by (simp add: NextLoop_def Let_def unat_mod)
qed

text \<open>The loops take turns. As many new connections in a row as there are loops go to the
  loops in their order, starting from the one whose turn it is: each loop gets exactly one of them.\<close>

theorem NextLoop_takes_turns:
  assumes "m_thread_num (server w) = of_nat (length (m_sub_loops (server w)))" and "m_sub_loops (server w) \<noteq> []"
    and "unat (m_next_loop_idx (server w)) + length (m_sub_loops (server w)) < 18446744073709551616"
  shows "\<exists>ls w'. next_loops (length (m_sub_loops (server w))) w = Inr (ls, w') \<and>
    ls = rotate (unat (m_next_loop_idx (server w))) (m_sub_loops (server w)) \<and> mset ls = mset (m_sub_loops (server w))"
proof -
  let ?ls = "m_sub_loops (server w)"
  have "\<exists>w'. next_loops k w1 = Inr (map (\<lambda>j. ?ls ! ((unat (m_next_loop_idx (server w1)) + j) mod length ?ls)) [0..<k], w')"
    if "m_sub_loops (server w1) = ?ls" "m_thread_num (server w1) = of_nat (length ?ls)"
      "unat (m_next_loop_idx (server w1)) + k < 18446744073709551616" for k and w1 :: "('a, 'b) srv_scheme"
    using that
  proof (induction k arbitrary: w1)
    case (Suc k)
    let ?w = "upd_server (\<lambda>s. s\<lparr>m_next_loop_idx := m_next_loop_idx s + 1\<rparr>) w1"
    have idx: "unat (m_next_loop_idx (server ?w)) = unat (m_next_loop_idx (server w1)) + 1"
      using Suc.prems(3) unat_add_size_t [of "m_next_loop_idx (server w1)" 1] by simp
    have "NextLoop w1 = Inr (?ls ! (unat (m_next_loop_idx (server w1)) mod length ?ls), ?w)"
      using NextLoop_picks [of w1] Suc.prems assms(2,3) by simp
    moreover obtain w2 where "next_loops k ?w =
        Inr (map (\<lambda>j. ?ls ! ((unat (m_next_loop_idx (server ?w)) + j) mod length ?ls)) [0..<k], w2)"
      using Suc.IH [of ?w] Suc.prems idx by auto
    moreover have "[0..<Suc k] = 0 # map Suc [0..<k]" by (simp only: map_Suc_upt upt_conv_Cons zero_less_Suc)
    ultimately show ?case unfolding idx by (simp del: upt_Suc upd_server_simps)
  qed simp
  from this [of w "length ?ls"] assms obtain w' where
    "next_loops (length ?ls) w = Inr (map (\<lambda>j. ?ls ! ((unat (m_next_loop_idx (server w)) + j) mod length ?ls)) [0..<length ?ls], w')"
    by blast
  moreover have "map (\<lambda>j. ?ls ! ((unat (m_next_loop_idx (server w)) + j) mod length ?ls)) [0..<length ?ls] =
      rotate (unat (m_next_loop_idx (server w))) ?ls"
    by (rule nth_equalityI) (simp_all add: nth_rotate)
  moreover have "mset (rotate n xs) = mset xs" for n and xs :: "loop_id list"
    by (metis add.commute append_take_drop_id mset_append rotate_drop_take)
  ultimately show ?thesis by simp
qed

definition three_loops :: echo where
  "three_loops = ready_echo\<lparr>server := blank_server\<lparr>m_thread_num := 3, m_sub_loops := [4, 5, 6], m_next_loop_idx := 4\<rparr>\<rparr>"

lemma three_loops_simps [simp]:
  "m_thread_num (server three_loops) = 3" "m_sub_loops (server three_loops) = [4, 5, 6]"
  "m_next_loop_idx (server three_loops) = 4"
  by (simp_all add: three_loops_def)

theorem NextLoop_takes_turns_witness:
  "\<exists>ls w'. next_loops (length (m_sub_loops (server three_loops))) three_loops = Inr (ls, w') \<and> ls = [5, 6, 4]"
  using NextLoop_takes_turns [of three_loops] by (simp add: rotate_drop_take del: next_loops.simps)

end
