(* ===== verification/Server_Closing.thy ===== *)
theory Server_Closing
  imports Server_Examples
begin

text \<open>
  How the server's connections end: closed by their loop, by the idle scan, by a graceful stop and
  at its deadline. The callbacks of the server's user are arbitrary.
\<close>

section \<open>Withdrawing a channel\<close>

lemma masked_threads: "masked ch f w w' \<Longrightarrow> IsInLoopThread l w' = IsInLoopThread l w"
  for w :: "('u, 'z) net_scheme"
  by (simp add: IsInLoopThread_def maskedD(5,12))

lemma DisableAll_returns:
  assumes "wired c w"
  obtains w' where "DisableAll (m_channel (conns w c)) w = Inr w'"
    and "masked (m_channel (conns w c)) (\<lambda>ch. ch\<lparr>m_events := kNoneEvent\<rparr>) w w'"
proof -
  let ?ch = "m_channel (conns w c)"
  have "IsInLoopThread (m_ownerLoop (channels w ?ch)) (upd_channel ?ch (\<lambda>ch. ch\<lparr>m_events := kNoneEvent\<rparr>) w)"
    using assms by (simp add: wired_def IsInLoopThread_def)
  from UpdateChannel_returns(1) [OF this] obtain w' where "DisableAll ?ch w = Inr w'"
    by (auto simp: DisableAll_def Let_def)
  with that mask_ops(5) show ?thesis by blast
qed

text \<open>What neither disabling nor removing a channel touches.\<close>

definition same_but_masks :: "('u, 'z) net_scheme \<Rightarrow> ('u, 'z) net_scheme \<Rightarrow> bool" where
  "same_but_masks w w' \<longleftrightarrow> conns w' = conns w \<and> notified w' = notified w \<and> closes w' = closes w \<and>
     net.more w' = net.more w \<and> (\<forall>l. IsInLoopThread l w' = IsInLoopThread l w) \<and>
     (\<forall>l. m_pendingFunctors (loops w' l) = m_pendingFunctors (loops w l))"

lemma masked_same: "masked ch f w w' \<Longrightarrow> same_but_masks w w'" for w :: "('u, 'z) net_scheme"
  by (simp add: same_but_masks_def maskedD masked_threads)

lemma same_but_masks_trans: "same_but_masks u v \<Longrightarrow> same_but_masks v w \<Longrightarrow> same_but_masks u w"
  by (simp add: same_but_masks_def)

lemma withdraw_channel_returns:
  assumes "wired c w"
  obtains w' where "withdraw_channel c w = Inr w'" and "same_but_masks w w'"
proof -
  obtain w1 where w1: "DisableAll (m_channel (conns w c)) w = Inr w1"
    and m1: "masked (m_channel (conns w c)) (\<lambda>ch. ch\<lparr>m_events := kNoneEvent\<rparr>) w w1"
    by (rule DisableAll_returns [OF assms])
  have conns: "conns w1 = conns w" using maskedD(1) [OF m1] .
  show ?thesis
  proof (cases "m_added (channels w1 (m_channel (conns w1 c)))")
    case False
    with that w1 masked_same [OF m1] show ?thesis by (auto simp: withdraw_channel_def)
  next
    case True
    have "IsInLoopThread (m_loop (conns w1 c)) w1"
      using assms masked_threads [OF m1] by (simp add: wired_def conns)
    from UpdateChannel_returns(2) [OF this] obtain w2 where
      w2: "RemoveChannel (m_loop (conns w1 c)) (m_channel (conns w1 c)) w1 = Inr w2" by blast
    have "withdraw_channel c w = Inr w2" using w1 w2 True by (simp add: withdraw_channel_def)
    with that same_but_masks_trans [OF masked_same [OF m1] masked_same [OF RemoveChannel_masks [OF w2]]]
    show ?thesis by blast
  qed
qed

lemma wired_upd_conn [simp]:
  assumes "\<And>cn. m_loop (f cn) = m_loop cn" "\<And>cn. m_channel (f cn) = m_channel cn"
  shows "wired c (upd_conn d f w) = wired c w"
  using assms by (simp add: wired_def IsInLoopThread_def)

lemma wired_upd_server [simp]: "wired c (upd_server f w) = wired c w"
  by (simp add: wired_def IsInLoopThread_def)

lemma Socket_Close_cases:
  "Socket_Close c w = w \<and> m_socket (conns w c) = INVALID_SOCKET_VALUE \<or>
   Socket_Close c w = w\<lparr>closes := closes w @ [m_socket (conns w c)],
     conns := (conns w)(c := (conns w c)\<lparr>m_socket := INVALID_SOCKET_VALUE\<rparr>)\<rparr>"
  by (simp add: Socket_Close_def Let_def upd_conn_def)

lemma Socket_Close_simps [simp]:
  "m_socket (conns (Socket_Close c w) c) = INVALID_SOCKET_VALUE"
  "m_state (conns (Socket_Close c w) d) = m_state (conns w d)"
  "m_conn_close_callback (conns (Socket_Close c w) d) = m_conn_close_callback (conns w d)"
  "m_loop (conns (Socket_Close c w) d) = m_loop (conns w d)"
  "notified (Socket_Close c w) = notified w"
  "loops (Socket_Close c w) = loops w" "this_thread (Socket_Close c w) = this_thread w"
  using Socket_Close_cases [of c w] by (elim disjE conjE; simp)+

lemma closes_Socket_Close:
  "m_socket (conns w c) \<noteq> INVALID_SOCKET_VALUE \<Longrightarrow> closes (Socket_Close c w) = closes w @ [m_socket (conns w c)]"
  by (simp add: Socket_Close_def Let_def)

lemma server_Socket_Close [simp]: "server (Socket_Close c w) = server w"
  by (rule server_more(1)) simp

lemma connections_Socket_Close [simp]: "connections (Socket_Close c w) = connections w"
  by (simp add: connections_def)

lemma server_same: "same_but_masks w w' \<Longrightarrow> server w' = server w" for w :: "('a, 'z) srv_scheme"
  by (rule server_more(1)) (simp add: same_but_masks_def)

section \<open>Closing by the connection's own loop\<close>

lemma remove_connection_absent:
  assumes "IsInLoopThread (main_loop w) w" and "map_of (connections w) (GetFd c w) = None"
  shows "remove_connection U c w = Inr w"
  using assms by (simp add: remove_connection_def AssertInLoopThread_def)



text \<open>C24 (\<open>ForceClose\<close> never removes the connection). Even in a single-threaded server, where the
  removal runs at once: \<open>ForceCloseInLoop\<close> closes the socket before it calls the close callback, so
  the server looks for descriptor \<open>-1\<close>. The connection is disconnected and its descriptor closed, but
  the table and the counters of the server are as before. This is how idle connections are closed.\<close>

theorem force_close_never_removes:
  assumes "wired c w" and "main_loop w = m_loop (conns w c)" and "IsConnected c w"
    and "m_conn_close_callback (conns w c) = Some RemoveConnection" and "GetFd c w \<noteq> INVALID_SOCKET_VALUE"
    and "map_of (connections w) INVALID_SOCKET_VALUE = None"
  shows "\<exists>w'. ForceClose (server_exec U) c w = Inr w' \<and> m_state (conns w' c) = Disconnected \<and>
    closes w' = closes w @ [GetFd c w] \<and> server w' = server w"
proof -
  define w1 where "w1 = upd_conn c (\<lambda>cn. cn\<lparr>m_state := Disconnecting\<rparr>) w"
  define w2 where "w2 = upd_conn c (\<lambda>cn. cn\<lparr>m_state := Disconnected, m_pending_write_bytes := 0\<rparr>) w1"
  have loop: "IsInLoopThread (m_loop (conns w1 c)) w1" and wired: "wired c w2"
    using assms(1) by (simp_all add: w1_def w2_def wired_def IsInLoopThread_def)
  obtain w3 where w3: "DisableAll (m_channel (conns w2 c)) w2 = Inr w3"
    and m3: "masked (m_channel (conns w2 c)) (\<lambda>ch. ch\<lparr>m_events := kNoneEvent\<rparr>) w2 w3"
    by (rule DisableAll_returns [OF wired])
  have s3: "same_but_masks w2 w3" by (rule masked_same [OF m3])
  define w4 where "w4 = (Socket_Close c w3)\<lparr>notified := notified (Socket_Close c w3) @ [c]\<rparr>"
  have srv: "server w3 = server w" using server_same [OF s3] by (simp add: w2_def w1_def)
  have main: "IsInLoopThread (main_loop w4) w4"
    using assms(1,2) s3 srv
    by (simp add: wired_def main_loop_def w4_def same_but_masks_def w2_def w1_def IsInLoopThread_def)
  have "ForceClose (server_exec U) c w = notify_close (server_exec U) c (Socket_Close c w3)"
    using assms(3) loop w3
    by (simp add: ForceClose_def ForceCloseInLoop_def IsConnected_def RunInLoop_def AssertInLoopThread_def
        Let_def w2_def flip: w1_def) (simp add: w1_def)
  also have "\<dots> = remove_connection U c w4"
  proof -
    have "m_conn_close_callback (conns (Socket_Close c w3) c) = Some RemoveConnection"
      using assms(4) s3 by (simp add: same_but_masks_def w2_def w1_def)
    then show ?thesis
      using main unfolding notify_close_def w4_def [symmetric]
      by (simp add: server_exec_def HandleRemoveConnection_def RunInLoop_def)
  qed
  also have "\<dots> = Inr w4"
    using assms(6) main srv by (intro remove_connection_absent) (simp_all add: w4_def GetFd_def connections_def)
  finally have eq: "ForceClose (server_exec U) c w = Inr w4" .
  have "m_state (conns w4 c) = Disconnected" "closes w4 = closes w @ [GetFd c w]"
    using s3 assms(5) by (simp_all add: w4_def w2_def w1_def same_but_masks_def Socket_Close_def Let_def GetFd_def)
  with eq srv show ?thesis by (simp add: w4_def)
qed

lemma accepted_echo_open: "\<not> m_stopping (server accepted_echo)" "m_started (server accepted_echo)"
  by code_simp+

lemma accepted_echo_wired:
  "wired 10 accepted_echo" "main_loop accepted_echo = m_loop (conns accepted_echo 10)" "GetFd 10 accepted_echo = 7"
  "m_conn_close_callback (conns accepted_echo 10) = Some RemoveConnection"
  by code_simp+

theorem force_close_never_removes_witness:
  "\<exists>w'. ForceClose (server_exec (echo_user example_env)) 10 accepted_echo = Inr w' \<and> closes w' = closes accepted_echo @ [7] \<and>
     connections w' = [(7, 10)] \<and> m_state (conns w' 10) = Disconnected"
  using force_close_never_removes [of 10 accepted_echo "echo_user example_env"] accepted_echo_wired accepted_echo_facts
  by (auto simp: IsConnected_def INVALID_SOCKET_VALUE_def connections_def)

section \<open>Closing in a single-threaded server\<close>

lemma HandleClose_single:
  assumes wired: "wired c w" and main: "main_loop w = m_loop (conns w c)" and st: "m_state (conns w c) \<noteq> Disconnected"
    and cb: "m_conn_close_callback (conns w c) = Some RemoveConnection" and fd: "GetFd c w \<noteq> INVALID_SOCKET_VALUE"
    and entry: "map_of (connections w) (GetFd c w) \<noteq> None"
    and rest: "m_stopping (server w) \<Longrightarrow> AList.delete (GetFd c w) (connections w) \<noteq> []"
  obtains w' where "HandleClose (server_exec U) c w = Inr w'" and "m_state (conns w' c) = Disconnected"
    and "closes w' = closes w @ [GetFd c w]" and "GetFd c w' = INVALID_SOCKET_VALUE"
    and "server w' = (server w)\<lparr>m_connections := AList.delete (GetFd c w) (connections w),
      m_closed_connections := m_closed_connections (server w) + 1\<rparr>"
proof -
  define w0 where "w0 = upd_conn c (\<lambda>cn. cn\<lparr>m_state := Disconnected, m_pending_write_bytes := 0\<rparr>) w"
  have "wired c w0" using wired by (simp add: w0_def)
  then obtain w1 where w1: "withdraw_channel c w0 = Inr w1" and s1: "same_but_masks w0 w1"
    by (rule withdraw_channel_returns)
  define w2 where "w2 = w1\<lparr>notified := notified w1 @ [c]\<rparr>"
  define w3 where "w3 = upd_server (\<lambda>s. s\<lparr>m_connections := AList.delete (GetFd c w) (m_connections s),
    m_closed_connections := m_closed_connections s + 1\<rparr>) w2"
  have srv: "server w2 = server w" using server_same [OF s1] by (simp add: w0_def w2_def)
  have cn: "conns w3 c = (conns w c)\<lparr>m_state := Disconnected, m_pending_write_bytes := 0\<rparr>" "conns w2 c = conns w3 c"
    using s1 by (simp_all add: w3_def w2_def w0_def same_but_masks_def)
  have thr: "IsInLoopThread l w2 = IsInLoopThread l w" "IsInLoopThread l w3 = IsInLoopThread l w" for l
    using s1 by (simp_all add: w3_def w2_def w0_def same_but_masks_def IsInLoopThread_def)
  have mine: "IsInLoopThread (m_loop (conns w c)) w" using wired by (simp add: wired_def)
  have "destroy_in_loop c w3 = Inr w3"
    using mine thr(2) by (simp add: destroy_in_loop_def RunInLoop_def ConnectDestroyed_def AssertInLoopThread_def cn(1))
  moreover have "\<not> (m_stopping (server w3) \<and> connections w3 = [])"
    using rest srv by (auto simp: w3_def connections_def)
  moreover have "GetFd c w2 = GetFd c w" "connections w2 = connections w" and main2: "IsInLoopThread (main_loop w2) w2"
    using main mine thr(1) srv cn by (simp_all add: GetFd_def connections_def main_loop_def)
  ultimately have "remove_connection U c w2 = Inr w3"
    using entry unfolding remove_connection_def AssertInLoopThread_def Let_def
    by (auto simp flip: w3_def)
  moreover have "m_conn_close_callback (conns w1 c) = Some RemoveConnection"
    using cb cn by (simp add: w2_def)
  ultimately have "notify_close (server_exec U) c w1 = Inr w3"
    using main2 unfolding notify_close_def w2_def [symmetric]
    by (simp add: server_exec_def HandleRemoveConnection_def RunInLoop_def)
  then have "HandleClose (server_exec U) c w = Inr (Socket_Close c w3)"
    using mine st w1 by (simp add: HandleClose_def AssertInLoopThread_def w0_def)
  moreover have "closes (Socket_Close c w3) = closes w @ [GetFd c w]"
  proof -
    have "m_socket (conns w3 c) = GetFd c w" using cn by (simp add: GetFd_def)
    moreover have "closes w3 = closes w" using s1 by (simp add: w3_def w2_def w0_def same_but_masks_def)
    ultimately show ?thesis using closes_Socket_Close [of w3 c] fd by simp
  qed
  ultimately show ?thesis
  proof (intro that [of "Socket_Close c w3"])
    show "m_state (conns (Socket_Close c w3) c) = Disconnected" by (simp add: cn)
    show "GetFd c (Socket_Close c w3) = INVALID_SOCKET_VALUE" by (simp add: GetFd_def)
    show "server (Socket_Close c w3) = (server w)\<lparr>m_connections := AList.delete (GetFd c w) (connections w),
      m_closed_connections := m_closed_connections (server w) + 1\<rparr>"
      unfolding server_Socket_Close w3_def upd_server_simps(1) srv connections_def ..
  qed
qed

text \<open>C27 (a connection closed in a single-threaded server is removed). When the connection lives in the
  main loop, its close, in a server that is not stopping, disconnects it, closes its descriptor, takes
  exactly its entry out of the table and counts it as closed.\<close>

theorem single_loop_close_removes:
  assumes "wired c w" and "main_loop w = m_loop (conns w c)" and "m_state (conns w c) \<noteq> Disconnected"
    and "m_conn_close_callback (conns w c) = Some RemoveConnection" and "GetFd c w \<noteq> INVALID_SOCKET_VALUE"
    and "map_of (connections w) (GetFd c w) = Some c" and "\<not> m_stopping (server w)"
  shows "\<exists>w'. HandleClose (server_exec U) c w = Inr w' \<and> m_state (conns w' c) = Disconnected \<and>
    closes w' = closes w @ [GetFd c w] \<and> connections w' = AList.delete (GetFd c w) (connections w) \<and>
    map_of (connections w') (GetFd c w) = None \<and>
    m_closed_connections (server w') = m_closed_connections (server w) + 1"
proof -
  obtain w' where "HandleClose (server_exec U) c w = Inr w'" "m_state (conns w' c) = Disconnected"
    "closes w' = closes w @ [GetFd c w]" "server w' = (server w)\<lparr>m_connections := AList.delete (GetFd c w) (connections w),
      m_closed_connections := m_closed_connections (server w) + 1\<rparr>"
    by (rule HandleClose_single [OF assms(1-5)]) (use assms(6,7) in auto)
  then show ?thesis by (auto simp: connections_def delete_conv)
qed

theorem single_loop_close_removes_witness:
  "\<exists>w'. HandleClose (server_exec (echo_user example_env)) 10 accepted_echo = Inr w' \<and> connections w' = [] \<and>
     closes w' = closes accepted_echo @ [7]"
  using single_loop_close_removes [of 10 accepted_echo "echo_user example_env"] accepted_echo_wired accepted_echo_facts
    accepted_echo_open by (auto simp: INVALID_SOCKET_VALUE_def)

section \<open>Telling connections in worker loops to close\<close>

text \<open>
  \<open>Shutdown\<close> and \<open>ForceClose\<close> of a connection in another loop: it becomes disconnecting and the work
  is queued for its loop.
\<close>

definition told ::
  "ConnectionState set \<Rightarrow> (conn_id \<Rightarrow> 'u closure) \<Rightarrow> conn_id \<Rightarrow> ('u, 'z) net_scheme \<Rightarrow> ('u, 'z) net_scheme" where
  "told S k c w =
     (if m_state (conns w c) \<in> S
      then QueueInLoop (m_loop (conns w c)) (k c) (upd_conn c (\<lambda>cn. cn\<lparr>m_state := Disconnecting\<rparr>) w) else w)"

lemma told_ops:
  assumes "\<not> IsInLoopThread (m_loop (conns w c)) w"
  shows "Shutdown E c w = Inr (told {Connected} DoShutdown c w)"
    "ForceClose E c w = Inr (told {Connected, Disconnecting} DoForceClose c w)"
  using assms by (simp_all add: Shutdown_def ForceClose_def told_def RunInLoop_def IsInLoopThread_def)

lemma IsInLoopThread_QueueInLoop [simp]: "IsInLoopThread l (QueueInLoop l' k w) = IsInLoopThread l w"
  by (simp add: QueueInLoop_def wake_if_needed_def Wakeup_def push_functor_def IsInLoopThread_def upd_loop_def)

lemma pending_QueueInLoop:
  "m_pendingFunctors (loops (QueueInLoop l' k w) l) = m_pendingFunctors (loops w l) @ (if l = l' then [k] else [])"
  by (simp add: QueueInLoop_def wake_if_needed_def Wakeup_def push_functor_def upd_loop_def)

lemma conns_QueueInLoop [simp]: "conns (QueueInLoop l k w) = conns w" for w :: "('u, 'z) net_scheme"
  by (simp add: QueueInLoop_def wake_if_needed_def Wakeup_def push_functor_def upd_loop_def)

lemma told_simps [simp]:
  "m_state (conns (told S k c w) d) = (if d = c \<and> m_state (conns w c) \<in> S then Disconnecting else m_state (conns w d))"
  "m_loop (conns (told S k c w) d) = m_loop (conns w d)"
  "IsInLoopThread l (told S k c w) = IsInLoopThread l w" "net.more (told S k c w) = net.more w"
  "m_pendingFunctors (loops (told S k c w) l) =
     m_pendingFunctors (loops w l) @ (if m_state (conns w c) \<in> S \<and> m_loop (conns w c) = l then [k c] else [])"
  by (auto simp: told_def pending_QueueInLoop) (simp_all add: IsInLoopThread_def)

lemma server_told [simp]: "server (told S k c w) = server w"
  by (rule server_more(1)) simp

lemma fold_told:
  assumes "distinct cs"
  shows "m_state (conns (fold (told S k) cs w) d) =
      (if d \<in> set cs \<and> m_state (conns w d) \<in> S then Disconnecting else m_state (conns w d))"
    "m_loop (conns (fold (told S k) cs w) d) = m_loop (conns w d)"
    "IsInLoopThread l (fold (told S k) cs w) = IsInLoopThread l w" "net.more (fold (told S k) cs w) = net.more w"
    "m_pendingFunctors (loops (fold (told S k) cs w) l) =
       m_pendingFunctors (loops w l) @ map k (filter (\<lambda>c. m_state (conns w c) \<in> S \<and> m_loop (conns w c) = l) cs)"
  using assms by (induction cs arbitrary: w) (auto intro!: arg_cong [where f = "map k"] filter_cong)

lemma server_fold_told [simp]: "server (fold (told S k) cs w) = server w"
  by (induction cs arbitrary: w) simp_all

lemma rfold_told:
  assumes "\<And>c w. c \<in> set cs \<Longrightarrow> \<not> IsInLoopThread (m_loop (conns w c)) w \<Longrightarrow> f c w = Inr (told S k c w)"
    and "\<forall>c \<in> set cs. \<not> IsInLoopThread (m_loop (conns w c)) w"
  shows "rfold f cs w = Inr (fold (told S k) cs w)"
  using assms by (induction cs arbitrary: w) simp_all

lemma walk_told:
  assumes "\<And>c w. \<not> IsInLoopThread (m_loop (conns w c)) w \<Longrightarrow> f c w = Inr (told S k c w)"
    and "\<forall>(fd, c) \<in> set xs. map_of (connections w) fd = Some c \<and> \<not> IsInLoopThread (m_loop (conns w c)) w"
  shows "walk_connections f (map fst xs) w = Inr (fold (told S k) (map snd xs) w)"
  using assms(2)
proof (induction xs arbitrary: w)
  case (Cons x xs)
  then show ?case by (cases x) (auto simp: assms(1) connections_def)
qed simp

text \<open>C26 (the idle scan, with worker loops). A scan of the table closes exactly the connected
  connections that have been silent for the timeout or longer: each of them becomes disconnecting and
  its loop gets one \<open>ForceClose\<close> for it, in the order of the table; nothing changes for any other
  connection, nor for the server.\<close>

theorem idle_scan_exact:
  assumes "IsInLoopThread (main_loop w) w" and "0 < m_idle_timeout_seconds (server w)"
    and "distinct (map snd (connections w))"
    and "\<forall>c \<in> snd ` set (connections w). \<not> IsInLoopThread (m_loop (conns w c)) w"
  shows "\<exists>w'. ScanIdleConnections U w = Inr w' \<and> server w' = server w \<and>
    (\<forall>c. m_state (conns w' c) =
       (if c \<in> snd ` set (connections w) \<and> IsConnected c w \<and>
           m_idle_timeout_seconds (server w) * 1000 \<le> wall_ms w - GetLastActiveMs c w
        then Disconnecting else m_state (conns w c))) \<and>
    (\<forall>l. m_pendingFunctors (loops w' l) = m_pendingFunctors (loops w l) @
       map DoForceClose (filter (\<lambda>c. m_loop (conns w c) = l) (idle_connections w)))"
proof -
  let ?idle = "idle_connections w" and ?w = "fold (told {Connected, Disconnecting} DoForceClose) (idle_connections w) w"
  have idle: "c \<in> set ?idle \<longleftrightarrow> c \<in> snd ` set (connections w) \<and> IsConnected c w \<and>
      m_idle_timeout_seconds (server w) * 1000 \<le> wall_ms w - GetLastActiveMs c w" for c
    by (force simp: idle_connections_def)
  have d: "distinct ?idle" using assms(3) by (simp add: idle_connections_def distinct_map_filter)
  have "rfold (ForceClose (server_exec U)) ?idle w = Inr ?w"
    by (rule rfold_told) (use assms(4) idle in \<open>auto simp: told_ops\<close>)
  then have "ScanIdleConnections U w = Inr ?w"
    using assms(1,2) by (simp add: ScanIdleConnections_def AssertInLoopThread_def)
  moreover have "filter (\<lambda>c. m_state (conns w c) \<in> {Connected, Disconnecting} \<and> m_loop (conns w c) = l) ?idle =
      filter (\<lambda>c. m_loop (conns w c) = l) ?idle" for l
    by (rule filter_cong) (use idle in \<open>auto simp: IsConnected_def\<close>)
  ultimately show ?thesis
    using idle by (intro exI [of _ ?w]) (auto simp: fold_told [OF d] IsConnected_def)
qed

definition idle_echo :: echo where
  "idle_echo = worker_echo\<lparr>this_thread := 1, wall_ms := 9000, server := (server worker_echo)\<lparr>m_idle_timeout_seconds := 5\<rparr>\<rparr>"

lemma idle_echo_facts:
  "IsInLoopThread (main_loop idle_echo) idle_echo" "m_idle_timeout_seconds (server idle_echo) = 5"
  "connections idle_echo = [(7, 10)]" "\<not> IsInLoopThread (m_loop (conns idle_echo 10)) idle_echo"
  "IsConnected 10 idle_echo" "wall_ms idle_echo = 9000" "GetLastActiveMs 10 idle_echo = 1000" "m_started (server idle_echo)"
  "\<not> m_stopping (server idle_echo)" "m_loop (conns idle_echo 10) = 4" "m_shutdown_check_timer_id (server idle_echo) = 0"
  using worker_echo_facts(3,5) worker_echo_loops worker_echo_server
  by (simp_all add: idle_echo_def IsInLoopThread_def main_loop_def connections_def IsConnected_def
      GetLastActiveMs_def)

lemma idle_echo_acceptor:
  "IsInLoopThread (m_acc_loop (acceptor idle_echo)) idle_echo" "m_main_loop (server idle_echo) = 0"
  "m_ownerLoop (channels idle_echo (m_listen_channel (acceptor idle_echo))) = m_acc_loop (acceptor idle_echo)"
  using worker_echo_acceptor worker_echo_loops worker_echo_server by (simp_all add: idle_echo_def IsInLoopThread_def)

theorem idle_scan_exact_witness:
  "\<exists>w'. ScanIdleConnections (echo_user example_env) idle_echo = Inr w' \<and> m_state (conns w' 10) = Disconnecting \<and>
     server w' = server idle_echo"
  using idle_scan_exact [of idle_echo "echo_user example_env"] idle_echo_facts by auto

section \<open>The graceful stop\<close>

lemma Stop_returns:
  assumes "IsInLoopThread (m_acc_loop (acceptor w)) w"
    and "m_ownerLoop (channels w (m_listen_channel (acceptor w))) = m_acc_loop (acceptor w)"
  obtains w' where "(if IsListening w then Stop w else Inr w) = Inr w'" and "conns w' = conns w"
    and "server w' = server w" and "\<not> IsListening w'" and "\<And>l. IsInLoopThread l w' = IsInLoopThread l w"
    and "\<And>l. m_pendingFunctors (loops w' l) = m_pendingFunctors (loops w l)"
    and "\<And>d. d \<noteq> m_listen_channel (acceptor w) \<Longrightarrow> channels w' d = channels w d"
proof (cases "m_is_listening (acceptor w)")
  case False
  with that [of w] show ?thesis by (simp add: IsListening_def)
next
  case True
  let ?ch = "m_listen_channel (acceptor w)"
  have "IsInLoopThread (m_ownerLoop (channels w ?ch)) (upd_channel ?ch (events_disable (kReadEvent Linux)) w)"
    using assms by (simp add: IsInLoopThread_def)
  from UpdateChannel_returns(1) [OF this] obtain w1 where w1: "DisableReading ?ch w = Inr w1"
    by (auto simp: DisableReading_def Let_def)
  note m1 = mask_ops(2) [OF w1] and d1 = maskedD [OF mask_ops(2) [OF w1]]
  define w2 where "w2 = w1\<lparr>acceptor := (acceptor w1)\<lparr>m_is_listening := False\<rparr>\<rparr>"
  have srv: "server w1 = server w" by (rule server_more(1) [OF d1(16)])
  have "(if IsListening w then Stop w else Inr w) = Inr w2"
    using True assms(1) w1 by (simp add: IsListening_def Stop_def AssertInLoopThread_def w2_def)
  then show ?thesis
  proof (rule that)
    show "IsInLoopThread l w2 = IsInLoopThread l w" for l
      using masked_threads [OF m1, of l] by (simp add: w2_def IsInLoopThread_def)
  qed (simp_all add: w2_def d1 srv IsListening_def)
qed

lemma RunAfter_last:
  assumes "RunAfter d l ms cb w = (timer, w')"
  shows "timer_cb (last (tasks (get_timers l w'))) = cb" "timer_id (last (tasks (get_timers l w'))) = timer"
    "\<not> cancelled (last (tasks (get_timers l w')))"
    "m_pendingFunctors (loops w' k) = m_pendingFunctors (loops w k)"
proof -
  obtain now w0 where now: "steady_now d w = (now, w0)" by (cases "steady_now d w")
  define due where "due = now + (if ms < 0 then 0 else ms) * ns_per_ms"
  obtain t where t: "add_task due 0 False cb (get_timers l w0) = (timer, t)" and w': "w' = wake_if_needed l (put_timers l t w0)"
    using assms now by (auto simp: RunAfter_def RunAt_def due_def split: prod.splits)
  show "timer_cb (last (tasks (get_timers l w'))) = cb" "timer_id (last (tasks (get_timers l w'))) = timer"
    "\<not> cancelled (last (tasks (get_timers l w')))"
    using add_task_simps(1,2) [OF t] by (simp_all add: w')
  have "loops w0 = loops w" using now steady_now_simps(1) [of d w] by simp
  then show "m_pendingFunctors (loops w' k) = m_pendingFunctors (loops w k)" by (simp add: w')
qed

lemma RunEvery_pending:
  assumes "RunEvery d l ms cb w = (timer, w')"
  shows "m_pendingFunctors (loops w' k) = m_pendingFunctors (loops w k)"
proof -
  obtain now w0 where now: "steady_now d w = (now, w0)" by (cases "steady_now d w")
  obtain t where "w' = wake_if_needed l (put_timers l t w0)"
    using assms now by (auto simp: RunEvery_def Let_def split: prod.splits)
  moreover have "loops w0 = loops w" using now steady_now_simps(1) [of d w] by simp
  ultimately show ?thesis by simp
qed

lemma stop_timers_simps:
  "conns (stop_timers e ms w) = conns w" "acceptor (stop_timers e ms w) = acceptor w"
  "m_pendingFunctors (loops (stop_timers e ms w) l) = m_pendingFunctors (loops w l)"
  "m_connections (server (stop_timers e ms w)) = m_connections (server w)"
  "m_stopping (server (stop_timers e ms w)) = m_stopping (server w)"
  "m_shutdown_complete_callback (server (stop_timers e ms w)) = m_shutdown_complete_callback (server w)"
  "timer_cb (last (tasks (get_timers (main_loop w) (stop_timers e ms w)))) = Some DoShutdownDeadline"
  "timer_id (last (tasks (get_timers (main_loop w) (stop_timers e ms w)))) =
     m_shutdown_deadline_timer_id (server (stop_timers e ms w))"
proof -
  define w1 where "w1 = (if m_shutdown_check_timer_id (server w) = 0
    then let (timer, w) = RunEvery (dt e) (main_loop w) 100 (Some DoShutdownCheck) w
         in upd_server (\<lambda>s. s\<lparr>m_shutdown_check_timer_id := timer\<rparr>) w else w)"
  have w1: "conns w1 = conns w" "\<And>l. m_pendingFunctors (loops w1 l) = m_pendingFunctors (loops w l)"
    "m_connections (server w1) = m_connections (server w)" "m_stopping (server w1) = m_stopping (server w)"
    "main_loop w1 = main_loop w" "acceptor w1 = acceptor w"
    "m_shutdown_complete_callback (server w1) = m_shutdown_complete_callback (server w)"
    by (simp_all add: w1_def split_beta main_loop_def RunEvery_pending [OF prod.collapse [symmetric]])
  obtain timer w2 where w2: "RunAfter (dt e) (main_loop w1) (via_seconds e (max ms 1)) (Some DoShutdownDeadline) w1 = (timer, w2)"
    by fastforce
  have eq: "stop_timers e ms w = upd_server (\<lambda>s. s\<lparr>m_shutdown_deadline_timer_id := timer\<rparr>) w2"
    unfolding stop_timers_def Let_def [of "if _ then _ else _"] w1_def [symmetric] using w2 by simp
  have "conns w2 = conns w1" "server w2 = server w1" "acceptor w2 = acceptor w1"
    using w2 timer_frames by (metis snd_conv)+
  then show "conns (stop_timers e ms w) = conns w" "acceptor (stop_timers e ms w) = acceptor w"
    "m_pendingFunctors (loops (stop_timers e ms w) l) = m_pendingFunctors (loops w l)"
    "m_connections (server (stop_timers e ms w)) = m_connections (server w)"
    "m_stopping (server (stop_timers e ms w)) = m_stopping (server w)"
    "m_shutdown_complete_callback (server (stop_timers e ms w)) = m_shutdown_complete_callback (server w)"
    by (simp_all add: eq w1 RunAfter_last(4) [OF w2])
  show "timer_cb (last (tasks (get_timers (main_loop w) (stop_timers e ms w)))) = Some DoShutdownDeadline"
    "timer_id (last (tasks (get_timers (main_loop w) (stop_timers e ms w)))) =
     m_shutdown_deadline_timer_id (server (stop_timers e ms w))"
    using RunAfter_last(1,2) [OF w2] by (simp_all add: eq w1(5) get_timers_def)
qed

text \<open>C20 (a graceful stop tells every connection, with worker loops). In the main loop's thread, a
  graceful stop of a started server with connections returns; the server no longer listens and is
  stopping; every connected connection has become disconnecting and its loop has been given one
  \<open>Shutdown\<close> for it; the other connections are as before, and so is the table; the
  callback is kept for the end, and a timer of the main loop is set for the deadline.\<close>

theorem stop_tells_connections:
  assumes "IsInLoopThread (main_loop w) w" and "m_started (server w)" and "\<not> m_stopping (server w)"
    and "connections w \<noteq> []" and "distinct (map fst (connections w))" and "distinct (map snd (connections w))"
    and "\<forall>c \<in> snd ` set (connections w). \<not> IsInLoopThread (m_loop (conns w c)) w"
    and "IsInLoopThread (m_acc_loop (acceptor w)) w"
    and "m_ownerLoop (channels w (m_listen_channel (acceptor w))) = m_acc_loop (acceptor w)"
  shows "\<exists>w'. StopGracefully e U timeout_ms cb w = Inr w' \<and> m_stopping (server w') \<and> \<not> IsListening w' \<and>
    connections w' = connections w \<and> m_shutdown_complete_callback (server w') = cb \<and>
    (\<forall>c. m_state (conns w' c) =
       (if c \<in> snd ` set (connections w) \<and> IsConnected c w then Disconnecting else m_state (conns w c))) \<and>
    (\<forall>l. m_pendingFunctors (loops w' l) = m_pendingFunctors (loops w l) @
       map DoShutdown (filter (\<lambda>c. IsConnected c w \<and> m_loop (conns w c) = l) (map snd (connections w)))) \<and>
    timer_cb (last (tasks (get_timers (main_loop w) w'))) = Some DoShutdownDeadline \<and>
    timer_id (last (tasks (get_timers (main_loop w) w'))) = m_shutdown_deadline_timer_id (server w')"
proof -
  let ?cs = "map snd (connections w)"
  define w1 where "w1 = upd_server (\<lambda>s. s\<lparr>m_stopping := True, m_shutdown_complete_callback := cb\<rparr>) w"
  obtain w2 where stop: "(if IsListening w1 then Stop w1 else Inr w1) = Inr w2" and w2: "conns w2 = conns w"
    "server w2 = server w1" "\<not> IsListening w2" "\<And>l. IsInLoopThread l w2 = IsInLoopThread l w"
    "\<And>l. m_pendingFunctors (loops w2 l) = m_pendingFunctors (loops w l)"
    by (rule Stop_returns [of w1]) (use assms(8,9) in \<open>simp_all add: w1_def IsInLoopThread_def\<close>)
  define w3 where "w3 = fold (told {Connected} DoShutdown) ?cs w2"
  have table: "connections w2 = connections w" by (simp add: connections_def w2(2) w1_def)
  have "for_connections (Shutdown (server_exec U)) w2 = Inr w3"
    unfolding for_connections_def w3_def table
    by (rule walk_told) (use assms(5,7) table w2(1,4) in \<open>auto simp: told_ops split_beta\<close>)
  note walk = this and d3 = fold_told [where cs = ?cs and S = "{Connected}" and k = DoShutdown and w = w2,
    OF assms(6), folded w3_def]
  have srv3: "server w3 = server w1" by (simp add: w3_def w2(2))
  define w6 where "w6 = stop_timers e timeout_ms w3"
  have ne: "connections w3 \<noteq> []" using assms(4) by (simp add: connections_def srv3 w1_def)
  have "StopGracefully e U timeout_ms cb w = rbind (if IsListening w1 then Stop w1 else Inr w1) (\<lambda>w.
       rbind (for_connections (Shutdown (server_exec U)) w) (\<lambda>w.
       if connections w = [] then FinalizeGracefulStop (ForceClose (server_exec U)) U False w
       else Inr (stop_timers e timeout_ms w)))"
    using assms(1-3) by (simp add: StopGracefully_def StopGracefully_in_loop_def AssertInLoopThread_def Let_def w1_def)
  also have "\<dots> = Inr w6" using stop walk ne by (simp add: w6_def)
  finally have run: "StopGracefully e U timeout_ms cb w = Inr w6" .
  have acc: "\<not> IsListening w6"
    using w2(3) server_more(3) [OF d3(4)] by (simp add: w6_def IsListening_def stop_timers_simps)
  have srv: "m_stopping (server w6)" "connections w6 = connections w" "m_shutdown_complete_callback (server w6) = cb"
    by (simp_all add: w6_def stop_timers_simps srv3 connections_def w1_def)
  have states: "m_state (conns w6 c) =
      (if c \<in> snd ` set (connections w) \<and> IsConnected c w then Disconnecting else m_state (conns w c))" for c
    by (simp add: w6_def stop_timers_simps d3(1) w2(1) IsConnected_def)
  have queues: "m_pendingFunctors (loops w6 l) = m_pendingFunctors (loops w l) @
       map DoShutdown (filter (\<lambda>c. IsConnected c w \<and> m_loop (conns w c) = l) ?cs)" for l
    by (simp add: w6_def stop_timers_simps d3(5) w2(1,5) IsConnected_def)
  have "main_loop w3 = main_loop w" by (simp add: main_loop_def srv3 w1_def)
  then have "timer_cb (last (tasks (get_timers (main_loop w) w6))) = Some DoShutdownDeadline"
    "timer_id (last (tasks (get_timers (main_loop w) w6))) = m_shutdown_deadline_timer_id (server w6)"
    using stop_timers_simps(7,8) [of w3] by (simp_all add: w6_def)
  with run acc srv states queues show ?thesis by blast
qed

theorem stop_tells_connections_witness:
  "\<exists>w'. StopGracefully example_env (echo_user example_env) 5000 (Some QuitMain) idle_echo = Inr w' \<and>
     m_state (conns w' 10) = Disconnecting \<and> connections w' = [(7, 10)] \<and>
     timer_cb (last (tasks (get_timers 0 w'))) = Some DoShutdownDeadline"
  using stop_tells_connections [of idle_echo example_env "echo_user example_env" 5000 "Some QuitMain"]
    idle_echo_facts idle_echo_acceptor by (auto simp: main_loop_def)

text \<open>The queues of the loops are all that \<open>destroy_in_loop\<close> changes for connections in other loops.\<close>

lemma rfold_destroy:
  assumes "\<forall>(fd, c) \<in> set xs. \<not> IsInLoopThread (m_loop (conns w c)) w"
  obtains w' where "rfold (\<lambda>(fd, c). destroy_in_loop c) xs w = Inr w'" and "conns w' = conns w" "server w' = server w"
    and "\<And>l. m_pendingFunctors (loops w' l) = m_pendingFunctors (loops w l) @
      map DoConnectDestroyed (filter (\<lambda>c. m_loop (conns w c) = l) (map snd xs))"
  using assms
proof (induction xs arbitrary: w thesis)
  case (Cons x xs)
  obtain fd c where x: "x = (fd, c)" by (cases x)
  let ?w = "QueueInLoop (m_loop (conns w c)) (DoConnectDestroyed c) w"
  have step: "destroy_in_loop c w = Inr ?w" using Cons.prems(2) by (simp add: x destroy_in_loop_def RunInLoop_def)
  obtain w' where w': "rfold (\<lambda>(fd, c). destroy_in_loop c) xs ?w = Inr w'" "conns w' = conns ?w" "server w' = server ?w"
    "\<And>l. m_pendingFunctors (loops w' l) = m_pendingFunctors (loops ?w l) @
      map DoConnectDestroyed (filter (\<lambda>c. m_loop (conns ?w c) = l) (map snd xs))"
    by (rule Cons.IH [of ?w]) (use Cons.prems(2) in \<open>auto\<close>)
  show ?case by (rule Cons.prems(1) [of w']) (use step w' in \<open>simp_all add: x pending_QueueInLoop\<close>)
qed simp

lemma pending_Cancel: "m_pendingFunctors (loops (snd (Cancel l t w)) k) = m_pendingFunctors (loops w k)"
  by (simp add: Cancel_def Let_def Wakeup_def upd_loop_def split: prod.split)

lemma cancel_if_set_simps [simp]:
  "conns (cancel_if_set get clear w) = conns w"
  "m_pendingFunctors (loops (cancel_if_set get clear w) l) = m_pendingFunctors (loops w l)"
  "server (cancel_if_set get clear w) = (if get (server w) = 0 then server w else clear (server w))"
  by (simp_all add: cancel_if_set_def pending_Cancel)


definition deadline_echo :: echo where
  "deadline_echo = upd_conn 10 (\<lambda>cn. cn\<lparr>m_state := Disconnecting\<rparr>)
     (upd_server (\<lambda>s. s\<lparr>m_stopping := True, m_shutdown_complete_callback := Some QuitMain\<rparr>) idle_echo)"


section \<open>A single-threaded graceful stop\<close>

lemma Shutdown_idle_closes:
  assumes "wired c w" and "IsConnected c w" and "wf_buffer (m_output_buffer (conns w c))"
    and "content (m_output_buffer (conns w c)) = []"
  shows "Shutdown E c w = HandleClose E c (upd_conn c (\<lambda>cn. cn\<lparr>m_state := Disconnecting\<rparr>) w)"
proof -
  have "ReadableBytes (m_output_buffer (conns w c)) = 0"
    using unat_ReadableBytes [OF assms(3)] assms(4) by (simp flip: unat_eq_zero)
  with assms(1,2) show ?thesis
    by (simp add: Shutdown_def IsConnected_def RunInLoop_def ShutdownInLoop_def AssertInLoopThread_def wired_def
        IsInLoopThread_def)
qed

text \<open>C25 (a single-threaded graceful stop has undefined behaviour). In a server without worker loops,
  \<open>Shutdown\<close> of a connection with nothing to send closes it at once, and its removal erases the very
  entry of the table the loop in \<open>StopGracefully\<close> is at; the loop then advances an invalid
  iterator. (There is another entry in the table here; without one the stop ends inside the loop
  first, with the same consequence.)\<close>

theorem single_threaded_stop_undefined:
  assumes "wired c w" and "main_loop w = m_loop (conns w c)" and "IsConnected c w"
    and "wf_buffer (m_output_buffer (conns w c))" and "content (m_output_buffer (conns w c)) = []"
    and "m_conn_close_callback (conns w c) = Some RemoveConnection" and "GetFd c w \<noteq> INVALID_SOCKET_VALUE"
    and "connections w = (GetFd c w, c) # rest" and "AList.delete (GetFd c w) rest \<noteq> []"
    and "m_started (server w)" and "\<not> m_stopping (server w)"
    and "IsInLoopThread (m_acc_loop (acceptor w)) w"
    and "m_ownerLoop (channels w (m_listen_channel (acceptor w))) = m_acc_loop (acceptor w)"
    and "m_channel (conns w c) \<noteq> m_listen_channel (acceptor w)"
  shows "StopGracefully e U timeout_ms cb w = Inl UndefinedBehaviour"
proof -
  define w1 where "w1 = upd_server (\<lambda>s. s\<lparr>m_stopping := True, m_shutdown_complete_callback := cb\<rparr>) w"
  obtain w2 where stop: "(if IsListening w1 then Stop w1 else Inr w1) = Inr w2" and w2: "conns w2 = conns w"
    "server w2 = server w1" "\<And>l. IsInLoopThread l w2 = IsInLoopThread l w"
    "\<And>d. d \<noteq> m_listen_channel (acceptor w) \<Longrightarrow> channels w2 d = channels w d"
    by (rule Stop_returns [of w1]) (use assms(12,13) in \<open>simp_all add: w1_def IsInLoopThread_def\<close>)
  define w3 where "w3 = upd_conn c (\<lambda>cn. cn\<lparr>m_state := Disconnecting\<rparr>) w2"
  have "wired c w2" using assms(1,14) by (simp add: wired_def w2)
  then have wired: "wired c w3" by (simp add: w3_def)
  have down: "Shutdown (server_exec U) c w2 = HandleClose (server_exec U) c w3"
    unfolding w3_def using \<open>wired c w2\<close> assms(3-5) by (intro Shutdown_idle_closes) (simp_all add: w2(1) IsConnected_def)
  have table: "connections w3 = (GetFd c w, c) # rest" "GetFd c w3 = GetFd c w"
    using assms(8) by (simp_all add: w3_def connections_def w2 w1_def GetFd_def)
  obtain w4 where close: "HandleClose (server_exec U) c w3 = Inr w4"
    and "server w4 = (server w3)\<lparr>m_connections := AList.delete (GetFd c w3) (connections w3),
      m_closed_connections := m_closed_connections (server w3) + 1\<rparr>"
    by (rule HandleClose_single [OF wired])
      (use assms(2,6,7,9) table in \<open>simp_all add: w3_def main_loop_def w2 w1_def AList.delete_eq\<close>)
  then have gone: "map_of (connections w4) (GetFd c w) = None" by (simp add: connections_def table(2) delete_conv)
  have table2: "connections w2 = (GetFd c w, c) # rest" using assms(8) by (simp add: connections_def w2(2) w1_def)
  have "for_connections (Shutdown (server_exec U)) w2 = Inl UndefinedBehaviour"
    using down close gone by (simp add: for_connections_def table2)
  moreover have "IsInLoopThread (main_loop w) w" using assms(1,2) by (simp add: wired_def)
  ultimately show ?thesis
    using stop assms(10,11)
    by (simp add: StopGracefully_def StopGracefully_in_loop_def AssertInLoopThread_def Let_def flip: w1_def)
qed

definition two_echo :: echo where
  "two_echo = upd_server (\<lambda>s. s\<lparr>m_connections := [(7, 10), (8, 11)]\<rparr>) accepted_echo"

lemma accepted_echo_acceptor:
  "m_acc_loop (acceptor accepted_echo) = 0" "m_listen_channel (acceptor accepted_echo) = 1"
  "m_ownerLoop (channels accepted_echo 1) = 0" "m_channel (conns accepted_echo 10) = 10"
  "m_loop (conns accepted_echo 10) = 0"
  by code_simp+

theorem single_threaded_stop_undefined_witness:
  "StopGracefully example_env (echo_user example_env) 5000 (Some QuitMain) two_echo = Inl UndefinedBehaviour"
proof -
  have "server_inv 10 accepted_echo" by (rule echo.server_run_inv [OF accept_run ready_echo_inv])
  then have "conn_ok False 10 accepted_echo"
    by (auto simp: server_inv_def net_ok_def known_def accepted_echo_facts)
  then have buf: "wf_buffer (m_output_buffer (conns two_echo 10))" "content (m_output_buffer (conns two_echo 10)) = []"
    by (auto simp: conn_ok_def accepted_echo_facts two_echo_def)
  have acc: "acceptor two_echo = acceptor accepted_echo" "channels two_echo = channels accepted_echo"
    "conns two_echo = conns accepted_echo" "GetFd 10 two_echo = 7" "wired 10 two_echo"
    "IsInLoopThread l two_echo = IsInLoopThread l accepted_echo" for l
    using accepted_echo_wired(1,3) by (simp_all add: two_echo_def GetFd_def IsInLoopThread_def)
  have main: "main_loop two_echo = 0" "IsInLoopThread 0 accepted_echo"
    using accepted_echo_wired(1,2) accepted_echo_acceptor(5) by (simp_all add: two_echo_def main_loop_def wired_def)
  show ?thesis
    by (rule single_threaded_stop_undefined [where c = 10 and rest = "[(8, 11)]"])
      (use buf acc main accepted_echo_acceptor accepted_echo_wired accepted_echo_open accepted_echo_facts(2)
       in \<open>simp_all add: IsConnected_def INVALID_SOCKET_VALUE_def two_echo_def connections_def\<close>)
qed

end
