(* ===== verification/Echo_Claims.thy ===== *)
theory Echo_Claims
  imports Server_Examples
begin

text \<open>
  What the echo program does with the bytes its clients send, through all layers: the connection reads
  them, the codec finds the messages in them, and each is answered on the same connection; and what the
  program makes of its command line.
\<close>

section \<open>Sending from the connection's own loop\<close>

text \<open>A connection of the running thread's loop that is connected and has room for \<open>n\<close> more bytes.\<close>

definition sendable :: "conn_id \<Rightarrow> nat \<Rightarrow> ('u, 'z) net_scheme \<Rightarrow> bool" where
  "sendable c n w \<longleftrightarrow> wired c w \<and> IsConnected c w \<and> wf_buffer (m_output_buffer (conns w c)) \<and>
     unat (m_write_idx (m_output_buffer (conns w c))) + n \<le> max_size"

text \<open>The back-pressure callbacks of the program only count and write to the log.\<close>

lemma plain_high_water:
  obtains w' where "on_high_water (server_exec plain_user) u c n w = Inr w'" and "conns w' = conns w"
    and "channels w' = channels w" and "loops w' = loops w" and "this_thread w' = this_thread w"
    and "sent w' = sent w" and "accepted w' = accepted w"
proof (cases u)
  case HighWater
  then show ?thesis
    by (intro that [of "upd_server (\<lambda>s. s\<lparr>m_high_water_mark_triggered := m_high_water_mark_triggered s + 1\<rparr>) w"])
      (simp_all add: server_exec_def high_water_def Let_def invoke_def plain_user_def split: option.split)
qed (intro that [of w]; simp add: server_exec_def plain_user_def)+

lemma plain_back_pressure:
  obtains w' where "(if P then invoke (\<lambda>u c. on_high_water (server_exec plain_user) u c n) cb c w else Inr w) = Inr w'"
    and "conns w' = conns w" and "channels w' = channels w" and "loops w' = loops w"
    and "this_thread w' = this_thread w" and "sent w' = sent w" and "accepted w' = accepted w"
proof (cases "P \<and> cb \<noteq> None")
  case True
  then obtain u where u: "cb = Some u" by auto
  obtain w' where "on_high_water (server_exec plain_user) u c n w = Inr w'" "conns w' = conns w" "channels w' = channels w"
    "loops w' = loops w" "this_thread w' = this_thread w" "sent w' = sent w" "accepted w' = accepted w"
    by (rule plain_high_water)
  with True u show ?thesis by (intro that [of w']) (simp_all add: invoke_def)
next
  case False
  then show ?thesis by (intro that [of w]) (auto simp: invoke_def)
qed

lemma conn_send_delivers:
  assumes "sendable c (length msg + n) w"
  obtains w' where "conn_send c msg w = Inr w'" and "sendable c n w'" and "accepted w' c = accepted w c @ msg"
    and "sent w' c = sent w c" and "m_input_buffer (conns w' c) = m_input_buffer (conns w c)"
    and "IsWriting Linux (channels w' (m_channel (conns w' c)))"
proof -
  let ?o = "m_output_buffer (conns w c)"
  have wired: "wired c w" and con: "IsConnected c w" and wf: "wf_buffer ?o"
    and room: "unat (m_write_idx ?o) + (length msg + n) \<le> max_size"
    using assms by (simp_all add: sendable_def)
  have len: "unat (of_nat (length msg) :: size_t) = length msg"
    using room by (intro unat_of_nat_size_t) (simp add: max_size_def)
  from Append_ok [OF wf, of "of_nat (length msg)" msg] room len obtain b where
    b: "Append msg (of_nat (length msg)) ?o = Inr b" "wf_buffer b"
      "unat (m_write_idx b) \<le> unat (m_write_idx ?o) + length msg" by auto
  define w1 where "w1 = upd_conn c (\<lambda>cn. cn\<lparr>m_output_buffer := b, m_pending_write_bytes := ReadableBytes b\<rparr>)
    (w\<lparr>accepted := (accepted w)(c := accepted w c @ msg)\<rparr>)"
  have thread: "IsInLoopThread (m_loop (conns w c)) w" using wired by (simp add: wired_def)
  obtain w2 where hw: "(if ReadableBytes ?o < m_high_water_mark (conns w1 c) \<and> m_high_water_mark (conns w1 c) \<le> ReadableBytes b
      then invoke (\<lambda>u c. on_high_water (server_exec plain_user) u c (ReadableBytes b)) (m_high_water_mark_callback (conns w1 c)) c w1
      else Inr w1) = Inr w2" and w2: "conns w2 = conns w1" "channels w2 = channels w1" "loops w2 = loops w1"
      "this_thread w2 = this_thread w1" "sent w2 = sent w1" "accepted w2 = accepted w1"
    by (rule plain_back_pressure)
  have wired2: "wired c w2" using wired by (simp add: wired_def IsInLoopThread_def w2 w1_def)
  have "conn_send c msg w = rbind (if ReadableBytes ?o < m_high_water_mark (conns w1 c) \<and> m_high_water_mark (conns w1 c) \<le> ReadableBytes b
      then invoke (\<lambda>u c. on_high_water (server_exec plain_user) u c (ReadableBytes b)) (m_high_water_mark_callback (conns w1 c)) c w1
      else Inr w1) (\<lambda>w. if \<not> IsWriting Linux (channels w (m_channel (conns w c)))
        then EnableWriting (m_channel (conns w c)) w else Inr w)"
    using con thread b(1)
    by (simp add: conn_send_def Send_def SendInLoop_def AssertInLoopThread_def len Let_def w1_def)
  then have eq: "conn_send c msg w = (if \<not> IsWriting Linux (channels w2 (m_channel (conns w2 c)))
      then EnableWriting (m_channel (conns w2 c)) w2 else Inr w2)" unfolding hw by simp
  obtain w3 where w3: "conn_send c msg w = Inr w3" "conns w3 = conns w2" "sent w3 = sent w2" "accepted w3 = accepted w2"
    "wired c w3" "IsWriting Linux (channels w3 (m_channel (conns w2 c)))"
  proof (cases "IsWriting Linux (channels w2 (m_channel (conns w2 c)))")
    case True
    with that [of w2] eq wired2 show ?thesis by simp
  next
    case False
    obtain w' where w': "EnableWriting (m_channel (conns w2 c)) w2 = Inr w'" "conns w' = conns w2" "sent w' = sent w2"
      "wired c w'" "IsWriting Linux (channels w' (m_channel (conns w2 c)))" by (rule EnableWriting_wired [OF wired2])
    with that [of w'] eq False maskedD(4) [OF mask_ops(3) [OF w'(1)]] show ?thesis by simp
  qed
  have "IsConnected c w3" using con by (simp add: IsConnected_def w3(2) w2(1) w1_def)
  then show ?thesis
    using w3 b room by (intro that [of w3]) (simp_all add: sendable_def w2 w1_def)
qed

section \<open>Answering messages\<close>

definition echo_reply :: "string \<Rightarrow> string" where
  "echo_reply m = (if m = ''PING'' then ''PONG'' else m)"

lemma echo_message_sends:
  assumes "IsConnected c w"
  shows "echo_message h c m w = conn_send c (framed h (echo_reply m)) w"
  using assms
  by (simp add: echo_message_def HandleHeartbeat_def Send_codec_def echo_reply_def framed_def rbind_def
      split: sum.split)

lemma echo_messages_deliver:
  assumes "sendable c (length (concat (map (framed h \<circ> echo_reply) ms))) w"
  obtains w' where "rfold (echo_message h c) ms w = Inr w'" and "sendable c 0 w'"
    and "accepted w' c = accepted w c @ concat (map (framed h \<circ> echo_reply) ms)" and "sent w' c = sent w c"
    and "ms \<noteq> [] \<longrightarrow> IsWriting Linux (channels w' (m_channel (conns w' c)))"
  using assms
proof (induction ms arbitrary: w thesis)
  case (Cons m ms)
  let ?r = "framed h (echo_reply m)" and ?n = "length (concat (map (framed h \<circ> echo_reply) ms))"
  have room: "sendable c (length ?r + ?n) w" using Cons.prems(2) by (simp add: comp_def)
  obtain w1 where w1: "conn_send c ?r w = Inr w1" "sendable c ?n w1" "accepted w1 c = accepted w c @ ?r"
    "sent w1 c = sent w c" "IsWriting Linux (channels w1 (m_channel (conns w1 c)))"
    by (rule conn_send_delivers [OF room])
  obtain w2 where w2: "rfold (echo_message h c) ms w1 = Inr w2" "sendable c 0 w2"
    "accepted w2 c = accepted w1 c @ concat (map (framed h \<circ> echo_reply) ms)" "sent w2 c = sent w1 c"
    "ms \<noteq> [] \<longrightarrow> IsWriting Linux (channels w2 (m_channel (conns w2 c)))"
    by (rule Cons.IH [OF _ w1(2)])
  have "echo_message h c m w = Inr w1" using room w1(1) by (simp add: echo_message_sends sendable_def)
  moreover have "IsWriting Linux (channels w2 (m_channel (conns w2 c)))" using w1(5) w2(1,5) by (cases ms) auto
  ultimately show ?case using w1 w2 by (intro Cons.prems(1) [of w2]) (simp_all add: comp_def)
qed (use that in \<open>simp_all add: sendable_def\<close>)

text \<open>C4 (the echo server echoes). Let a connected connection of the running loop be readable: the
  kernel delivers bytes \<open>d\<close>, which together with those already in the input buffer are frames for messages
  the codec admits and then an incomplete frame. \<open>HandleRead\<close> then takes them all, keeps
  the incomplete frame, and has sent, in order, one frame for every message: the message itself, or
  \<open>PONG\<close> for \<open>PING\<close>. The connection stays connected and asks for write events if there was a
  message. (The output buffer must have room for the answers.)\<close>

theorem echo_answers:
  fixes w :: "'z echo_scheme"
  assumes "wired c w" and "IsConnected c w" and "m_message_callback (conns w c) = Some (UserCb EchoMessage)"
    and "wf_buffer (m_input_buffer (conns w c))" and "wf_buffer (m_output_buffer (conns w c))"
    and "inbox w (GetFd c w) = Inr d # later" and "d \<noteq> []" and "length d \<le> readv_capacity (m_input_buffer (conns w c))"
    and "length (m_buf (m_input_buffer (conns w c))) + extrabuf_size \<le> max_size"
    and "content (m_input_buffer (conns w c)) @ d = concat (map (framed e') ms) @ rest"
    and "\<forall>m \<in> set ms. fits_frame default_max_frame_len m" and "decode_frames default_max_frame_len rest = ([], rest, False)"
    and "unat (m_write_idx (m_output_buffer (conns w c))) + length (concat (map (framed (host e) \<circ> echo_reply) ms)) \<le> max_size"
  shows "\<exists>w'. HandleRead (server_exec (echo_user e)) c w = Inr w' \<and> IsConnected c w' \<and>
    content (m_input_buffer (conns w' c)) = rest \<and>
    accepted w' c = accepted w c @ concat (map (framed (host e) \<circ> echo_reply) ms) \<and> sent w' c = sent w c \<and>
    (ms \<noteq> [] \<longrightarrow> IsWriting Linux (channels w' (m_channel (conns w' c))))"
proof -
  let ?i = "m_input_buffer (conns w c)"
  obtain b where b: "ReadFromFd (Inr d) ?i = Inr (of_nat (length d), None, b)" "wf_buffer b" "content b = content ?i @ d"
    using ReadFromFd_delivers [OF assms(4,8,9)] by blast
  define w0 where "w0 = snd (sys_readv (GetFd c w) (readv_capacity ?i) w)"
  define w1 where "w1 = RefreshActiveTime c (upd_conn c (\<lambda>cn. cn\<lparr>m_total_bytes_read := m_total_bytes_read cn + of_nat (length d)\<rparr>)
    (upd_conn c (\<lambda>cn. cn\<lparr>m_input_buffer := b\<rparr>) w0))"
  have sys: "sys_readv (GetFd c w) (readv_capacity ?i) w = (Inr d, w0)"
    using assms(6,8) by (simp add: w0_def sys_readv_def)
  have w0: "w0 = w\<lparr>inbox := (inbox w)(GetFd c w := later)\<rparr>" using assms(6,8) by (simp add: w0_def sys_readv_def)
  have small: "length d \<le> 9223372036854775807"
    using wf_bounds(3) [OF b(2)] length_content [OF b(2)] wf_bounds(1,2) [OF b(2)] b(3) by simp
  then have "0 < sint (of_nat (length d) :: ssize_t)"
    using assms(7) by (simp add: sint_pos_size_t unat_of_nat_size_t)
  then have "HandleRead (server_exec (echo_user e)) c w =
      invoke (on_message (server_exec (echo_user e))) (m_message_callback (conns w1 c)) c w1"
    using assms(1) sys b(1)
    by (simp add: HandleRead_def AssertInLoopThread_def wired_def Let_def w1_def w0)
  also have "\<dots> = echo_on_message (host e) c w1"
    using assms(3) by (simp add: w1_def w0 RefreshActiveTime_def invoke_def server_exec_def echo_user_def)
  finally have eq: "HandleRead (server_exec (echo_user e)) c w = echo_on_message (host e) c w1" .
  have "sendable c (length (concat (map (framed (host e) \<circ> echo_reply) ms))) w1"
    using assms(1,2,5,13) by (simp add: sendable_def wired_def IsInLoopThread_def IsConnected_def w1_def w0 RefreshActiveTime_def)
  then obtain w2 where w2: "rfold (echo_message (host e) c) ms w1 = Inr w2" "sendable c 0 w2"
    "accepted w2 c = accepted w1 c @ concat (map (framed (host e) \<circ> echo_reply) ms)" "sent w2 c = sent w1 c"
    "ms \<noteq> [] \<longrightarrow> IsWriting Linux (channels w2 (m_channel (conns w2 c)))" by (rule echo_messages_deliver)
  have "decode_frames default_max_frame_len (content b) = (ms, rest, False)"
    unfolding b(3) assms(10) using decode_framed_list [OF assms(11,12)] by simp
  from OnMessage_decodes [OF b(2) this, of "host e" "Some (echo_message (host e) c)" "ForceClose (server_exec plain_user) c"]
  obtain b' where b': "content b' = rest" and "\<And>w :: 'z echo_scheme. OnMessage (host e) default_max_frame_len (Some (echo_message (host e) c))
      (ForceClose (server_exec plain_user) c) b w = rbind (rfold (echo_message (host e) c) ms w) (\<lambda>w'. Inr (b', w'))"
    by auto
  then have run: "OnMessage (host e) default_max_frame_len (Some (echo_message (host e) c))
      (ForceClose (server_exec plain_user) c) b w1 = Inr (b', w2)" using w2(1) by simp
  have in1: "m_input_buffer (conns w1 c) = b" by (simp add: w1_def RefreshActiveTime_def)
  have "echo_on_message (host e) c w1 = Inr (upd_conn c (\<lambda>cn. cn\<lparr>m_input_buffer := b'\<rparr>) w2)"
    by (simp add: echo_on_message_def in1 run)
  with eq w2 b' show ?thesis by (auto simp: sendable_def IsConnected_def w1_def w0 RefreshActiveTime_def)
qed

lemma accepted_echo_buffers:
  "length (m_buf (m_input_buffer (conns accepted_echo 10))) = 1024"
  "m_write_idx (m_input_buffer (conns accepted_echo 10)) = 0" "m_write_idx (m_output_buffer (conns accepted_echo 10)) = 0"
  by code_simp+

lemma accepted_echo_kernel:
  "inbox accepted_echo 7 = [Inr [CHR 0x00, CHR 0x00, CHR 0x00, CHR 0x02, CHR ''o'', CHR ''k'']]"
  "m_message_callback (conns accepted_echo 10) = Some (UserCb EchoMessage)" "wired 10 accepted_echo"
  "GetFd 10 accepted_echo = 7"
  by code_simp+

theorem echo_answers_witness:
  "\<exists>w'. HandleRead (server_exec (echo_user example_env)) 10 accepted_echo = Inr w' \<and>
     accepted w' 10 = [CHR 0x00, CHR 0x00, CHR 0x00, CHR 0x02, CHR ''o'', CHR ''k''] \<and>
     content (m_input_buffer (conns w' 10)) = []"
proof -
  let ?i = "m_input_buffer (conns accepted_echo 10)" and ?o = "m_output_buffer (conns accepted_echo 10)"
  have "server_inv 10 accepted_echo" by (rule echo.server_run_inv [OF accept_run ready_echo_inv])
  then have wf: "wf_buffer ?i" "wf_buffer ?o"
    by (auto simp: server_inv_def net_ok_def known_def conn_ok_def accepted_echo_facts)
  have empty: "content ?i = []" using accepted_echo_buffers(2) by (simp add: content_def)
  have frame: "framed h ''ok'' = [CHR 0x00, CHR 0x00, CHR 0x00, CHR 0x02, CHR ''o'', CHR ''k'']" for h
    by (simp add: framed_eq) code_simp
  have room: "unat (WritableBytes ?i) = 1024"
    using accepted_echo_buffers by (simp add: unat_WritableBytes [OF wf(1)])
  have "\<exists>w'. HandleRead (server_exec (echo_user example_env)) 10 accepted_echo = Inr w' \<and> IsConnected 10 w' \<and>
    content (m_input_buffer (conns w' 10)) = [] \<and>
    accepted w' 10 = accepted accepted_echo 10 @ concat (map (framed (host example_env) \<circ> echo_reply) [''ok'']) \<and>
    sent w' 10 = sent accepted_echo 10 \<and>
    ([''ok''] \<noteq> [] \<longrightarrow> IsWriting Linux (channels w' (m_channel (conns w' 10))))"
    by (rule echo_answers [where d = "framed BigEndian ''ok''" and later = "[]" and e' = BigEndian])
      (use wf empty room accepted_echo_buffers accepted_echo_kernel accepted_echo_facts(2)
       in \<open>simp_all add: IsConnected_def frame readv_capacity_def extrabuf_size_def max_size_def fits_frame_def
         default_max_frame_len_def decode_short echo_reply_def\<close>)
  then show ?thesis by (auto simp: accepted_echo_facts(4) echo_reply_def frame)
qed

section \<open>The command line\<close>

text \<open>The port argument. \<open>ParsePort\<close> reads back every port number that was printed in decimal; every other
  number an \<open>int\<close> can hold, and no argument at all, give the default port 9000. No argument whatever gives
  port 0.\<close>

theorem ParsePort_reads:
  assumes "- 2147483648 \<le> n" and "n \<le> 2147483647"
  shows "ParsePort (Some (to_string n)) = Inr (if 1 \<le> n \<and> n \<le> 65535 then of_int n else 9000) \<and>
    ParsePort None = Inr 9000 \<and> ParsePort (Some arg) \<noteq> Inr 0"
proof -
  have "(of_int i :: uint16) \<noteq> 0" if "\<not> (i \<le> 0 \<or> 65535 < i)" for i :: int
  proof
    assume "(of_int i :: uint16) = 0"
    then have "uint (of_int i :: uint16) = 0" by simp
    with that show False by (simp add: uint_word_of_int)
  qed
  then show ?thesis using assms atoi_to_string [of n] by (auto simp: ParsePort_def rbind_eq_Inr_iff)
qed

theorem ParsePort_reads_witness: "ParsePort (Some (to_string 8080)) = Inr 8080 \<and> ParsePort (Some (to_string 70000)) = Inr 9000"
  using ParsePort_reads [of 8080] ParsePort_reads [of 70000] by simp

end
