(* ===== verification/Thread_Pool.thy ===== *)
theory Thread_Pool
  imports Reactor_Prelude "HOL-Library.Multiset"
begin

text \<open>
  The thread pool, \<open>src/thread_pool.cpp\<close> and \<open>include/thread_pool.h\<close>: workers that take tasks from
  a queue under a mutex and sleep on a condition variable, \<open>Commit\<close>, \<open>Resize\<close> and \<open>Shutdown\<close>.

  The threads interleave. A step of the relation \<open>pool_step\<close> is what one thread does between two
  points where others can interfere: a critical section (which needs the mutex to be free), the moment
  between a worker's test of the wait predicate and its falling asleep (it holds the mutex, but
  \<open>Shutdown\<close> sets the flag and notifies without it), the end of a task, a notification, a spurious wake-up. What
  \<open>Resize\<close> does without the mutex is one step with its critical section. Tasks
  are codes of a type \<open>'t\<close>; they return. The lists \<open>committed\<close>, \<open>begun\<close>, \<open>ended\<close> and \<open>dropped\<close> record the
  history of the tasks.
\<close>

section \<open>State\<close>

datatype 't worker = Ready | Parking | Waiting | Running 't | Exited

text \<open>How far the call of \<open>Shutdown\<close> that stopped the pool has come.\<close>

datatype shutdown_pc = Not_called | Flag_cleared | Notified | Joining "nat list" | Shut_down

record 't pool =
  threads :: "'t worker list"
  m_workers :: "nat list"
  m_tasks :: "'t list"
  m_queue_mutex :: "nat option"
  m_is_running :: bool
  m_target_thread_num :: size_t
  unnotified :: nat
  shutdown_at :: shutdown_pc
  committed :: "'t list"
  begun :: "'t list"
  ended :: "'t list"
  dropped :: "'t list"

definition set_worker :: "nat \<Rightarrow> 't worker \<Rightarrow> 't pool \<Rightarrow> 't pool" where
  "set_worker i x s = s\<lparr>threads := (threads s)[i := x]\<rparr>"

text \<open>New threads run \<open>WorkerLoop\<close>.\<close>

definition spawn :: "nat \<Rightarrow> 't pool \<Rightarrow> 't pool" where
  "spawn n s =
     s\<lparr>threads := threads s @ replicate n Ready,
       m_workers := m_workers s @ [length (threads s)..<length (threads s) + n]\<rparr>"

definition ThreadPool :: "size_t \<Rightarrow> 't pool" where
  "ThreadPool thread_num =
     spawn (unat thread_num)
       \<lparr>threads = [], m_workers = [], m_tasks = [], m_queue_mutex = None, m_is_running = True,
        m_target_thread_num = thread_num, unnotified = 0, shutdown_at = Not_called,
        committed = [], begun = [], ended = [], dropped = []\<rparr>"

section \<open>The worker\<close>

text \<open>
  \<open>WorkerLoop\<close> from taking the lock on: the wait predicate holds and the worker exits or takes the
  first task, or it does not hold and the worker is about to sleep. \<open>None\<close>: the worker cannot do this now.
\<close>

definition WorkerLoop_look :: "nat \<Rightarrow> 't pool \<Rightarrow> 't pool option" where
  "WorkerLoop_look i s =
     (if i < length (threads s) \<and> threads s ! i = Ready \<and> m_queue_mutex s = None then
        if \<not> (\<not> m_is_running s \<or> m_tasks s \<noteq> []) then Some (set_worker i Parking (s\<lparr>m_queue_mutex := Some i\<rparr>))
        else
          case m_tasks s of
            [] \<Rightarrow> Some (set_worker i Exited s)
          | t # ts \<Rightarrow> Some (set_worker i (Running t) (s\<lparr>m_tasks := ts, begun := begun s @ [t]\<rparr>))
      else None)"

definition WorkerLoop_sleep :: "nat \<Rightarrow> 't pool \<Rightarrow> 't pool option" where
  "WorkerLoop_sleep i s =
     (if i < length (threads s) \<and> threads s ! i = Parking
      then Some (set_worker i Waiting (s\<lparr>m_queue_mutex := None\<rparr>)) else None)"

text \<open>Woken by a notification or spuriously, the worker tests the predicate again.\<close>

definition wake :: "nat \<Rightarrow> 't pool \<Rightarrow> 't pool option" where
  "wake i s =
     (if i < length (threads s) \<and> threads s ! i = Waiting then Some (set_worker i Ready s) else None)"

definition WorkerLoop_finish :: "nat \<Rightarrow> 't pool \<Rightarrow> 't pool option" where
  "WorkerLoop_finish i s =
     (if i < length (threads s) then
        case threads s ! i of
          Running t \<Rightarrow> Some (set_worker i Ready (s\<lparr>ended := ended s @ [t]\<rparr>))
        | _ \<Rightarrow> None
      else None)"

section \<open>The interface\<close>

text \<open>Up to the release of the mutex; the notification is a step of its own.\<close>

definition Commit :: "'t \<Rightarrow> 't pool \<Rightarrow> 't pool result" where
  "Commit t s =
     (if \<not> m_is_running s then Inl RuntimeError
      else Inr (s\<lparr>m_tasks := m_tasks s @ [t], committed := committed s @ [t], unnotified := Suc (unnotified s)\<rparr>))"

text \<open>\<open>notify_one\<close>: some waiting worker, \<open>i\<close>, is woken, if there is one.\<close>

definition notify_one :: "nat \<Rightarrow> 't pool \<Rightarrow> 't pool option" where
  "notify_one i s =
     (if unnotified s = 0 then None
      else if Waiting \<in> set (threads s) then map_option (\<lambda>s. s\<lparr>unnotified := unnotified s - 1\<rparr>) (wake i s)
      else Some (s\<lparr>unnotified := unnotified s - 1\<rparr>))"

definition GetThreadNum :: "'t pool \<Rightarrow> nat" where
  "GetThreadNum s = length (m_workers s)"

definition GetPendingTaskNum :: "'t pool \<Rightarrow> nat" where
  "GetPendingTaskNum s = length (m_tasks s)"

definition IsRunning :: "'t pool \<Rightarrow> bool" where
  "IsRunning s \<longleftrightarrow> m_is_running s"

definition Resize :: "size_t \<Rightarrow> 't pool \<Rightarrow> 't pool" where
  "Resize new_thread_num s =
     (if \<not> m_is_running s then s
      else
        let old_thread_num = m_target_thread_num s in
        if new_thread_num = old_thread_num then s
        else
          let s = s\<lparr>m_target_thread_num := new_thread_num\<rparr> in
          if old_thread_num < new_thread_num then spawn (unat (new_thread_num - old_thread_num)) s else s)"

text \<open>\<open>Shutdown\<close>: the flag; the notification; the critical section; the joins.\<close>

definition Shutdown_flag :: "'t pool \<Rightarrow> 't pool" where
  "Shutdown_flag s = (if m_is_running s then s\<lparr>m_is_running := False, shutdown_at := Flag_cleared\<rparr> else s)"

definition notify_all :: "'t pool \<Rightarrow> 't pool" where
  "notify_all s = s\<lparr>threads := map (\<lambda>x. case x of Waiting \<Rightarrow> Ready | _ \<Rightarrow> x) (threads s), shutdown_at := Notified\<rparr>"

definition Shutdown_swap :: "'t pool \<Rightarrow> 't pool" where
  "Shutdown_swap s =
     s\<lparr>shutdown_at := Joining (m_workers s), m_workers := [], m_tasks := [], dropped := dropped s @ m_tasks s\<rparr>"

definition Shutdown_join :: "'t pool \<Rightarrow> 't pool option" where
  "Shutdown_join s =
     (case shutdown_at s of
        Joining [] \<Rightarrow> Some (s\<lparr>shutdown_at := Shut_down\<rparr>)
      | Joining (i # is) \<Rightarrow>
          if i < length (threads s) \<and> threads s ! i = Exited then Some (s\<lparr>shutdown_at := Joining is\<rparr>) else None
      | _ \<Rightarrow> None)"

section \<open>Interleaving\<close>

inductive pool_step :: "'t pool \<Rightarrow> 't pool \<Rightarrow> bool" where
  step_look: "WorkerLoop_look i s = Some s' \<Longrightarrow> pool_step s s'"
| step_sleep: "WorkerLoop_sleep i s = Some s' \<Longrightarrow> pool_step s s'"
| step_spurious: "wake i s = Some s' \<Longrightarrow> pool_step s s'"
| step_finish: "WorkerLoop_finish i s = Some s' \<Longrightarrow> pool_step s s'"
| step_commit: "m_queue_mutex s = None \<Longrightarrow> Commit t s = Inr s' \<Longrightarrow> pool_step s s'"
| step_notify: "notify_one i s = Some s' \<Longrightarrow> pool_step s s'"
| step_resize: "m_queue_mutex s = None \<Longrightarrow> Resize n s \<noteq> s \<Longrightarrow> pool_step s (Resize n s)"
| step_flag: "m_is_running s \<Longrightarrow> pool_step s (Shutdown_flag s)"
| step_notify_all: "shutdown_at s = Flag_cleared \<Longrightarrow> pool_step s (notify_all s)"
| step_swap: "shutdown_at s = Notified \<Longrightarrow> m_queue_mutex s = None \<Longrightarrow> pool_step s (Shutdown_swap s)"
| step_join: "Shutdown_join s = Some s' \<Longrightarrow> pool_step s s'"

inductive_cases pool_stepE: "pool_step s s'"

abbreviation pool_run :: "'t pool \<Rightarrow> 't pool \<Rightarrow> bool" where
  "pool_run \<equiv> pool_step\<^sup>*\<^sup>*"

lemmas pool_defs = WorkerLoop_look_def WorkerLoop_sleep_def wake_def WorkerLoop_finish_def Commit_def notify_one_def
  Resize_def Shutdown_flag_def notify_all_def Shutdown_swap_def Shutdown_join_def set_worker_def spawn_def

section \<open>Tasks run once, in order\<close>

text \<open>The tasks the workers are at.\<close>

fun at_work :: "'t worker \<Rightarrow> 't multiset" where
  "at_work (Running t) = {#t#}"
| "at_work _ = {#}"

definition current :: "'t pool \<Rightarrow> 't multiset" where
  "current s = sum_list (map at_work (threads s))"

fun past_swap :: "shutdown_pc \<Rightarrow> bool" where
  "past_swap (Joining is) = True"
| "past_swap Shut_down = True"
| "past_swap _ = False"

definition pool_ok :: "'t pool \<Rightarrow> bool" where
  "pool_ok s \<longleftrightarrow> committed s = begun s @ m_tasks s @ dropped s \<and> mset (begun s) = mset (ended s) + current s \<and>
     (m_is_running s \<longleftrightarrow> shutdown_at s = Not_called) \<and> (dropped s \<noteq> [] \<longrightarrow> past_swap (shutdown_at s)) \<and>
     (past_swap (shutdown_at s) \<longrightarrow> m_tasks s = [])"

lemma current_update:
  assumes "i < length (threads s)"
  shows "sum_list (map at_work ((threads s)[i := x])) + at_work (threads s ! i) = current s + at_work x"
proof -
  have "sum_list (map at_work (xs[i := x])) + at_work (xs ! i) = sum_list (map at_work xs) + at_work x" if "i < length xs" for xs
    using that
  proof (induction xs arbitrary: i)
    case (Cons y ys)
    then show ?case by (cases i) (simp_all add: ac_simps)
  qed simp
  from this [OF assms] show ?thesis by (simp add: current_def)
qed

lemma current_idle:
  assumes "i < length (threads s)" and "at_work (threads s ! i) = {#}"
  shows "sum_list (map at_work ((threads s)[i := x])) = current s + at_work x"
  using current_update [OF assms(1), of x] assms(2) by simp

lemma current_unnotified: "current (s\<lparr>unnotified := k\<rparr>) = current s"
  by (simp add: current_def)

lemma current_map: "sum_list (map (at_work \<circ> (\<lambda>x. case x of Waiting \<Rightarrow> Ready | _ \<Rightarrow> x)) ts) = sum_list (map at_work ts)"
  by (induction ts) (auto split: worker.split)

lemma pool_ok_ThreadPool: "pool_ok (ThreadPool n)"
proof -
  have "sum_list (map at_work (replicate k Ready)) = {#}" for k by (induction k) simp_all
  then show ?thesis by (simp add: pool_ok_def ThreadPool_def spawn_def current_def)
qed

lemma pool_ok_step: "pool_step s s' \<Longrightarrow> pool_ok s \<Longrightarrow> pool_ok s'"
proof (induction rule: pool_step.induct)
  case (step_look i s s')
  then show ?case
    by (auto simp: WorkerLoop_look_def set_worker_def pool_ok_def current_idle current_def [of "_\<lparr>threads := _\<rparr>"]
        split: if_splits list.splits)
next
  case (step_sleep i s s')
  then show ?case
    by (auto simp: WorkerLoop_sleep_def set_worker_def pool_ok_def current_idle current_def [of "_\<lparr>threads := _\<rparr>"] split: if_splits)
next
  case (step_spurious i s s')
  then show ?case
    by (auto simp: wake_def set_worker_def pool_ok_def current_idle current_def [of "_\<lparr>threads := _\<rparr>"] split: if_splits)
next
  case (step_finish i s s')
  then obtain t where i: "i < length (threads s)" "threads s ! i = Running t"
    and s': "s' = set_worker i Ready (s\<lparr>ended := ended s @ [t]\<rparr>)"
    by (auto simp: WorkerLoop_finish_def split: if_splits worker.splits)
  have "current s = current s' + {#t#}"
    using current_update [OF i(1), of Ready] i(2) by (simp add: s' set_worker_def current_def)
  then show ?case using step_finish.prems by (simp add: pool_ok_def s' set_worker_def)
next
  case (step_notify i s s')
  then show ?case
    by (auto simp: notify_one_def wake_def set_worker_def pool_ok_def current_idle current_unnotified
        current_def [of "_\<lparr>threads := _\<rparr>"] split: if_splits)
next
  case (step_resize s n)
  have "sum_list (map at_work (replicate k Ready)) = {#}" for k by (induction k) simp_all
  with step_resize.prems show ?case by (auto simp: Resize_def spawn_def pool_ok_def current_def Let_def)
qed (auto simp: pool_ok_def Commit_def Shutdown_flag_def notify_all_def Shutdown_swap_def Shutdown_join_def current_def
    current_map split: if_splits shutdown_pc.splits list.splits)

lemma pool_run_ok: "pool_run (ThreadPool n) s \<Longrightarrow> pool_ok s"
  by (induction rule: rtranclp_induct) (auto intro: pool_ok_ThreadPool pool_ok_step)

text \<open>C9 (every task at most once, in order). In every run of a pool, however its threads
  interleave, the tasks committed are, in the order of the commits, those begun, then those in the queue, then those
  dropped; and those begun are those that have ended and those the workers are at, each once.\<close>

theorem pool_tasks_once:
  assumes "pool_run (ThreadPool n) s"
  shows "committed s = begun s @ m_tasks s @ dropped s \<and> mset (begun s) = mset (ended s) + current s"
  using pool_run_ok [OF assms] by (simp add: pool_ok_def)

section \<open>After the shutdown\<close>

fun joining :: "shutdown_pc \<Rightarrow> nat list" where
  "joining (Joining is) = is"
| "joining _ = []"

definition pool_wf :: "'t pool \<Rightarrow> bool" where
  "pool_wf s \<longleftrightarrow> (\<forall>i \<in> set (m_workers s) \<union> set (joining (shutdown_at s)). i < length (threads s)) \<and>
     (\<forall>i. m_queue_mutex s = Some i \<longrightarrow> i < length (threads s) \<and> threads s ! i = Parking)"

lemma pool_wf_ThreadPool: "pool_wf (ThreadPool n)"
  by (simp add: pool_wf_def ThreadPool_def spawn_def)

lemma pool_wf_step: "pool_step s s' \<Longrightarrow> pool_wf s \<Longrightarrow> pool_wf s'"
proof (induction rule: pool_step.induct)
  case (step_resize s n)
  then show ?case by (auto simp: Resize_def spawn_def pool_wf_def Let_def nth_append ball_Un intro: trans_less_add1)
next
  case (step_notify_all s)
  then show ?case by (fastforce simp: notify_all_def pool_wf_def)
qed (auto simp: pool_defs pool_wf_def nth_list_update split: if_splits list.splits worker.splits shutdown_pc.splits)

lemma pool_run_wf: "pool_run (ThreadPool n) s \<Longrightarrow> pool_wf s"
  by (induction rule: rtranclp_induct) (auto intro: pool_wf_ThreadPool pool_wf_step)

fun worker_rank :: "'t worker \<Rightarrow> nat" where
  "worker_rank Parking = 3"
| "worker_rank Waiting = 2"
| "worker_rank (Running t) = 2"
| "worker_rank Ready = 1"
| "worker_rank Exited = 0"

fun shutdown_rank :: "shutdown_pc \<Rightarrow> nat" where
  "shutdown_rank (Joining is) = Suc (length is)"
| "shutdown_rank _ = 0"

definition pool_rank :: "'t pool \<Rightarrow> nat" where
  "pool_rank s = sum_list (map worker_rank (threads s)) + unnotified s + shutdown_rank (shutdown_at s)"

lemma rank_update:
  assumes "i < length ts" and "worker_rank x < worker_rank (ts ! i)"
  shows "sum_list (map worker_rank (ts[i := x])) < sum_list (map worker_rank ts)"
  using assms
proof (induction ts arbitrary: i)
  case (Cons y ys)
  then show ?case by (cases i) simp_all
qed simp

text \<open>Once the queue was swapped, no step takes a task and each step brings the pool nearer to its end.\<close>

lemma past_swap_step:
  assumes "pool_step s s'" and "pool_ok s" and "past_swap (shutdown_at s)"
  shows "past_swap (shutdown_at s') \<and> pool_rank s' < pool_rank s \<and> begun s' = begun s \<and> dropped s' = dropped s \<and>
    committed s' = committed s"
proof -
  have idle: "m_tasks s = []" "\<not> m_is_running s" using assms(2,3) by (auto simp: pool_ok_def)
  from assms(1) show ?thesis
  proof (cases rule: pool_step.cases)
    case (step_look i)
    then show ?thesis
      using idle assms(3) by (auto simp: WorkerLoop_look_def set_worker_def pool_rank_def intro!: rank_update split: if_splits)
  next
    case (step_sleep i)
    then show ?thesis
      using assms(3) by (auto simp: WorkerLoop_sleep_def set_worker_def pool_rank_def intro!: rank_update split: if_splits)
  next
    case (step_spurious i)
    then show ?thesis
      using assms(3) by (auto simp: wake_def set_worker_def pool_rank_def intro!: rank_update split: if_splits)
  next
    case (step_finish i)
    then show ?thesis
      using assms(3)
      by (auto simp: WorkerLoop_finish_def set_worker_def pool_rank_def intro!: rank_update split: if_splits worker.splits)
  next
    case (step_notify i)
    then show ?thesis
      using assms(3) rank_update [of i "threads s" Ready]
      by (force simp: notify_one_def wake_def set_worker_def pool_rank_def split: if_splits)
  next
    case step_join
    then show ?thesis
      by (auto simp: Shutdown_join_def pool_rank_def split: if_splits shutdown_pc.splits list.splits)
  qed (use idle assms(3) in \<open>auto simp: Commit_def Resize_def\<close>)
qed

lemma past_swap_run:
  assumes "pool_run s s'" and "pool_ok s" and "past_swap (shutdown_at s)"
  shows "pool_ok s' \<and> past_swap (shutdown_at s') \<and> begun s' = begun s \<and> dropped s' = dropped s \<and> committed s' = committed s"
  using assms by (induction rule: rtranclp_induct) (auto dest: past_swap_step pool_ok_step)

text \<open>C35 (\<open>Shutdown\<close> drops what is queued). The header documents \<open>Shutdown\<close> as executing all pending
  tasks before it exits. In every run, the critical section of \<open>Shutdown\<close> empties the queue instead,
  and none of the tasks that were in it is ever begun: later states have begun the same tasks as before, and the dropped tasks are
  exactly those that were queued.\<close>

theorem shutdown_drops_tasks:
  assumes "pool_run (ThreadPool n) s" and "shutdown_at s = Notified" and "m_queue_mutex s = None"
    and "pool_run (Shutdown_swap s) s'"
  shows "pool_step s (Shutdown_swap s) \<and> begun s' = begun s \<and> dropped s' = m_tasks s \<and> m_tasks s' = [] \<and>
    committed s' = begun s' @ m_tasks s"
proof -
  have step: "pool_step s (Shutdown_swap s)" using assms(2,3) by (rule step_swap)
  have ok: "pool_ok s" by (rule pool_run_ok [OF assms(1)])
  then have "dropped s = []" using assms(2) by (auto simp: pool_ok_def)
  moreover have "pool_ok (Shutdown_swap s)" by (rule pool_ok_step [OF step ok])
  ultimately show ?thesis
    using past_swap_run [OF assms(4)] step by (auto simp: pool_ok_def) (simp_all add: Shutdown_swap_def)
qed


section \<open>Runs of a pool of one\<close>

text \<open>A task is committed while the worker waits; \<open>Shutdown\<close> comes before the notification.\<close>

definition busy_pool :: "nat pool" where
  "busy_pool = notify_all (Shutdown_flag (projr (Commit 5 (the (WorkerLoop_sleep 0 (the (WorkerLoop_look 0 (ThreadPool 1))))))))"

lemma busy_pool_run: "pool_run (ThreadPool 1) busy_pool"
proof -
  let ?a = "the (WorkerLoop_look 0 (ThreadPool 1)) :: nat pool"
  let ?b = "the (WorkerLoop_sleep 0 ?a)" and ?c = "projr (Commit 5 (the (WorkerLoop_sleep 0 ?a)))"
  have "WorkerLoop_look 0 (ThreadPool 1) = Some ?a" "WorkerLoop_sleep 0 ?a = Some ?b" "Commit 5 ?b = Inr ?c"
    "m_queue_mutex ?b = None" "m_is_running ?c" "shutdown_at (Shutdown_flag ?c) = Flag_cleared"
    by (simp_all add: ThreadPool_def pool_defs)
  then have "pool_step (ThreadPool 1) ?a" "pool_step ?a ?b" "pool_step ?b ?c" "pool_step ?c (Shutdown_flag ?c)"
    "pool_step (Shutdown_flag ?c) busy_pool"
    unfolding busy_pool_def
    by (auto intro: step_look step_sleep step_commit step_flag step_notify_all)
  then show ?thesis by (meson converse_rtranclp_into_rtranclp rtranclp.rtrancl_refl)
qed

lemma busy_pool_facts:
  "m_tasks busy_pool = [5]" "begun busy_pool = []" "dropped busy_pool = []" "shutdown_at busy_pool = Notified"
  "m_queue_mutex busy_pool = None" "committed busy_pool = [5]"
  by (simp_all add: busy_pool_def ThreadPool_def pool_defs)

theorem pool_tasks_once_witness:
  "committed busy_pool = begun busy_pool @ [5] \<and> mset (begun busy_pool) = mset (ended busy_pool) + current busy_pool"
  using pool_tasks_once [OF busy_pool_run] by (simp add: busy_pool_facts)

theorem shutdown_drops_tasks_witness:
  "dropped (Shutdown_swap busy_pool) = [5] \<and> begun (Shutdown_swap busy_pool) = []"
  using shutdown_drops_tasks [OF busy_pool_run busy_pool_facts(4,5), of "Shutdown_swap busy_pool"] by (simp add: busy_pool_facts)


section \<open>A lost wake-up, and threads too many\<close>

text \<open>
  \<open>Shutdown\<close> clears the flag and notifies without the mutex, between the worker's test of the predicate and its
  falling asleep.
\<close>

definition missed_pool :: "nat pool" where
  "missed_pool = Shutdown_swap (the (WorkerLoop_sleep 0 (notify_all (Shutdown_flag (the (WorkerLoop_look 0 (ThreadPool 1)))))))"

lemma missed_pool_eq:
  "missed_pool = (ThreadPool 1)\<lparr>threads := [Waiting], m_workers := [], m_is_running := False, shutdown_at := Joining [0]\<rparr>"
  by (simp add: missed_pool_def ThreadPool_def pool_defs)

text \<open>C36 (\<open>Shutdown\<close> may wait for ever). A pool of one worker can get into a state in which \<open>Shutdown\<close> waits for the worker to
  exit while the worker sleeps on the condition variable and has missed the notification: no step is
  possible but a spurious wake-up, which no implementation owes.\<close>

theorem shutdown_misses_worker:
  "\<exists>s. pool_run (ThreadPool 1) s \<and> shutdown_at s = Joining [0] \<and> threads s = [Waiting :: nat worker] \<and>
     (\<forall>s'. pool_step s s' \<longrightarrow> wake 0 s = Some s')"
proof -
  let ?a = "the (WorkerLoop_look 0 (ThreadPool 1)) :: nat pool"
  let ?b = "notify_all (Shutdown_flag ?a)" and ?c = "the (WorkerLoop_sleep 0 (notify_all (Shutdown_flag ?a)))"
  have "WorkerLoop_look 0 (ThreadPool 1) = Some ?a" "m_is_running ?a" "shutdown_at (Shutdown_flag ?a) = Flag_cleared"
    "WorkerLoop_sleep 0 ?b = Some ?c" "shutdown_at ?c = Notified" "m_queue_mutex ?c = None"
    by (simp_all add: ThreadPool_def pool_defs)
  then have "pool_step (ThreadPool 1) ?a" "pool_step ?a (Shutdown_flag ?a)" "pool_step (Shutdown_flag ?a) ?b"
    "pool_step ?b ?c" "pool_step ?c missed_pool"
    unfolding missed_pool_def by (auto intro: step_look step_flag step_notify_all step_sleep step_swap)
  then have "pool_run (ThreadPool 1) missed_pool" by (meson converse_rtranclp_into_rtranclp rtranclp.rtrancl_refl)
  moreover have "wake 0 missed_pool = Some s'" if "pool_step missed_pool s'" for s'
    using that by (cases rule: pool_step.cases) (auto simp: missed_pool_eq ThreadPool_def pool_defs split: if_splits)
  ultimately show ?thesis by (intro exI [of _ missed_pool]) (simp add: missed_pool_eq)
qed

theorem shutdown_misses_worker_witness:
  "\<exists>s :: nat pool. pool_run (ThreadPool 1) s \<and> shutdown_at s = Joining [0] \<and> threads s = [Waiting]"
  using shutdown_misses_worker by blast

text \<open>Shrinking only lowers the target, so growing again adds threads on top of those that are still there.\<close>

lemma Resize_overshoots:
  "m_target_thread_num (Resize 8 (Resize 4 (ThreadPool 8))) = 8 \<and> GetThreadNum (Resize 8 (Resize 4 (ThreadPool 8))) = 12"
  by (simp add: Resize_def ThreadPool_def spawn_def GetThreadNum_def Let_def)

end
