(* ===== verification/Socket_Layer.thy ===== *)
theory Socket_Layer
  imports Net_Address
begin

text \<open>
  Sockets, \<open>src/socket.cpp\<close>, and the static functions of \<open>src/socket_utils.cpp\<close> they call, on Linux:
  the option setters, creation and closing of descriptors, and the class \<open>Socket\<close>, which owns a
  descriptor, moves it to another object and closes it at the end of its life.

  The kernel keeps a table of open descriptors. Whether a call that may fail does so is
  the kernel's choice: \<open>answers\<close> holds what the next such calls return, an \<open>errno\<close> or a value, and
  \<open>EIO\<close> once exhausted; a call on a descriptor that is not open fails with \<open>EBADF\<close>. \<open>objs\<close> are the
  \<open>Socket\<close> objects that are alive, with their \<open>m_sockfd\<close>; \<open>closed\<close> lists the descriptors closed, and
  \<open>stray_closes\<close> counts the calls of \<open>close\<close> on descriptors that were not open.
\<close>

unbundle bit_operations_syntax

section \<open>The kernel\<close>

record fd_entry =
  fd_flags :: int32
  reuse_addr :: bool
  reuse_port :: bool
  bound_to :: "Address option"
  backlog_of :: "int option"
  so_error :: errno

record os =
  fds :: "SocketType \<rightharpoonup> fd_entry"
  answers :: "(errno + int) list"
  last_error :: errno
  closed :: "SocketType list"
  stray_closes :: nat
  objs :: "nat \<rightharpoonup> SocketType"

definition INVALID :: SocketType where "INVALID = - 1"
definition EBADF :: errno where "EBADF = 9"
definition EIO :: errno where "EIO = 5"
definition EPERM :: errno where "EPERM = 1"
definition EINPROGRESS :: errno where "EINPROGRESS = 115"
definition EWOULDBLOCK :: errno where "EWOULDBLOCK = 11"
definition EADDRINUSE :: errno where "EADDRINUSE = 98"
definition O_NONBLOCK :: int32 where "O_NONBLOCK = 0x800"

definition fail :: "errno \<Rightarrow> os \<Rightarrow> (errno + 'a) \<times> os" where
  "fail e w = (Inl e, w\<lparr>last_error := e\<rparr>)"

text \<open>The kernel's choice for the next call.\<close>

definition answer :: "os \<Rightarrow> (errno + int) \<times> os" where
  "answer w =
     (case answers w of
        [] \<Rightarrow> fail EIO w
      | Inl e # rest \<Rightarrow> fail e (w\<lparr>answers := rest\<rparr>)
      | Inr v # rest \<Rightarrow> (Inr v, w\<lparr>answers := rest\<rparr>))"

text \<open>A call on a descriptor that sets something in its entry.\<close>

definition sys_set :: "SocketType \<Rightarrow> (fd_entry \<Rightarrow> fd_entry) \<Rightarrow> os \<Rightarrow> (errno + int) \<times> os" where
  "sys_set fd f w =
     (case fds w fd of
        None \<Rightarrow> fail EBADF w
      | Some x \<Rightarrow>
          (case answer w of
             (Inl e, w) \<Rightarrow> (Inl e, w)
           | (Inr v, w) \<Rightarrow> (Inr v, w\<lparr>fds := (fds w)(fd \<mapsto> f x)\<rparr>)))"

text \<open>\<open>socket\<close> and \<open>accept\<close> give a new descriptor; the kernel's answer is its number.\<close>

definition sys_new_fd :: "os \<Rightarrow> (errno + SocketType) \<times> os" where
  "sys_new_fd w =
     (case answer w of
        (Inl e, w) \<Rightarrow> (Inl e, w)
      | (Inr v, w) \<Rightarrow>
          (Inr v, w\<lparr>fds := (fds w)(v \<mapsto> \<lparr>fd_flags = 0, reuse_addr = False, reuse_port = False, bound_to = None,
             backlog_of = None, so_error = 0\<rparr>)\<rparr>))"

definition sys_close :: "SocketType \<Rightarrow> os \<Rightarrow> os" where
  "sys_close fd w =
     (if fds w fd = None then w\<lparr>stray_closes := Suc (stray_closes w)\<rparr>
      else w\<lparr>fds := (fds w)(fd := None), closed := closed w @ [fd]\<rparr>)"

section \<open>\<open>SocketUtils\<close>\<close>

definition InitWinsock :: "bool" where
  "InitWinsock = True"

definition SetReuseAddr_fd :: "SocketType \<Rightarrow> bool \<Rightarrow> os \<Rightarrow> bool \<times> os" where
  "SetReuseAddr_fd fd enable w =
     (case sys_set fd (\<lambda>x. x\<lparr>reuse_addr := enable\<rparr>) w of (Inl e, w) \<Rightarrow> (False, w) | (Inr _, w) \<Rightarrow> (True, w))"

definition SetReusePort_fd :: "SocketType \<Rightarrow> bool \<Rightarrow> os \<Rightarrow> bool \<times> os" where
  "SetReusePort_fd fd enable w =
     (case sys_set fd (\<lambda>x. x\<lparr>reuse_port := enable\<rparr>) w of (Inl e, w) \<Rightarrow> (False, w) | (Inr _, w) \<Rightarrow> (True, w))"

definition SetNonBlocking_fd :: "SocketType \<Rightarrow> bool \<Rightarrow> os \<Rightarrow> bool \<times> os" where
  "SetNonBlocking_fd fd enable w =
     (case fds w fd of
        None \<Rightarrow> (False, snd (fail EBADF w :: (errno + int) \<times> os))
      | Some x \<Rightarrow>
          (case answer w of
             (Inl e, w) \<Rightarrow> (False, w)
           | (Inr _, w) \<Rightarrow>
               let flags = (if enable then fd_flags x OR O_NONBLOCK else fd_flags x AND NOT O_NONBLOCK) in
               (case sys_set fd (\<lambda>x. x\<lparr>fd_flags := flags\<rparr>) w of (Inl e, w) \<Rightarrow> (False, w) | (Inr _, w) \<Rightarrow> (True, w))))"

definition CreateTcpSocket :: "os \<Rightarrow> SocketType \<times> os" where
  "CreateTcpSocket w = (case sys_new_fd w of (Inl e, w) \<Rightarrow> (INVALID, w) | (Inr fd, w) \<Rightarrow> (fd, w))"

definition GetLastError :: "os \<Rightarrow> errno" where
  "GetLastError w = last_error w"

definition CloseSocket :: "SocketType \<Rightarrow> os \<Rightarrow> os" where
  "CloseSocket fd w = sys_close fd w"

text \<open>The address the probe binds: the port on all interfaces.\<close>

definition any_address :: "endian \<Rightarrow> uint16 \<Rightarrow> Address" where
  "any_address e port = \<lparr>sin_family = AF_INET, sin_port = HostToNetShort e port, sin_addr = INADDR_ANY, m_len = sockaddr_size\<rparr>"

definition IsPortAvailable :: "endian \<Rightarrow> uint16 \<Rightarrow> os \<Rightarrow> bool \<times> os" where
  "IsPortAvailable e port w =
     (let (sockfd, w) = CreateTcpSocket w in
      if sockfd = INVALID then (False, w)
      else
        let (ret, w) = sys_set sockfd (\<lambda>x. x\<lparr>bound_to := Some (any_address e port)\<rparr>) w;
            w = CloseSocket sockfd w
        in (case ret of Inl e \<Rightarrow> (False, w) | Inr _ \<Rightarrow> (True, w)))"

definition WouldBlock :: "errno \<Rightarrow> bool" where
  "WouldBlock err \<longleftrightarrow> err = 11 \<or> err = EWOULDBLOCK"

definition CreateNonBlockingSocket :: "os \<Rightarrow> SocketType \<times> os" where
  "CreateNonBlockingSocket w =
     (let (fd, w) = CreateTcpSocket w in
      if fd = INVALID then (INVALID, w)
      else
        let (ok, w) = SetNonBlocking_fd fd True w in
        if \<not> ok then (INVALID, CloseSocket fd w) else (fd, w))"

text \<open>Reading \<open>SO_ERROR\<close> clears it; when the call fails the local variable is still 0.\<close>

definition GetSocketError :: "SocketType \<Rightarrow> os \<Rightarrow> errno \<times> os" where
  "GetSocketError fd w =
     (case fds w fd of
        None \<Rightarrow> (0, snd (fail EBADF w :: (errno + int) \<times> os))
      | Some x \<Rightarrow> (so_error x, w\<lparr>fds := (fds w)(fd \<mapsto> x\<lparr>so_error := 0\<rparr>)\<rparr>))"

definition kConnectInProgress :: int where
  "kConnectInProgress = - 1"

section \<open>\<open>Socket\<close>\<close>

definition m_sockfd :: "nat \<Rightarrow> os \<Rightarrow> SocketType" where
  "m_sockfd ob w = (case objs w ob of None \<Rightarrow> INVALID | Some fd \<Rightarrow> fd)"

definition set_sockfd :: "nat \<Rightarrow> SocketType \<Rightarrow> os \<Rightarrow> os" where
  "set_sockfd ob fd w = w\<lparr>objs := (objs w)(ob \<mapsto> fd)\<rparr>"

text \<open>The constructor that takes a descriptor over.\<close>

definition Socket_from :: "nat \<Rightarrow> SocketType \<Rightarrow> os \<Rightarrow> os" where
  "Socket_from ob sockfd w = set_sockfd ob sockfd w"

definition IsValid :: "nat \<Rightarrow> os \<Rightarrow> bool" where
  "IsValid ob w \<longleftrightarrow> m_sockfd ob w \<noteq> INVALID"

definition SetReuseAddr :: "nat \<Rightarrow> bool \<Rightarrow> os \<Rightarrow> os" where
  "SetReuseAddr ob enable w = snd (SetReuseAddr_fd (m_sockfd ob w) enable w)"

definition SetReusePort :: "nat \<Rightarrow> bool \<Rightarrow> os \<Rightarrow> os" where
  "SetReusePort ob enable w = snd (SetReusePort_fd (m_sockfd ob w) enable w)"

definition SetNonBlocking :: "nat \<Rightarrow> bool \<Rightarrow> os \<Rightarrow> os" where
  "SetNonBlocking ob enable w = snd (SetNonBlocking_fd (m_sockfd ob w) enable w)"

definition Socket_default :: "nat \<Rightarrow> os \<Rightarrow> os" where
  "Socket_default ob w =
     (let (fd, w) = CreateTcpSocket w; w = set_sockfd ob fd w in
      if fd = INVALID then w else SetReusePort ob True (SetReuseAddr ob True w))"

definition Close :: "nat \<Rightarrow> os \<Rightarrow> os" where
  "Close ob w = (if IsValid ob w then set_sockfd ob INVALID (CloseSocket (m_sockfd ob w) w) else w)"

text \<open>The move constructor and the move assignment.\<close>

definition Socket_move :: "nat \<Rightarrow> nat \<Rightarrow> os \<Rightarrow> os" where
  "Socket_move ob other w = set_sockfd other INVALID (set_sockfd ob (m_sockfd other w) w)"

definition Socket_move_assign :: "nat \<Rightarrow> nat \<Rightarrow> os \<Rightarrow> os" where
  "Socket_move_assign ob other w =
     (if ob \<noteq> other then
        let w = (if IsValid ob w then Close ob w else w);
            fd = m_sockfd ob w
        in set_sockfd other fd (set_sockfd ob (m_sockfd other w) w)
      else w)"

definition destroy_Socket :: "nat \<Rightarrow> os \<Rightarrow> os" where
  "destroy_Socket ob w = (let w = Close ob w in w\<lparr>objs := (objs w)(ob := None)\<rparr>)"

definition Bind :: "nat \<Rightarrow> Address \<Rightarrow> os \<Rightarrow> bool \<times> os" where
  "Bind ob addr w =
     (if \<not> IsValid ob w then (False, w)
      else
        case sys_set (m_sockfd ob w) (\<lambda>x. x\<lparr>bound_to := Some addr\<rparr>) w of
          (Inl e, w) \<Rightarrow> (False, w) | (Inr _, w) \<Rightarrow> (True, w))"

definition Socket_Listen :: "nat \<Rightarrow> int \<Rightarrow> os \<Rightarrow> bool \<times> os" where
  "Socket_Listen ob backlog w =
     (if \<not> IsValid ob w then (False, w)
      else
        case sys_set (m_sockfd ob w) (\<lambda>x. x\<lparr>backlog_of := Some backlog\<rparr>) w of
          (Inl e, w) \<Rightarrow> (False, w) | (Inr _, w) \<Rightarrow> (True, w))"

text \<open>\<open>Accept\<close> makes the new object \<open>new\<close>, or none.\<close>

definition Socket_Accept :: "nat \<Rightarrow> nat \<Rightarrow> os \<Rightarrow> bool \<times> os" where
  "Socket_Accept ob new w =
     (if \<not> IsValid ob w then (False, w)
      else if fds w (m_sockfd ob w) = None then (False, snd (fail EBADF w :: (errno + int) \<times> os))
      else
        case sys_new_fd w of
          (Inl e, w) \<Rightarrow> (False, w)
        | (Inr client_fd, w) \<Rightarrow>
            if client_fd = INVALID then (False, w)
            else (True, SetNonBlocking new True (Socket_from new client_fd w)))"

text \<open>What \<open>Socket::Connect\<close> makes of the outcome of \<open>connect\<close>.\<close>

definition connect_result :: "errno + 'a \<Rightarrow> int" where
  "connect_result r =
     (case r of
        Inl err_code \<Rightarrow>
          if err_code = EINPROGRESS \<or> WouldBlock err_code then kConnectInProgress else - err_code
      | Inr _ \<Rightarrow> 0)"

definition Socket_Connect :: "nat \<Rightarrow> os \<Rightarrow> int \<times> os" where
  "Socket_Connect ob w =
     (if \<not> IsValid ob w then (- 1, w)
      else let (r, w) = sys_set (m_sockfd ob w) id w in (connect_result r, w))"

definition CreateNonBlocking :: "nat \<Rightarrow> os \<Rightarrow> os" where
  "CreateNonBlocking ob w =
     (let (fd, w) = CreateTcpSocket w in
      if fd = INVALID then Socket_from ob INVALID w
      else Socket_from ob fd (snd (SetReuseAddr_fd fd True (snd (SetNonBlocking_fd fd True w)))))"

text \<open>\<open>getsockname\<close>: the address the descriptor is bound to; the default one when the call fails.\<close>

definition GetLocalAddress :: "nat \<Rightarrow> os \<Rightarrow> Address \<times> os" where
  "GetLocalAddress ob w =
     (case sys_set (m_sockfd ob w) id w of
        (Inl e, w) \<Rightarrow> (Address_default, w)
      | (Inr _, w) \<Rightarrow>
          (case fds w (m_sockfd ob w) of
             Some x \<Rightarrow> (case bound_to x of Some a \<Rightarrow> a | None \<Rightarrow> Address_default)
           | None \<Rightarrow> Address_default, w))"

text \<open>
  \<open>Socket::Connect\<close> returns minus the error, and \<open>kConnectInProgress\<close> is \<open>-1\<close>: an invalid socket and a
  connection refused with \<open>EPERM\<close> look as if the connection was on its way.
\<close>

lemma Connect_collisions:
  "\<not> IsValid ob w \<Longrightarrow> fst (Socket_Connect ob w) = kConnectInProgress"
  "IsValid ob w \<Longrightarrow> sys_set (m_sockfd ob w) id w = (Inl EPERM, w') \<Longrightarrow> fst (Socket_Connect ob w) = kConnectInProgress"
  by (simp_all add: Socket_Connect_def connect_result_def kConnectInProgress_def EPERM_def EINPROGRESS_def WouldBlock_def
      EWOULDBLOCK_def)

section \<open>Ownership\<close>

text \<open>
  Any use of the class: objects are made, moved, used and destroyed; a dead object is not used, and a
  new object is made where none is alive. What the kernel must keep is that a new descriptor is a number of its own.
\<close>

definition fresh_answer :: "os \<Rightarrow> bool" where
  "fresh_answer w \<longleftrightarrow> (case answers w of Inr v # _ \<Rightarrow> 0 \<le> v \<and> fds w v = None | _ \<Rightarrow> True)"

definition alive :: "nat \<Rightarrow> os \<Rightarrow> bool" where
  "alive ob w \<longleftrightarrow> objs w ob \<noteq> None"

inductive socket_step :: "os \<Rightarrow> os \<Rightarrow> bool" where
  make_default: "\<not> alive ob w \<Longrightarrow> fresh_answer w \<Longrightarrow> socket_step w (Socket_default ob w)"
| make_nonblocking: "\<not> alive ob w \<Longrightarrow> fresh_answer w \<Longrightarrow> socket_step w (CreateNonBlocking ob w)"
| make_from: "\<not> alive ob w \<Longrightarrow> fresh_answer w \<Longrightarrow> CreateNonBlockingSocket w = (fd, w') \<Longrightarrow>
    socket_step w (Socket_from ob fd w')"
| accept: "alive ob w \<Longrightarrow> \<not> alive new w \<Longrightarrow> fresh_answer w \<Longrightarrow> socket_step w (snd (Socket_Accept ob new w))"
| move: "\<not> alive ob w \<Longrightarrow> alive other w \<Longrightarrow> socket_step w (Socket_move ob other w)"
| move_assign: "alive ob w \<Longrightarrow> alive other w \<Longrightarrow> socket_step w (Socket_move_assign ob other w)"
| close: "alive ob w \<Longrightarrow> socket_step w (Close ob w)"
| destroy: "alive ob w \<Longrightarrow> socket_step w (destroy_Socket ob w)"
| bind: "alive ob w \<Longrightarrow> socket_step w (snd (Bind ob addr w))"
| listen: "alive ob w \<Longrightarrow> socket_step w (snd (Socket_Listen ob n w))"
| connect: "alive ob w \<Longrightarrow> socket_step w (snd (Socket_Connect ob w))"
| set_reuse_addr: "alive ob w \<Longrightarrow> socket_step w (SetReuseAddr ob b w)"
| set_reuse_port: "alive ob w \<Longrightarrow> socket_step w (SetReusePort ob b w)"
| set_nonblocking: "alive ob w \<Longrightarrow> socket_step w (SetNonBlocking ob b w)"
| local_address: "alive ob w \<Longrightarrow> socket_step w (snd (GetLocalAddress ob w))"
| probe_port: "fresh_answer w \<Longrightarrow> socket_step w (snd (IsPortAvailable e port w))"

definition os_start :: "(errno + int) list \<Rightarrow> os" where
  "os_start as = \<lparr>fds = Map.empty, answers = as, last_error = 0, closed = [], stray_closes = 0, objs = Map.empty\<rparr>"

definition is_open :: "SocketType \<Rightarrow> os \<Rightarrow> bool" where
  "is_open fd w \<longleftrightarrow> fds w fd \<noteq> None"

text \<open>Each object with a valid descriptor owns it alone, and there are no other open descriptors.\<close>

definition owned :: "os \<Rightarrow> bool" where
  "owned w \<longleftrightarrow> (\<forall>fd. is_open fd w \<longleftrightarrow> fd \<noteq> INVALID \<and> fd \<in> ran (objs w)) \<and> stray_closes w = 0 \<and>
     (\<forall>ob ob' fd. objs w ob = Some fd \<longrightarrow> objs w ob' = Some fd \<longrightarrow> fd \<noteq> INVALID \<longrightarrow> ob = ob')"

text \<open>Calls that neither open nor close a descriptor.\<close>

definition same_table :: "os \<Rightarrow> os \<Rightarrow> bool" where
  "same_table w w' \<longleftrightarrow> (\<forall>fd. is_open fd w' = is_open fd w) \<and> objs w' = objs w \<and> stray_closes w' = stray_closes w"

lemma same_table_refl [simp]: "same_table w w"
  by (simp add: same_table_def)

lemma same_table_trans: "same_table u v \<Longrightarrow> same_table v w \<Longrightarrow> same_table u w"
  by (simp add: same_table_def)

lemma same_table_owned: "same_table w w' \<Longrightarrow> owned w \<Longrightarrow> owned w'"
  by (simp add: same_table_def owned_def)

lemma same_table_answer: "answer w = (r, w') \<Longrightarrow> fds w' = fds w \<and> objs w' = objs w \<and> stray_closes w' = stray_closes w"
  by (auto simp: answer_def fail_def split: list.splits sum.splits)

lemma same_table_sys_set: "same_table w (snd (sys_set fd f w))"
  by (auto simp: sys_set_def same_table_def is_open_def fail_def dest: same_table_answer split: option.splits prod.splits sum.splits)

lemma same_table_options:
  "same_table w (snd (SetReuseAddr_fd fd b w))" "same_table w (snd (SetReusePort_fd fd b w))"
  "same_table w (snd (SetNonBlocking_fd fd b w))"
proof -
  show "same_table w (snd (SetReuseAddr_fd fd b w))"
    using same_table_sys_set [of w fd "\<lambda>x. x\<lparr>reuse_addr := b\<rparr>"]
    by (auto simp: SetReuseAddr_fd_def split: prod.splits sum.splits)
  show "same_table w (snd (SetReusePort_fd fd b w))"
    using same_table_sys_set [of w fd "\<lambda>x. x\<lparr>reuse_port := b\<rparr>"]
    by (auto simp: SetReusePort_fd_def split: prod.splits sum.splits)
  show "same_table w (snd (SetNonBlocking_fd fd b w))"
  proof (cases "fds w fd")
    case None
    then show ?thesis by (simp add: SetNonBlocking_fd_def fail_def same_table_def is_open_def)
  next
    case (Some x)
    obtain r w1 where ans: "answer w = (r, w1)" by fastforce
    have w1: "same_table w w1" using same_table_answer [OF ans] by (simp add: same_table_def is_open_def)
    define flags where "flags = (if b then fd_flags x OR O_NONBLOCK else fd_flags x AND NOT O_NONBLOCK)"
    have w2: "same_table w (snd (sys_set fd (\<lambda>x. x\<lparr>fd_flags := flags\<rparr>) w1))"
      by (rule same_table_trans [OF w1 same_table_sys_set])
    obtain r' w' where "sys_set fd (\<lambda>x. x\<lparr>fd_flags := flags\<rparr>) w1 = (r', w')" by fastforce
    then show ?thesis
      using Some ans w1 w2 by (cases r; cases r') (simp_all add: SetNonBlocking_fd_def Let_def flags_def)
  qed
qed

text \<open>A new descriptor, given to an object that is not alive; a descriptor closed by its owner.\<close>

definition opened :: "SocketType \<Rightarrow> os \<Rightarrow> os \<Rightarrow> bool" where
  "opened fd w w' \<longleftrightarrow> fd \<noteq> INVALID \<and> \<not> is_open fd w \<and> (\<forall>x. is_open x w' \<longleftrightarrow> x = fd \<or> is_open x w) \<and> objs w' = objs w \<and>
     stray_closes w' = stray_closes w"

lemma CreateTcpSocket_cases:
  assumes "fresh_answer w" and "CreateTcpSocket w = (fd, w')"
  shows "(fd = INVALID \<and> same_table w w') \<or> opened fd w w'"
proof -
  obtain r w1 where ans: "answer w = (r, w1)" by fastforce
  note same = same_table_answer [OF ans]
  show ?thesis
  proof (cases r)
    case (Inl e)
    with assms(2) ans same show ?thesis by (auto simp: CreateTcpSocket_def sys_new_fd_def same_table_def is_open_def)
  next
    case (Inr v)
    then have "0 \<le> v \<and> fds w v = None"
      using ans assms(1) by (auto simp: answer_def fail_def fresh_answer_def split: list.splits sum.splits)
    with Inr assms(2) ans same show ?thesis
      by (auto simp: CreateTcpSocket_def sys_new_fd_def INVALID_def opened_def is_open_def)
  qed
qed

lemma opened_same: "opened fd w w1 \<Longrightarrow> same_table w1 w' \<Longrightarrow> opened fd w w'"
  by (simp add: opened_def same_table_def)

lemma is_open_set_sockfd [simp]: "is_open fd (set_sockfd ob x w) = is_open fd w"
  by (simp add: is_open_def set_sockfd_def)

lemma objs_set_sockfd: "objs (set_sockfd ob x w) = (objs w)(ob \<mapsto> x)" "stray_closes (set_sockfd ob x w) = stray_closes w"
  by (simp_all add: set_sockfd_def)

lemma ran_update_iff: "x \<in> ran (m(ob \<mapsto> v)) \<longleftrightarrow> x = v \<or> (\<exists>a. a \<noteq> ob \<and> m a = Some x)"
  by (auto simp: ran_def)

lemma owned_new:
  assumes "owned w" and "\<not> alive ob w" and "same_table w w' \<and> fd = INVALID \<or> opened fd w w'"
  shows "owned (set_sockfd ob fd w')"
proof -
  have none: "objs w ob = None" using assms(2) by (simp add: alive_def)
  have "fd \<notin> ran (objs w)" if "opened fd w w'"
    using that assms(1) by (auto simp: opened_def owned_def)
  then have "objs w o' \<noteq> Some fd" if "opened fd w w'" for o'
    using that by (auto intro: ranI)
  with none assms(1,3) show ?thesis
    by (auto simp: owned_def same_table_def opened_def ran_map_upd objs_set_sockfd)
qed

lemma owned_Close:
  assumes own: "owned w"
  shows "owned (Close ob w)" and "m_sockfd ob (Close ob w) = INVALID" and "o' \<noteq> ob \<Longrightarrow> objs (Close ob w) o' = objs w o'"
    and "alive o' (Close ob w) = alive o' w"
proof -
  have "owned (Close ob w) \<and> m_sockfd ob (Close ob w) = INVALID \<and> (\<forall>o'. o' \<noteq> ob \<longrightarrow> objs (Close ob w) o' = objs w o') \<and>
      (\<forall>o'. alive o' (Close ob w) = alive o' w)"
  proof (cases "IsValid ob w")
    case True
    then obtain fd where fd: "objs w ob = Some fd" "fd \<noteq> INVALID"
      by (auto simp: IsValid_def m_sockfd_def split: option.splits)
    have "fds w fd \<noteq> None" using own fd by (auto simp: owned_def is_open_def intro: ranI)
    then have eq: "Close ob w = set_sockfd ob INVALID (w\<lparr>fds := (fds w)(fd := None), closed := closed w @ [fd]\<rparr>)"
      using True fd by (auto simp: Close_def CloseSocket_def sys_close_def m_sockfd_def)
    have "x \<in> ran ((objs w)(ob \<mapsto> INVALID)) \<longleftrightarrow> x \<in> ran (objs w) \<and> x \<noteq> fd" if "x \<noteq> INVALID" for x
    proof -
      have "(\<exists>a. a \<noteq> ob \<and> objs w a = Some x) \<longleftrightarrow> (\<exists>a. objs w a = Some x) \<and> x \<noteq> fd"
        using own fd unfolding owned_def by (metis option.inject)
      with that show ?thesis unfolding ran_update_iff by (auto simp: ran_def)
    qed
    then show ?thesis
      using own fd by (auto simp: eq owned_def set_sockfd_def m_sockfd_def is_open_def alive_def)
  qed (use own in \<open>auto simp: Close_def IsValid_def\<close>)
  then show "owned (Close ob w)" and "m_sockfd ob (Close ob w) = INVALID" and "o' \<noteq> ob \<Longrightarrow> objs (Close ob w) o' = objs w o'"
    and "alive o' (Close ob w) = alive o' w" by blast+
qed

lemma owned_transfer:
  assumes own: "owned w" and inv: "m_sockfd ob w = INVALID" and ne: "ob \<noteq> other"
  shows "owned (set_sockfd other INVALID (set_sockfd ob (m_sockfd other w) w))"
proof -
  let ?w = "set_sockfd other INVALID (set_sockfd ob (m_sockfd other w) w)"
  have objs: "objs ?w a = (if a = other then Some INVALID else if a = ob then Some (m_sockfd other w) else objs w a)" for a
    by (simp add: set_sockfd_def)
  have ob: "objs w ob \<noteq> Some x" if "x \<noteq> INVALID" for x using inv that by (auto simp: m_sockfd_def)
  have other: "objs w other = Some x \<longleftrightarrow> m_sockfd other w = x" if "x \<noteq> INVALID" for x
    using that by (auto simp: m_sockfd_def split: option.splits)
  have "x \<in> ran (objs ?w) \<longleftrightarrow> x \<in> ran (objs w)" if "x \<noteq> INVALID" for x
    unfolding ran_def mem_Collect_eq objs using ob [OF that] other [OF that] that ne by (metis option.inject)
  moreover have "stray_closes ?w = stray_closes w" by (simp add: set_sockfd_def)
  moreover have "a = b" if "objs ?w a = Some x" "objs ?w b = Some x" "x \<noteq> INVALID" for a b x
    using that own ob [OF that(3)] other [OF that(3)] unfolding owned_def objs by (auto split: if_splits)
  ultimately show ?thesis using own by (auto simp: owned_def)
qed

lemma owned_destroy:
  assumes own: "owned w"
  shows "owned (destroy_Socket ob w)"
proof -
  let ?w = "Close ob w"
  have inv: "objs ?w ob = None \<or> objs ?w ob = Some INVALID"
    using owned_Close(2) [OF own, of ob] by (auto simp: m_sockfd_def split: option.splits)
  have "x \<in> ran ((objs ?w)(ob := None)) \<longleftrightarrow> x \<in> ran (objs ?w)" if "x \<noteq> INVALID" for x
  proof -
    have "(\<exists>a. a \<noteq> ob \<and> objs ?w a = Some x) \<longleftrightarrow> (\<exists>a. objs ?w a = Some x)"
      using inv that by (metis option.distinct(1) option.inject)
    then show ?thesis by (auto simp: ran_def)
  qed
  then show ?thesis
    using owned_Close(1) [OF own, of ob] by (auto simp: destroy_Socket_def Let_def owned_def is_open_def split: if_splits)
qed

lemma opened_closed: "opened fd w w1 \<Longrightarrow> same_table w (CloseSocket fd w1)"
  by (auto simp: opened_def same_table_def CloseSocket_def sys_close_def is_open_def)

lemma CreateNonBlockingSocket_cases:
  assumes "fresh_answer w" and "CreateNonBlockingSocket w = (fd, w')"
  shows "(fd = INVALID \<and> same_table w w') \<or> opened fd w w'"
proof -
  obtain fd1 w1 where c: "CreateTcpSocket w = (fd1, w1)" by fastforce
  obtain ok w2 where o: "SetNonBlocking_fd fd1 True w1 = (ok, w2)" by fastforce
  have "same_table w1 w2" using same_table_options(3) [of w1 fd1 True] o by simp
  with CreateTcpSocket_cases [OF assms(1) c] have "opened fd1 w w2" if "fd1 \<noteq> INVALID"
    using that opened_same by blast
  then show ?thesis
    using assms(2) c o CreateTcpSocket_cases [OF assms(1) c] opened_closed [of fd1 w w2]
    by (auto simp: CreateNonBlockingSocket_def opened_def split: if_splits)
qed

lemma same_table_wrappers:
  "same_table w (SetReuseAddr ob b w)" "same_table w (SetReusePort ob b w)" "same_table w (SetNonBlocking ob b w)"
  "same_table w (snd (Bind ob addr w))" "same_table w (snd (Socket_Listen ob n w))"
  "same_table w (snd (Socket_Connect ob w))" "same_table w (snd (GetLocalAddress ob w))"
proof -
  have s: "same_table w w'" if "sys_set fd f w = (r, w')" for fd f r w'
    using same_table_sys_set [of w fd f] that by simp
  show "same_table w (snd (Bind ob addr w))" "same_table w (snd (Socket_Listen ob n w))"
    "same_table w (snd (Socket_Connect ob w))" "same_table w (snd (GetLocalAddress ob w))"
    by (auto simp: Bind_def Socket_Listen_def Socket_Connect_def GetLocalAddress_def dest: s split: prod.split sum.split)
qed (simp_all add: SetReuseAddr_def SetReusePort_def SetNonBlocking_def same_table_options)

lemma owned_step: "socket_step w w' \<Longrightarrow> owned w \<Longrightarrow> owned w'"
proof (induction rule: socket_step.induct)
  case (make_default ob w)
  obtain fd w1 where c: "CreateTcpSocket w = (fd, w1)" by fastforce
  have "owned (set_sockfd ob fd w1)"
    using owned_new [OF make_default(3,1)] CreateTcpSocket_cases [OF make_default(2) c] by blast
  then show ?case
    using c same_table_owned [OF same_table_trans [OF same_table_wrappers(1,2)]]
    by (auto simp: Socket_default_def Let_def)
next
  case (make_nonblocking ob w)
  obtain fd w1 where c: "CreateTcpSocket w = (fd, w1)" by fastforce
  let ?w = "snd (SetReuseAddr_fd fd True (snd (SetNonBlocking_fd fd True w1)))"
  have same: "same_table w1 ?w" using same_table_trans [OF same_table_options(3,1)] .
  show ?case
  proof (cases "fd = INVALID")
    case True
    then have "same_table w w1" using CreateTcpSocket_cases [OF make_nonblocking(2) c] by (simp add: opened_def)
    then have "owned (set_sockfd ob INVALID w1)" by (intro owned_new [OF make_nonblocking(3,1)]) simp
    with True c show ?thesis by (simp add: CreateNonBlocking_def Socket_from_def)
  next
    case False
    then have "opened fd w w1" using CreateTcpSocket_cases [OF make_nonblocking(2) c] by simp
    then have "opened fd w ?w" using same by (rule opened_same)
    then have "owned (set_sockfd ob fd ?w)" by (intro owned_new [OF make_nonblocking(3,1)]) simp
    with False c show ?thesis by (simp add: CreateNonBlocking_def Socket_from_def)
  qed
next
  case (make_from ob w fd w')
  then show ?case
    using owned_new [OF make_from(4,1)] CreateNonBlockingSocket_cases [OF make_from(2,3)] by (auto simp: Socket_from_def)
next
  case (accept ob w new)
  obtain r w1 where n: "sys_new_fd w = (r, w1)" by fastforce
  then have c: "CreateTcpSocket w = (case r of Inl e \<Rightarrow> INVALID | Inr fd \<Rightarrow> fd, w1)"
    by (cases r) (simp_all add: CreateTcpSocket_def)
  note cases = CreateTcpSocket_cases [OF accept(3) c]
  have new: "owned (SetNonBlocking new True (Socket_from new fd w1))" if "opened fd w w1" for fd
    using same_table_owned [OF same_table_wrappers(3)] owned_new [OF accept(4,2)] that by (auto simp: Socket_from_def)
  have "owned w1" if "same_table w w1" using same_table_owned [OF that accept(4)] .
  moreover have "owned (w\<lparr>last_error := e\<rparr>)" for e using accept(4) by (simp add: owned_def is_open_def)
  ultimately show ?case
    using n cases new accept(4) by (cases r) (auto simp: Socket_Accept_def fail_def opened_def)
next
  case (move ob w other)
  then have "m_sockfd ob w = INVALID" "ob \<noteq> other" by (auto simp: alive_def m_sockfd_def)
  with move(3) show ?case unfolding Socket_move_def by (rule owned_transfer)
next
  case (move_assign ob w other)
  have "(if IsValid ob w then Close ob w else w) = Close ob w" by (simp add: Close_def)
  moreover have "m_sockfd ob (Close ob w) = INVALID" "owned (Close ob w)" using owned_Close [OF move_assign(3)] by blast+
  ultimately show ?case
    using owned_transfer [of "Close ob w" ob other] move_assign(3) by (simp add: Socket_move_assign_def Let_def)
next
  case (probe_port w e port)
  obtain fd w1 where c: "CreateTcpSocket w = (fd, w1)" by fastforce
  obtain r w2 where s: "sys_set fd (\<lambda>x. x\<lparr>bound_to := Some (any_address e port)\<rparr>) w1 = (r, w2)" by fastforce
  have same: "same_table w1 w2" using same_table_sys_set [of w1 fd "\<lambda>x. x\<lparr>bound_to := Some (any_address e port)\<rparr>"] s by simp
  have res: "snd (IsPortAvailable e port w) = (if fd = INVALID then w1 else CloseSocket fd w2)"
    using c s by (cases r) (simp_all add: IsPortAvailable_def)
  have "same_table w (snd (IsPortAvailable e port w))"
  proof (cases "fd = INVALID")
    case True
    then show ?thesis using CreateTcpSocket_cases [OF probe_port(1) c] res by (simp add: opened_def)
  next
    case False
    then have "opened fd w w1" using CreateTcpSocket_cases [OF probe_port(1) c] by simp
    from opened_closed [OF opened_same [OF this same]] False res show ?thesis by simp
  qed
  then show ?case using probe_port(2) by (rule same_table_owned)
qed (auto intro: same_table_owned [OF same_table_wrappers(1)] same_table_owned [OF same_table_wrappers(2)]
    same_table_owned [OF same_table_wrappers(3)] same_table_owned [OF same_table_wrappers(4)]
    same_table_owned [OF same_table_wrappers(5)] same_table_owned [OF same_table_wrappers(6)]
    same_table_owned [OF same_table_wrappers(7)] owned_Close(1) owned_destroy)

lemma owned_start: "owned (os_start as)"
  by (simp add: owned_def os_start_def is_open_def ran_def)

text \<open>C15 (descriptors have one owner). However \<open>Socket\<close> objects are made, moved, assigned, used and
  destroyed, and whatever the kernel answers: a descriptor is open exactly when some object that is alive holds it,
  no two objects hold the same one, and \<open>close\<close> was never called on a descriptor that was not open. So when no object
  is alive, none is open.\<close>

theorem socket_one_owner:
  assumes "socket_step\<^sup>*\<^sup>* (os_start as) w"
  shows "(\<forall>fd. is_open fd w \<longleftrightarrow> fd \<noteq> INVALID \<and> fd \<in> ran (objs w)) \<and> stray_closes w = 0 \<and>
    inj_on (objs w) {ob. alive ob w \<and> m_sockfd ob w \<noteq> INVALID}"
proof -
  have "owned w"
    using assms by (induction rule: rtranclp_induct) (auto intro: owned_step owned_start)
  then show ?thesis
    by (auto simp: owned_def inj_on_def alive_def m_sockfd_def split: option.splits)
qed

theorem socket_one_owner_witness:
  "\<exists>w. socket_step\<^sup>*\<^sup>* (os_start [Inr 3, Inr 0, Inr 0, Inr 0]) w \<and> objs w = [0 \<mapsto> INVALID, 1 \<mapsto> 3] \<and> is_open 3 w \<and> stray_closes w = 0"
proof -
  let ?w0 = "os_start [Inr 3, Inr 0, Inr 0, Inr 0]"
  let ?w1 = "CreateNonBlocking 0 ?w0" and ?w2 = "Socket_move 1 0 (CreateNonBlocking 0 (os_start [Inr 3, Inr 0, Inr 0, Inr 0]))"
  have o1: "objs ?w1 = [0 \<mapsto> 3]"
    by (simp add: CreateNonBlocking_def CreateTcpSocket_def sys_new_fd_def answer_def os_start_def INVALID_def Socket_from_def
        set_sockfd_def SetReuseAddr_fd_def SetNonBlocking_fd_def sys_set_def Let_def)
  have "socket_step ?w0 ?w1" by (rule make_nonblocking) (simp_all add: alive_def os_start_def fresh_answer_def)
  moreover have "socket_step ?w1 ?w2" by (rule move) (simp_all add: alive_def o1)
  ultimately have run: "socket_step\<^sup>*\<^sup>* ?w0 ?w2" by (meson converse_rtranclp_into_rtranclp rtranclp.rtrancl_refl)
  have o2: "objs ?w2 = [0 \<mapsto> INVALID, 1 \<mapsto> 3]" by (auto simp: Socket_move_def set_sockfd_def m_sockfd_def o1)
  from socket_one_owner [OF run] o2 have "is_open 3 ?w2 \<and> stray_closes ?w2 = 0"
    by (auto simp: INVALID_def ran_def)
  with run o2 show ?thesis by blast
qed

end
