(* ===== verification/Tcp_Client.thy ===== *)
theory Tcp_Client
  imports Connection_Properties Socket_Layer
begin

text \<open>
  The client, \<open>src/tcpclient.cpp\<close>: it connects one socket, waits for the connection with a channel of
  its own when the kernel needs time, hands the socket to a \<open>TcpConnection\<close> and is told when that
  closes.

  The state adds to that of the connections the client, the kernel's answers to it (\<open>new_sockets\<close>:
  what \<open>CreateNonBlockingSocket\<close> returns; \<open>connect_outcomes\<close>: the next results of \<open>connect\<close>;
  \<open>socket_errors\<close>: the pending error of a socket), and the number the next object gets. The socket
  object the client holds is its descriptor, \<open>-1\<close> once it was moved from. A record of type \<open>timing\<close>
  has the readings of the clock and the milliseconds that remain of a delay after its conversion to \<open>double\<close> seconds
  and back. A channel whose write callback keeps it alive is never deallocated, here as in the code.
\<close>

section \<open>State\<close>

datatype 'a client_cb = ClientClosed | ClientUser 'a

record 'a client =
  m_client_loop :: loop_id
  m_server_addr :: Address
  m_client_name :: string
  m_client_socket :: "SocketType option"
  m_connection :: "conn_id option"
  m_cl_connection_callback :: "'a option"
  m_cl_message_callback :: "'a option"
  m_cl_write_complete_callback :: "'a option"
  m_cl_close_callback :: "'a option"
  m_connecting :: bool
  m_client_started :: bool
  m_auto_reconnect :: bool
  m_reconnect_delay_ms :: int

record 'a cl_net = "'a client_cb net" +
  client :: "'a client"
  next_object :: nat
  new_sockets :: "SocketType list"
  connect_outcomes :: "(errno + unit) list"
  socket_errors :: "SocketType \<Rightarrow> errno"

record timing =
  tick :: "nat \<Rightarrow> nat"
  via_double :: "int \<Rightarrow> int"

definition upd_client :: "('a client \<Rightarrow> 'a client) \<Rightarrow> ('a, 'z) cl_net_scheme \<Rightarrow> ('a, 'z) cl_net_scheme" where
  "upd_client f w = w\<lparr>client := f (client w)\<rparr>"

definition client_loop :: "('a, 'z) cl_net_scheme \<Rightarrow> loop_id" where
  "client_loop w = m_client_loop (client w)"

definition TcpClient :: "loop_id \<Rightarrow> Address \<Rightarrow> string \<Rightarrow> ('a, 'z) cl_net_scheme \<Rightarrow> ('a, 'z) cl_net_scheme" where
  "TcpClient loop server_addr name =
     upd_client (\<lambda>_. \<lparr>m_client_loop = loop, m_server_addr = server_addr, m_client_name = name, m_client_socket = None,
       m_connection = None, m_cl_connection_callback = None, m_cl_message_callback = None,
       m_cl_write_complete_callback = None, m_cl_close_callback = None, m_connecting = False,
       m_client_started = False, m_auto_reconnect = False, m_reconnect_delay_ms = 3000\<rparr>)"

section \<open>The kernel\<close>

definition new_socket :: "('a, 'z) cl_net_scheme \<Rightarrow> SocketType \<times> ('a, 'z) cl_net_scheme" where
  "new_socket w =
     (case new_sockets w of [] \<Rightarrow> (INVALID_SOCKET_VALUE, w) | fd # rest \<Rightarrow> (fd, w\<lparr>new_sockets := rest\<rparr>))"

definition sys_connect :: "SocketType \<Rightarrow> ('a, 'z) cl_net_scheme \<Rightarrow> int \<times> ('a, 'z) cl_net_scheme" where
  "sys_connect fd w =
     (if fd = INVALID_SOCKET_VALUE then (- 1, w)
      else
        case connect_outcomes w of
          [] \<Rightarrow> (connect_result (Inl EIO :: errno + unit), w)
        | r # rest \<Rightarrow> (connect_result r, w\<lparr>connect_outcomes := rest\<rparr>))"

text \<open>\<open>m_socket.reset()\<close>, and the end of the object an assignment replaces.\<close>

definition reset_socket :: "('a, 'z) cl_net_scheme \<Rightarrow> ('a, 'z) cl_net_scheme" where
  "reset_socket w =
     (let w' = upd_client (\<lambda>s. s\<lparr>m_client_socket := None\<rparr>) w in
      case m_client_socket (client w) of
        None \<Rightarrow> w'
      | Some fd \<Rightarrow> if fd = INVALID_SOCKET_VALUE then w' else w'\<lparr>closes := closes w' @ [fd]\<rparr>)"

section \<open>Operations\<close>

definition IsConnected_client :: "('a, 'z) cl_net_scheme \<Rightarrow> bool" where
  "IsConnected_client w \<longleftrightarrow> (case m_connection (client w) of None \<Rightarrow> False | Some c \<Rightarrow> IsConnected c w)"

definition schedule_reconnect :: "timing \<Rightarrow> ('a, 'z) cl_net_scheme \<Rightarrow> ('a, 'z) cl_net_scheme" where
  "schedule_reconnect T w =
     snd (RunAfter (tick T) (client_loop w) (via_double T (m_reconnect_delay_ms (client w))) (Some DoReconnect) w)"

definition HandleRemoveConnection_client ::
  "timing \<Rightarrow> ('a, ('a, 'z) cl_net_scheme) exec \<Rightarrow> conn_id \<Rightarrow> ('a, 'z) cl_net_scheme \<Rightarrow> ('a, 'z) cl_net_scheme result" where
  "HandleRemoveConnection_client T U c w =
     rbind (AssertInLoopThread (client_loop w) w) (\<lambda>_.
     let w = upd_client (\<lambda>s. s\<lparr>m_connection := None\<rparr>) w in
     rbind (invoke (on_close U) (m_cl_close_callback (client w)) c w) (\<lambda>w.
     if m_auto_reconnect (client w) \<and> m_client_started (client w)
     then Inr (schedule_reconnect T (upd_client (\<lambda>s. s\<lparr>m_connecting := False\<rparr>) w))
     else Inr (upd_client (\<lambda>s. s\<lparr>m_client_started := False\<rparr>) w)))"

text \<open>The callbacks of the client's connection.\<close>

definition client_exec ::
  "timing \<Rightarrow> ('a, ('a, 'z) cl_net_scheme) exec \<Rightarrow> ('a client_cb, ('a, 'z) cl_net_scheme) exec" where
  "client_exec T U =
     \<lparr>on_connection = \<lambda>u c w. case u of ClientUser a \<Rightarrow> on_connection U a c w | _ \<Rightarrow> Inr w,
      on_message = \<lambda>u c w. case u of ClientUser a \<Rightarrow> on_message U a c w | _ \<Rightarrow> Inr w,
      on_write_complete = \<lambda>u c w. case u of ClientUser a \<Rightarrow> on_write_complete U a c w | _ \<Rightarrow> Inr w,
      on_close = \<lambda>u c w. case u of ClientClosed \<Rightarrow> HandleRemoveConnection_client T U c w
        | ClientUser a \<Rightarrow> on_close U a c w,
      on_high_water = \<lambda>u c n w. case u of ClientUser a \<Rightarrow> on_high_water U a c n w | _ \<Rightarrow> Inr w\<rparr>"

text \<open>\<open>HandleConnect\<close> takes the descriptor over from the socket the client holds.\<close>

definition new_client_connection ::
  "SocketType \<Rightarrow> ('a, 'z) cl_net_scheme \<Rightarrow> conn_id \<times> ('a, 'z) cl_net_scheme" where
  "new_client_connection fd w =
     (let c = next_object w;
          s = client w;
          w = upd_client (\<lambda>s. s\<lparr>m_client_socket := Some INVALID_SOCKET_VALUE\<rparr>) (w\<lparr>next_object := Suc c\<rparr>);
          w = TcpConnection c (m_client_loop s) (m_client_name s) fd (m_server_addr s) c w;
          w = SetConnectionCallback_conn c (map_option ClientUser (m_cl_connection_callback s)) w;
          w = SetMessageCallback_conn c (map_option ClientUser (m_cl_message_callback s)) w;
          w = SetWriteCompleteCallback_conn c (map_option ClientUser (m_cl_write_complete_callback s)) w;
          w = SetCloseCallback_conn c (Some ClientClosed) w
      in (c, upd_client (\<lambda>s. s\<lparr>m_connection := Some c\<rparr>) w))"

definition HandleConnect ::
  "timing \<Rightarrow> ('a, ('a, 'z) cl_net_scheme) exec \<Rightarrow> SocketType \<Rightarrow> ('a, 'z) cl_net_scheme \<Rightarrow>
   ('a, 'z) cl_net_scheme result" where
  "HandleConnect T U fd w =
     rbind (AssertInLoopThread (client_loop w) w) (\<lambda>_.
     let (c, w) = new_client_connection fd (upd_client (\<lambda>s. s\<lparr>m_connecting := False\<rparr>) w) in
     ConnectEstablished (client_exec T U) c w)"

text \<open>The write callback of the channel that waits for the connection.\<close>

definition connect_done ::
  "timing \<Rightarrow> ('a, ('a, 'z) cl_net_scheme) exec \<Rightarrow> chan_id \<Rightarrow> ('a, 'z) cl_net_scheme \<Rightarrow>
   ('a, 'z) cl_net_scheme result" where
  "connect_done T U temp w =
     rbind
       (if socket_errors w (m_fd (channels w temp)) \<noteq> 0 then
          let w = upd_client (\<lambda>s. s\<lparr>m_connecting := False\<rparr>) w in
          if m_auto_reconnect (client w) \<and> m_client_started (client w) then Inr (schedule_reconnect T w) else Inr w
        else
          case m_client_socket (client w) of
            None \<Rightarrow> Inl UndefinedBehaviour
          | Some fd \<Rightarrow> rbind (HandleConnect T U fd w) (\<lambda>w. Inr (reset_socket w)))
       (\<lambda>w. if m_added (channels w temp) then RemoveChannel (client_loop w) temp w else Inr w)"

text \<open>The channel that waits for the connection.\<close>

definition await_connection :: "SocketType \<Rightarrow> ('a, 'z) cl_net_scheme \<Rightarrow> ('a, 'z) cl_net_scheme result" where
  "await_connection fd w =
     (let temp = next_object w;
          w = upd_channel temp (\<lambda>_. SetWriteCallback (OnConnectDone temp) (Channel (client_loop w) fd))
                (w\<lparr>next_object := Suc temp\<rparr>) in
      rbind (EnableWriting temp w) (UpdateChannel (client_loop w) temp))"

definition Connect ::
  "timing \<Rightarrow> ('a, ('a, 'z) cl_net_scheme) exec \<Rightarrow> ('a, 'z) cl_net_scheme \<Rightarrow> ('a, 'z) cl_net_scheme result" where
  "Connect T U w =
     rbind (AssertInLoopThread (client_loop w) w) (\<lambda>_.
     if m_client_started (client w) then Inr w
     else
       let w = upd_client (\<lambda>s. s\<lparr>m_client_started := True, m_connecting := True\<rparr>) w;
           (fd, w) = new_socket w;
           w = upd_client (\<lambda>s. s\<lparr>m_client_socket := Some fd\<rparr>) (reset_socket w);
           (ret, w) = sys_connect fd w in
       if ret = 0 then rbind (HandleConnect T U fd w) (\<lambda>w. Inr (reset_socket w))
       else if ret = kConnectInProgress then await_connection fd w
       else Inr (reset_socket (upd_client (\<lambda>s. s\<lparr>m_connecting := False, m_client_started := False\<rparr>) w)))"

definition DoReconnect_client ::
  "timing \<Rightarrow> ('a, ('a, 'z) cl_net_scheme) exec \<Rightarrow> ('a, 'z) cl_net_scheme \<Rightarrow> ('a, 'z) cl_net_scheme result" where
  "DoReconnect_client T U w =
     (if m_client_started (client w) \<and> \<not> m_connecting (client w) \<and> \<not> IsConnected_client w then Connect T U w
      else Inr w)"

definition Disconnect ::
  "timing \<Rightarrow> ('a, ('a, 'z) cl_net_scheme) exec \<Rightarrow> ('a, 'z) cl_net_scheme \<Rightarrow> ('a, 'z) cl_net_scheme result" where
  "Disconnect T U w =
     (let w = upd_client (\<lambda>s. s\<lparr>m_auto_reconnect := False, m_client_started := False\<rparr>) w in
      case m_connection (client w) of None \<Rightarrow> Inr w | Some c \<Rightarrow> Shutdown (client_exec T U) c w)"

definition Send_client_bytes ::
  "timing \<Rightarrow> ('a, ('a, 'z) cl_net_scheme) exec \<Rightarrow> string \<Rightarrow> size_t \<Rightarrow> ('a, 'z) cl_net_scheme \<Rightarrow>
   ('a, 'z) cl_net_scheme result" where
  "Send_client_bytes T U data len w =
     (case m_connection (client w) of
        Some c \<Rightarrow> if IsConnected_client w then Send_bytes (client_exec T U) c data len w else Inr w
      | None \<Rightarrow> Inr w)"

definition Send_client ::
  "timing \<Rightarrow> ('a, ('a, 'z) cl_net_scheme) exec \<Rightarrow> string \<Rightarrow> ('a, 'z) cl_net_scheme \<Rightarrow>
   ('a, 'z) cl_net_scheme result" where
  "Send_client T U message = Send_client_bytes T U message (of_nat (length message))"

definition destroy_TcpClient ::
  "timing \<Rightarrow> ('a, ('a, 'z) cl_net_scheme) exec \<Rightarrow> ('a, 'z) cl_net_scheme \<Rightarrow> ('a, 'z) cl_net_scheme result" where
  "destroy_TcpClient T U w =
     (case m_connection (client w) of None \<Rightarrow> Inr w | Some c \<Rightarrow> ForceClose (client_exec T U) c w)"

definition SetConnectionCallback_cl :: "'a option \<Rightarrow> ('a, 'z) cl_net_scheme \<Rightarrow> ('a, 'z) cl_net_scheme" where
  "SetConnectionCallback_cl cb = upd_client (\<lambda>s. s\<lparr>m_cl_connection_callback := cb\<rparr>)"

definition SetMessageCallback_cl :: "'a option \<Rightarrow> ('a, 'z) cl_net_scheme \<Rightarrow> ('a, 'z) cl_net_scheme" where
  "SetMessageCallback_cl cb = upd_client (\<lambda>s. s\<lparr>m_cl_message_callback := cb\<rparr>)"

definition SetWriteCompleteCallback_cl :: "'a option \<Rightarrow> ('a, 'z) cl_net_scheme \<Rightarrow> ('a, 'z) cl_net_scheme" where
  "SetWriteCompleteCallback_cl cb = upd_client (\<lambda>s. s\<lparr>m_cl_write_complete_callback := cb\<rparr>)"

definition SetCloseCallback_cl :: "'a option \<Rightarrow> ('a, 'z) cl_net_scheme \<Rightarrow> ('a, 'z) cl_net_scheme" where
  "SetCloseCallback_cl cb = upd_client (\<lambda>s. s\<lparr>m_cl_close_callback := cb\<rparr>)"

definition SetAutoReconnect :: "bool \<Rightarrow> ('a, 'z) cl_net_scheme \<Rightarrow> ('a, 'z) cl_net_scheme" where
  "SetAutoReconnect enable = upd_client (\<lambda>s. s\<lparr>m_auto_reconnect := enable\<rparr>)"

text \<open>The closures of a program with one client.\<close>

definition run_client ::
  "timing \<Rightarrow> ('a, ('a, 'z) cl_net_scheme) exec \<Rightarrow> 'a client_cb closure \<Rightarrow> ('a, 'z) cl_net_scheme \<Rightarrow>
   ('a, 'z) cl_net_scheme result" where
  "run_client T U = run_conn (client_exec T U) (\<lambda>f w.
     case f of OnConnectDone temp \<Rightarrow> connect_done T U temp w | DoReconnect \<Rightarrow> DoReconnect_client T U w | _ \<Rightarrow> Inr w)"

section \<open>A descriptor another channel watches\<close>

text \<open>
  The poller knows a descriptor by its number. A channel that reports an interest in a descriptor the
  poller already maps, to whatever channel, changes the kernel's interest but not the map.
\<close>

definition log_ctl :: "loop_id \<Rightarrow> ctl_call \<Rightarrow> ('cb, 'z) world_scheme \<Rightarrow> ('cb, 'z) world_scheme" where
  "log_ctl l k = upd_loop l (\<lambda>lp. lp\<lparr>m_poller := (m_poller lp)\<lparr>ctl_log := ctl_log (m_poller lp) @ [k]\<rparr>\<rparr>)"

definition watched_by :: "('cb, 'z) world_scheme \<Rightarrow> loop_id \<Rightarrow> SocketType \<Rightarrow> chan_id option" where
  "watched_by w l = m_fd_to_channel (m_poller (loops w l))"

definition kernel_interest :: "('cb, 'z) world_scheme \<Rightarrow> loop_id \<Rightarrow> SocketType \<Rightarrow> int32 option" where
  "kernel_interest w l = requested (ctl_log (m_poller (loops w l)))"

lemma log_ctl_simps [simp]:
  "channels (log_ctl l k w) = channels w" "this_thread (log_ctl l k w) = this_thread w"
  "m_threadId (loops (log_ctl l k w) l') = m_threadId (loops w l')"
  "watched_by (log_ctl l k w) l' = watched_by w l'"
  by (simp_all add: log_ctl_def watched_by_def)

lemma client_frame [simp]:
  fixes w :: "('a, 'z) cl_net_scheme"
  shows "conns (log_ctl l k w) = conns w" "sent (log_ctl l k w) = sent w" "client (log_ctl l k w) = client w"
    "conns (upd_channel ch f w) = conns w" "sent (upd_channel ch f w) = sent w" "client (upd_channel ch f w) = client w"
    "client (upd_conn c g w) = client w" "sent (upd_conn c g w) = sent w" "conns (upd_conn c g w) = (conns w)(c := g (conns w c))"
    "channels (upd_conn c g w) = channels w" "loops (upd_conn c g w) = loops w" "this_thread (upd_conn c g w) = this_thread w"
    "client_loop (log_ctl l k w) = client_loop w" "client_loop (upd_channel ch f w) = client_loop w"
    "client_loop (upd_conn c g w) = client_loop w"
  by (simp_all add: log_ctl_def upd_loop_def upd_channel_def upd_conn_def client_loop_def)

lemma UpdateChannel_watched:
  assumes "IsInLoopThread l w" and "\<not> HasNoEvents (channels w c)" and "watched_by w l (m_fd (channels w c)) \<noteq> None"
  shows "UpdateChannel l c w = Inr (log_ctl l (EPOLL_CTL_MOD, m_fd (channels w c), m_events (channels w c)) w)"
  using assms
  by (simp add: UpdateChannel_def AssertInLoopThread_def with_poller_def UpdateChannel_epoll_def UpdateEpoll_def
      watched_by_def log_ctl_def upd_loop_def)

lemma RemoveChannel_watched:
  assumes "IsInLoopThread l w" and "watched_by w l (m_fd (channels w c)) \<noteq> None"
  shows "\<exists>w'. RemoveChannel l c w = Inr w' \<and> watched_by w' l = (watched_by w l)(m_fd (channels w c) := None) \<and>
    kernel_interest w' l = (kernel_interest w l)(m_fd (channels w c) := None) \<and>
    w' = w\<lparr>loops := loops w', channels := (channels w)(c := SetAdded False (channels w c))\<rparr> \<and>
    m_threadId (loops w' l) = m_threadId (loops w l)"
  using assms
  by (auto simp: RemoveChannel_def AssertInLoopThread_def with_poller_def RemoveChannel_epoll_def UpdateEpoll_def
      watched_by_def kernel_interest_def requested_snoc upd_loop_def Let_def)

section \<open>The connection a client makes\<close>

lemma client_exec_simps [simp]:
  "on_connection (client_exec T U) (ClientUser a) = on_connection U a"
  "on_connection (client_exec T U) ClientClosed = (\<lambda>c. Inr)"
  by (simp_all add: client_exec_def fun_eq_iff)

lemma new_client_connection_facts:
  fixes w :: "('a, 'z) cl_net_scheme"
  assumes "new_client_connection fd w = (c, w')"
  shows "c = next_object w" and "loops w' = loops w" and "this_thread w' = this_thread w"
    and "d \<noteq> c \<Longrightarrow> channels w' d = channels w d" and "m_fd (channels w' c) = fd" and "m_events (channels w' c) = 0"
    and "m_ownerLoop (channels w' c) = client_loop w"
    and "m_socket (conns w' c) = fd" and "m_channel (conns w' c) = c" and "m_loop (conns w' c) = client_loop w"
    and "m_state (conns w' c) = Connecting" and "m_output_buffer (conns w' c) = Buffer kInitialSize"
    and "m_connection_callback (conns w' c) = map_option ClientUser (m_cl_connection_callback (client w))"
    and "m_high_water_mark_callback (conns w' c) = None" and "sent w' c = []"
    and "client w' = (client w)\<lparr>m_client_socket := Some INVALID_SOCKET_VALUE, m_connection := Some c\<rparr>"
    and "next_object w' = Suc c" and "closes w' = closes w"
  using assms
  by (auto simp: new_client_connection_def Let_def TcpConnection_def upd_conn_def upd_client_def client_loop_def
      RefreshActiveTime_def SetConnectionCallback_conn_def SetMessageCallback_conn_def upd_channel_def
      SetWriteCompleteCallback_conn_def SetCloseCallback_conn_def SetReadCallback_def SetWriteCallback_def
      SetErrorCallback_def SetCloseCallback_def Channel_def kNoneEvent_def)

lemma events_bits [simp]:
  "m_events (events_enable (kReadEvent Linux) ch) = m_events ch OR 1" "m_events (events_enable (kWriteEvent Linux) ch) = m_events ch OR 4"
  "m_fd (events_enable e ch) = m_fd ch" "m_ownerLoop (events_enable e ch) = m_ownerLoop ch"
  "IsWriting Linux ch \<longleftrightarrow> m_events ch AND 4 \<noteq> 0" "IsReading Linux ch \<longleftrightarrow> m_events ch AND 1 \<noteq> 0"
  by (simp_all add: events_enable_def kReadEvent_def kWriteEvent_def IsWriting_def IsReading_def)

text \<open>A connection whose channel is not the one the poller maps its descriptor to, after \<open>HandleConnect\<close>
  has enabled reading on it, and after a first \<open>Send\<close>.\<close>

definition unmapped_conn :: "loop_id \<Rightarrow> conn_id \<Rightarrow> SocketType \<Rightarrow> int32 \<Rightarrow> string \<Rightarrow> chan_id \<Rightarrow> ('a, 'z) cl_net_scheme \<Rightarrow> bool" where
  "unmapped_conn l c fd events out temp w \<longleftrightarrow>
     client_loop w = l \<and> IsInLoopThread l w \<and> m_connection (client w) = Some c \<and>
     m_loop (conns w c) = l \<and> m_socket (conns w c) = fd \<and> m_channel (conns w c) = c \<and>
     IsConnected c w \<and> wf_buffer (m_output_buffer (conns w c)) \<and> content (m_output_buffer (conns w c)) = out \<and>
     sent w c = [] \<and> m_high_water_mark_callback (conns w c) = None \<and>
     m_fd (channels w c) = fd \<and> m_ownerLoop (channels w c) = l \<and> m_events (channels w c) = events \<and>
     m_fd (channels w temp) = fd \<and> m_added (channels w temp) \<and> watched_by w l fd = Some temp \<and> temp \<noteq> c"

lemma HandleConnect_unmapped:
  fixes w :: "('a, 'z) cl_net_scheme"
  assumes loop: "IsInLoopThread (client_loop w) w" and fd: "m_fd (channels w temp) = fd" and added: "m_added (channels w temp)"
    and mapped: "watched_by w (client_loop w) fd = Some temp" and fresh: "temp < next_object w"
    and hello: "m_cl_connection_callback (client w) = Some hello"
  shows "\<exists>w1. HandleConnect T U fd w = on_connection U hello (next_object w) w1 \<and>
    unmapped_conn (client_loop w) (next_object w) fd 1 [] temp w1 \<and> m_write_idx (m_output_buffer (conns w1 (next_object w))) = m_write_idx (Buffer kInitialSize)"
proof -
  let ?c = "next_object w" and ?w = "upd_client (\<lambda>s. s\<lparr>m_connecting := False\<rparr>) w"
  obtain c w1 where n: "new_client_connection fd ?w = (c, w1)" by fastforce
  note all_facts = new_client_connection_facts [OF n]
  note facts = all_facts(2-)
  have pre: "loops ?w = loops w" "this_thread ?w = this_thread w" "channels ?w = channels w" "next_object ?w = ?c"
    "client ?w = (client w)\<lparr>m_connecting := False\<rparr>" "client_loop ?w = client_loop w"
    by (simp_all add: upd_client_def client_loop_def)
  have c: "c = ?c" using all_facts(1) pre by simp
  define w2 where "w2 = RefreshActiveTime c (upd_conn c (\<lambda>cn. cn\<lparr>m_state := Connected\<rparr>) w1)"
  define w3 where "w3 = upd_channel c (events_enable (kReadEvent Linux)) w2"
  have in3: "IsInLoopThread (client_loop w) w3"
    using loop facts pre by (simp add: w3_def w2_def IsInLoopThread_def RefreshActiveTime_def upd_conn_def)
  have ch3: "m_fd (channels w3 c) = fd" "m_events (channels w3 c) = 1" "m_ownerLoop (channels w3 c) = client_loop w"
    using facts pre by (simp_all add: w3_def w2_def RefreshActiveTime_def upd_conn_def)
  have map3: "watched_by w3 (client_loop w) fd = Some temp"
    using mapped facts pre by (simp add: w3_def w2_def RefreshActiveTime_def upd_conn_def watched_by_def)
  have en: "EnableReading c w2 = Inr (log_ctl (client_loop w) (EPOLL_CTL_MOD, fd, 1) w3)"
    using UpdateChannel_watched [OF in3, of c] ch3 map3
    by (simp add: EnableReading_def w3_def HasNoEvents_def kNoneEvent_def)
  have asserts: "AssertInLoopThread (client_loop w) ?w = Inr ()" "AssertInLoopThread (client_loop w) w = Inr ()"
      "AssertInLoopThread (m_loop (conns w1 c)) w1 = Inr ()"
    using loop facts pre by (simp_all add: AssertInLoopThread_def IsInLoopThread_def)
  have cb: "m_connection_callback (conns (log_ctl l k w3) c) = Some (ClientUser hello)" for l k
    using facts pre hello
    by (simp add: w3_def w2_def RefreshActiveTime_def upd_conn_def log_ctl_def upd_loop_def upd_channel_def)
  have chan: "m_channel (conns w2 c) = c" using facts by (simp add: w2_def RefreshActiveTime_def upd_conn_def)
  have "HandleConnect T U fd w = on_connection U hello c (log_ctl (client_loop w) (EPOLL_CTL_MOD, fd, 1) w3)"
    using asserts n facts en cb chan
    by (simp add: HandleConnect_def ConnectEstablished_def invoke_def Let_def cpp_assert_def flip: w2_def)
  moreover
  have same: "client w3 = client w1" "conns w3 = (conns w1)(c := (conns w1 c)\<lparr>m_state := Connected, m_last_active_ms := wall_ms w2\<rparr>)"
      "sent w3 = sent w1" "channels w3 temp = channels w temp"
    using facts(3) pre fresh c by (simp_all add: w3_def w2_def RefreshActiveTime_def upd_conn_def)
  have "client_loop w3 = client_loop w" using same(1) facts pre by (simp add: client_loop_def)
  then have "unmapped_conn (client_loop w) c fd 1 [] temp (log_ctl (client_loop w) (EPOLL_CTL_MOD, fd, 1) w3)"
    using facts pre ch3 in3 map3 fd added fresh c same
    by (simp add: unmapped_conn_def IsConnected_def wf_Buffer kInitialSize_def max_size_def IsInLoopThread_def)
  moreover have "m_output_buffer (conns (log_ctl (client_loop w) (EPOLL_CTL_MOD, fd, 1) w3) c) = Buffer kInitialSize"
    using same facts by simp
  ultimately show ?thesis unfolding c by auto
qed

lemma Send_unmapped:
  fixes w :: "('a, 'z) cl_net_scheme"
  assumes un: "unmapped_conn l c fd 1 [] temp w" and room: "m_write_idx (m_output_buffer (conns w c)) = m_write_idx (Buffer kInitialSize)"
    and small: "length msg \<le> 4611686018427387904"
  shows "\<exists>w'. Send E c msg w = Inr w' \<and> unmapped_conn l c fd 5 msg temp w'"
proof -
  have len: "unat (of_nat (length msg) :: size_t) = length msg" using small by (intro unat_of_nat_size_t) simp
  have "\<exists>b'. Append msg (of_nat (length msg)) (m_output_buffer (conns w c)) = Inr b' \<and> wf_buffer b' \<and> content b' = msg"
    using Append_ok [of "m_output_buffer (conns w c)" "of_nat (length msg)" msg] un small room
    by (auto simp: unmapped_conn_def len max_size_def Buffer_def)
  then obtain b' where b': "Append msg (of_nat (length msg)) (m_output_buffer (conns w c)) = Inr b'" "wf_buffer b'" "content b' = msg"
    by blast
  define w1 where "w1 = upd_conn c (\<lambda>cn. cn\<lparr>m_output_buffer := b', m_pending_write_bytes := ReadableBytes b'\<rparr>)
                 (w\<lparr>accepted := (accepted w)(c := accepted w c @ msg)\<rparr>)"
  define w2 where "w2 = upd_channel c (events_enable (kWriteEvent Linux)) w1"
  let ?w' = "log_ctl (client_loop w) (EPOLL_CTL_MOD, fd, 5) w2"
  have same: "loops w2 = loops w" "this_thread w2 = this_thread w" "client w2 = client w" "sent w2 = sent w"
    "channels w2 = (channels w)(c := events_enable (kWriteEvent Linux) (channels w c))"
    "conns w2 = (conns w)(c := (conns w c)\<lparr>m_output_buffer := b', m_pending_write_bytes := ReadableBytes b'\<rparr>)"
    by (simp_all add: w2_def w1_def upd_conn_def)
  have "client_loop w2 = client_loop w" using same by (simp add: client_loop_def)
  moreover have "EnableWriting c w1 = Inr ?w'"
    using UpdateChannel_watched [of "client_loop w" w2 c] un same
    by (simp add: EnableWriting_def HasNoEvents_def kNoneEvent_def unmapped_conn_def IsInLoopThread_def watched_by_def
        flip: w2_def)
  moreover have "m_high_water_mark_callback (conns w1 c) = None" "m_channel (conns w1 c) = c" "channels w1 c = channels w c"
    using un by (simp_all add: unmapped_conn_def w1_def)
  ultimately have "Send E c msg w = Inr ?w'"
    using un b' len
    by (simp add: Send_def SendInLoop_def unmapped_conn_def AssertInLoopThread_def invoke_def Let_def flip: w1_def)
  moreover have "watched_by w2 = watched_by w" using same by (simp add: watched_by_def fun_eq_iff)
  then have "unmapped_conn l c fd 5 msg temp ?w'"
    using un same b' \<open>client_loop w2 = client_loop w\<close>
    by (simp add: unmapped_conn_def IsInLoopThread_def IsConnected_def)
  ultimately show ?thesis by blast
qed

text \<open>A connection with an interest its channel has noted and the poller does not have.\<close>

definition forgotten_conn :: "loop_id \<Rightarrow> conn_id \<Rightarrow> SocketType \<Rightarrow> ('a, 'z) cl_net_scheme \<Rightarrow> bool" where
  "forgotten_conn l c fd w \<longleftrightarrow>
     client_loop w = l \<and> m_connection (client w) = Some c \<and> m_loop (conns w c) = l \<and> m_socket (conns w c) = fd \<and> m_channel (conns w c) = c \<and>
     IsConnected c w \<and> sent w c = [] \<and> m_high_water_mark_callback (conns w c) = None \<and>
     m_events (channels w c) = 5 \<and> IsInLoopThread l w \<and>
     watched_by w l fd = None \<and> kernel_interest w l fd = None"

lemma Send_forgotten:
  assumes f: "forgotten_conn l c fd w" and s: "Send_client T U msg w = Inr w'"
  shows "forgotten_conn l c fd w'"
proof -
  have "SendInLoop (client_exec T U) c msg (of_nat (length msg)) w = Inr w'"
    using f s by (simp add: Send_client_def Send_client_bytes_def IsConnected_client_def Send_bytes_def forgotten_conn_def)
  with f show ?thesis
    by (auto simp: SendInLoop_def forgotten_conn_def rbind_eq_Inr_iff AssertInLoopThread_def Let_def invoke_def
        upd_conn_def IsConnected_def client_loop_def IsInLoopThread_def watched_by_def kernel_interest_def split: if_splits)
qed

lemma sends_forgotten: "rfold (Send_client T U) msgs w = Inr w' \<Longrightarrow> forgotten_conn l c fd w \<Longrightarrow> forgotten_conn l c fd w'"
  by (rule rfold_invariant) (auto intro: Send_forgotten)

lemma connect_done_forgets:
  fixes w :: "('a, 'z) cl_net_scheme"
  assumes un: "unmapped_conn l c fd 5 msg temp w"
  shows "\<exists>w'. RemoveChannel (client_loop w) temp w = Inr w' \<and> forgotten_conn l c fd w' \<and> content (m_output_buffer (conns w' c)) = msg"
proof -
  have "watched_by w (client_loop w) (m_fd (channels w temp)) \<noteq> None" "IsInLoopThread (client_loop w) w" "m_fd (channels w temp) = fd"
    using un by (auto simp: unmapped_conn_def)
  from RemoveChannel_watched [OF this(2,1), unfolded this(3)] obtain w' where w': "RemoveChannel (client_loop w) temp w = Inr w'"
    "watched_by w' (client_loop w) = (watched_by w (client_loop w))(fd := None)"
    "kernel_interest w' (client_loop w) = (kernel_interest w (client_loop w))(fd := None)"
    "w' = w\<lparr>loops := loops w', channels := (channels w)(temp := SetAdded False (channels w temp))\<rparr>"
    "m_threadId (loops w' (client_loop w)) = m_threadId (loops w (client_loop w))" by blast
  have "conns w' = conns w" "client w' = client w" "sent w' = sent w" "this_thread w' = this_thread w"
    "channels w' = (channels w)(temp := SetAdded False (channels w temp))"
    by (subst w'(4), simp)+
  with un w'(1-3,5) show ?thesis
    by (auto simp: forgotten_conn_def unmapped_conn_def client_loop_def IsInLoopThread_def IsConnected_def)
qed

lemma reset_socket_frame [simp]:
  "loops (reset_socket w) = loops w" "channels (reset_socket w) = channels w" "this_thread (reset_socket w) = this_thread w"
  "conns (reset_socket w) = conns w" "sent (reset_socket w) = sent w"
  "client (reset_socket w) = (client w)\<lparr>m_client_socket := None\<rparr>"
  by (simp_all add: reset_socket_def Let_def upd_client_def split: option.split)

lemma reset_socket_unmapped: "unmapped_conn l c fd events out temp w \<Longrightarrow> unmapped_conn l c fd events out temp (reset_socket w)"
  by (simp add: unmapped_conn_def IsInLoopThread_def IsConnected_def client_loop_def watched_by_def)

section \<open>An example\<close>

text \<open>
  A client in loop 0, which thread 1 runs; the kernel needs time to connect descriptor 7; the callback greets.
\<close>

definition example_timing :: timing where
  "example_timing = \<lparr>tick = \<lambda>_. 1, via_double = id\<rparr>"

definition quiet_user :: "('a, 'w) exec" where
  "quiet_user = \<lparr>on_connection = \<lambda>u c w. Inr w, on_message = \<lambda>u c w. Inr w,
     on_write_complete = \<lambda>u c w. Inr w, on_close = \<lambda>u c w. Inr w, on_high_water = \<lambda>u c n w. Inr w\<rparr>"

definition greeter :: "(string, (string, 'z) cl_net_scheme) exec" where
  "greeter = quiet_user\<lparr>on_connection := \<lambda>greeting c. Send (client_exec example_timing quiet_user) c greeting\<rparr>"

definition example_client :: "string cl_net" where
  "example_client = SetConnectionCallback_cl (Some ''hello'') (TcpClient 0 Address_default ''c'' (net.extend example_net
     \<lparr>client = undefined, next_object = 3, new_sockets = [7], connect_outcomes = [Inl EINPROGRESS], socket_errors = \<lambda>_. 0\<rparr>))"

definition waiting_client :: "string cl_net" where
  "waiting_client = projr (Connect example_timing greeter example_client)"

lemma waiting_client_facts:
  "IsInLoopThread (client_loop waiting_client) waiting_client" "m_client_socket (client waiting_client) = Some 7"
  "socket_errors waiting_client 7 = 0" "m_fd (channels waiting_client 3) = 7" "m_added (channels waiting_client 3)"
  "watched_by waiting_client (client_loop waiting_client) 7 = Some 3" "next_object waiting_client = 4"
  "m_cl_connection_callback (client waiting_client) = Some ''hello''"
  by code_simp+

lemma waiting_client_run: "Connect example_timing greeter example_client = Inr waiting_client"
proof -
  have "\<not> isl (Connect example_timing greeter example_client)" by code_simp
  then show ?thesis by (simp add: waiting_client_def)
qed

section \<open>Properties\<close>

text \<open>C22 (a connection the client waited for is not watched). When the kernel reports that the connection of a
  client is ready, the client hands the descriptor to a \<open>TcpConnection\<close>, whose channel enables reading while the
  poller still maps the descriptor to the waiting channel; then it removes the waiting channel, and with it the
  descriptor. So if the connection callback sends a greeting, the connection is connected, the greeting is in its
  output buffer, its channel asks for read and write events, and the kernel was told to report none: whatever the
  client sends later, nothing is ever written and the poller does not learn of the descriptor again.\<close>

theorem client_greeting_lost:
  fixes w :: "('a, 'z) cl_net_scheme"
  assumes "IsInLoopThread (client_loop w) w"
    and "m_client_socket (client w) = Some fd" and "socket_errors w fd = 0"
    and "m_fd (channels w temp) = fd" and "m_added (channels w temp)" and "watched_by w (client_loop w) fd = Some temp"
    and "temp < next_object w"
    and "m_cl_connection_callback (client w) = Some hello"
    and "\<And>c v. on_connection U hello c v = Send E c greeting v" and "length greeting \<le> 4611686018427387904"
  shows "\<exists>w'. run_client T U (OnConnectDone temp) w = Inr w' \<and>
    content (m_output_buffer (conns w' (next_object w))) = greeting \<and>
    (\<forall>msgs v. rfold (Send_client T U) msgs w' = Inr v \<longrightarrow>
       m_connection (client v) = Some (next_object w) \<and> IsConnected (next_object w) v \<and> GetFd (next_object w) v = fd \<and>
       IsReading Linux (channels v (next_object w)) \<and> IsWriting Linux (channels v (next_object w)) \<and>
       sent v (next_object w) = [] \<and> watched_by v (client_loop w) fd = None \<and> kernel_interest v (client_loop w) fd = None)"
proof -
  let ?c = "next_object w"
  obtain w1 where w1: "HandleConnect T U fd w = on_connection U hello ?c w1" "unmapped_conn (client_loop w) ?c fd 1 [] temp w1"
      "m_write_idx (m_output_buffer (conns w1 ?c)) = m_write_idx (Buffer kInitialSize)"
    using HandleConnect_unmapped [OF assms(1,4-8)] by blast
  from Send_unmapped [OF w1(2,3) assms(10)] obtain w2 where w2: "Send E ?c greeting w1 = Inr w2" "unmapped_conn (client_loop w) ?c fd 5 greeting temp w2"
    by blast
  let ?w3 = "reset_socket w2"
  have w3: "unmapped_conn (client_loop w) ?c fd 5 greeting temp ?w3" using w2(2) by (rule reset_socket_unmapped)
  from connect_done_forgets [OF this] obtain w' where w': "RemoveChannel (client_loop ?w3) temp ?w3 = Inr w'"
      "forgotten_conn (client_loop w) ?c fd w'" "content (m_output_buffer (conns w' ?c)) = greeting" by blast
  have "m_added (channels ?w3 temp)" using w3 by (simp add: unmapped_conn_def)
  with w1(1) w2(1) w'(1) assms have "run_client T U (OnConnectDone temp) w = Inr w'"
    by (simp add: run_client_def run_conn_def connect_done_def)
  moreover have "forgotten_conn (client_loop w) ?c fd v" if "rfold (Send_client T U) msgs w' = Inr v" for msgs v
    using sends_forgotten [OF that w'(2)] .
  ultimately show ?thesis using w'(3) unfolding forgotten_conn_def by (intro exI [of _ w']) (auto simp: GetFd_def)
qed

theorem client_greeting_lost_witness:
  "\<exists>w'. rbind (Connect example_timing greeter example_client) (run_client example_timing greeter (OnConnectDone 3)) = Inr w' \<and>
    IsConnected 4 w' \<and> content (m_output_buffer (conns w' 4)) = ''hello'' \<and> kernel_interest w' 0 7 = None"
proof -
  have greet: "on_connection greeter ''hello'' c v = Send (client_exec example_timing quiet_user) c ''hello'' v"
    for c and v :: "string cl_net" by (simp add: greeter_def)
  have "client_loop waiting_client = 0" by code_simp
  obtain w' where w': "run_client example_timing greeter (OnConnectDone 3) waiting_client = Inr w'"
      "content (m_output_buffer (conns w' 4)) = ''hello''"
    and later: "\<forall>msgs v. rfold (Send_client example_timing greeter) msgs w' = Inr v \<longrightarrow>
      IsConnected 4 v \<and> kernel_interest v 0 7 = None"
    using client_greeting_lost [of waiting_client 7 3 "''hello''" greeter "client_exec example_timing quiet_user" "''hello''"
        example_timing, unfolded waiting_client_facts(2-4,6-)] waiting_client_facts(1,5) greet \<open>client_loop waiting_client = 0\<close>
    by auto
  from later [rule_format, of "[]" w'] w' show ?thesis by (simp add: waiting_client_run)
qed

text \<open>C34 (there is no automatic reconnection). When the connection of a client that should reconnect closes, the
  client sets a timer and stays started; and \<open>DoReconnect\<close>, in the loop's thread, whatever the client's state, does
  nothing at all: it calls \<open>Connect\<close> only for a client that is started, and \<open>Connect\<close> returns at once for such a client.\<close>

theorem client_never_reconnects:
  fixes w :: "('a, 'z) cl_net_scheme"
  assumes "IsInLoopThread (client_loop w) w" and "m_auto_reconnect (client w)" and "m_client_started (client w)"
    and "m_cl_close_callback (client w) = None"
  shows "(\<exists>w'. on_close (client_exec T U) ClientClosed c w = Inr w' \<and> m_client_started (client w') \<and> m_connection (client w') = None \<and>
      (\<exists>p \<in> set (m_delayed_tasks (get_timers (client_loop w) w')).
        timer_cb (tasks (get_timers (client_loop w) w') ! p) = Some DoReconnect)) \<and>
    (IsInLoopThread (client_loop v) v \<longrightarrow> run_client T U DoReconnect v = Inr v)"
proof -
  let ?w = "upd_client (\<lambda>s. s\<lparr>m_connecting := False\<rparr>) (upd_client (\<lambda>s. s\<lparr>m_connection := None\<rparr>) w)"
  have w': "on_close (client_exec T U) ClientClosed c w = Inr (schedule_reconnect T ?w)"
    using assms by (simp add: client_exec_def HandleRemoveConnection_client_def AssertInLoopThread_def invoke_def upd_client_def)
  obtain now w1 where now: "steady_now (tick T) ?w = (now, w1)" by fastforce
  define delay where "delay = via_double T (m_reconnect_delay_ms (client w))"
  define due where "due = now + (if delay < 0 then 0 else delay) * ns_per_ms"
  obtain timer t where add: "add_task due 0 False (Some DoReconnect) (get_timers (client_loop w) w1) = (timer, t)" by fastforce
  then have res: "schedule_reconnect T ?w = wake_if_needed (client_loop w) (put_timers (client_loop w) t w1)"
    using now
    by (cases "delay < 0") (simp_all add: schedule_reconnect_def RunAfter_def RunAt_def client_loop_def upd_client_def due_def delay_def)
  have "client (schedule_reconnect T ?w) = client ?w"
    using now unfolding res
    by (auto simp: wake_if_needed_def Wakeup_def put_timers_def upd_loop_def steady_now_def Let_def)
  moreover have "get_timers (client_loop w) (schedule_reconnect T ?w) = t" by (simp add: res)
  moreover have "\<exists>p \<in> set (m_delayed_tasks t). timer_cb (tasks t ! p) = Some DoReconnect"
    using add by (auto simp: add_task_def Let_def heap_push_def set_insort_key)
  moreover have "run_client T U DoReconnect v = Inr v" if "IsInLoopThread (client_loop v) v"
    using that by (simp add: run_client_def run_conn_def DoReconnect_client_def Connect_def AssertInLoopThread_def)
  ultimately show ?thesis using w' assms(3) by (auto simp: upd_client_def)
qed

theorem client_never_reconnects_witness:
  "\<exists>w'. on_close (client_exec example_timing greeter) ClientClosed 4 (SetAutoReconnect True waiting_client) = Inr w' \<and>
    run_client example_timing greeter DoReconnect waiting_client = Inr waiting_client"
proof -
  have "IsInLoopThread (client_loop (SetAutoReconnect True waiting_client)) (SetAutoReconnect True waiting_client)"
    "m_client_started (client (SetAutoReconnect True waiting_client))" "m_cl_close_callback (client (SetAutoReconnect True waiting_client)) = None"
    by code_simp+
  with client_never_reconnects [of "SetAutoReconnect True waiting_client" example_timing greeter 4 waiting_client]
    waiting_client_facts(1) show ?thesis by (auto simp: SetAutoReconnect_def upd_client_def)
qed

end
