(* ===== verification/Async_Logger.thy ===== *)
theory Async_Logger
  imports Net_Address
begin

text \<open>
  The logger, \<open>src/logger.cpp\<close> and \<open>src/log_utils.cpp\<close>: any thread puts events in a queue under a
  mutex, one thread takes them out and hands them to the appenders, which write to the console and to
  files that change with the date.

  The threads interleave. A step of \<open>log_step\<close> is what one thread does between two points where
  others can interfere. A call of a log function tests the running flag and the level and builds the
  event; then it enters the queue; then it notifies. The log thread tests its wait predicate, falls asleep, takes
  an event, hands it to the appenders (they are touched by this thread only). \<open>Shutdown\<close>
  clears the flag, notifies, joins the thread, and empties the queue. \<open>disk\<close> holds the text of
  each file, \<open>today\<close> what \<open>GetCurrentDate\<close> gives and \<open>can_append\<close> which files open. The lists
  \<open>pushed\<close>, \<open>written\<close> (with the date the event was written on) and \<open>lost\<close> record the history.
\<close>

section \<open>Events\<close>

datatype LogLevel = DEBUG | INFO | WARN | ERROR | FATAL

fun level_rank :: "LogLevel \<Rightarrow> nat" where
  "level_rank DEBUG = 0"
| "level_rank INFO = 1"
| "level_rank WARN = 2"
| "level_rank ERROR = 3"
| "level_rank FATAL = 4"

lemma level_rank_inject: "level_rank x = level_rank y \<Longrightarrow> x = y"
  by (cases x; cases y) simp_all

instantiation LogLevel :: linorder
begin

definition less_eq_LogLevel :: "LogLevel \<Rightarrow> LogLevel \<Rightarrow> bool" where
  "less_eq_LogLevel x y \<longleftrightarrow> level_rank x \<le> level_rank y"

definition less_LogLevel :: "LogLevel \<Rightarrow> LogLevel \<Rightarrow> bool" where
  "less_LogLevel x y \<longleftrightarrow> level_rank x < level_rank y"

instance
  by standard (auto simp: less_eq_LogLevel_def less_LogLevel_def intro: level_rank_inject)

end

record LogEvent =
  level :: LogLevel
  log_content :: string
  time_str :: string
  timestamp :: int

fun LevelToString :: "LogLevel \<Rightarrow> string" where
  "LevelToString DEBUG = ''DEBUG''"
| "LevelToString INFO = ''INFO''"
| "LevelToString WARN = ''WARN''"
| "LevelToString ERROR = ''ERROR''"
| "LevelToString FATAL = ''FATAL''"

text \<open>
  The system clock gives \<open>now_ms\<close>; \<open>put_time\<close> is its local time in seconds as the library formats it.
\<close>

definition BuildLogMeta :: "(int \<Rightarrow> string) \<Rightarrow> int \<Rightarrow> LogEvent \<Rightarrow> LogEvent" where
  "BuildLogMeta put_time now_ms event =
     (let ms = to_string (now_ms mod 1000)
      in event\<lparr>timestamp := now_ms, time_str := put_time now_ms @ ''.'' @ replicate (3 - length ms) (CHR ''0'') @ ms\<rparr>)"

definition newline_char :: string where
  "newline_char = [char_of (10 :: nat)]"

definition log_line :: "LogEvent \<Rightarrow> string" where
  "log_line event =
     ''['' @ time_str event @ ''] '' @ ''['' @ LevelToString (level event) @ ''] '' @ log_content event @ newline_char"

section \<open>State\<close>

record file_appender =
  m_base_path :: string
  m_current_date :: string
  m_ofs :: "string option"

datatype appender = ConsoleAppender | FileAppender file_appender | ErrorFileAppender file_appender

datatype log_thread = Not_started | Looking | Falling_asleep | Asleep | Taking | Writing LogEvent | Relocking | Gone

datatype stop_pc = Stop_not_called | Stop_flagged | Stop_notified | Stop_joined

record logger =
  m_min_level :: LogLevel
  m_appenders :: "appender list"
  m_log_queue :: "LogEvent list"
  m_queue_mtx :: bool
  m_is_running :: bool
  m_log_thread :: log_thread
  stop_at :: stop_pc
  in_flight :: "LogEvent list"
  console :: string
  disk :: "string \<Rightarrow> string"
  today :: string
  can_append :: "string \<Rightarrow> bool"
  pushed :: "LogEvent list"
  written :: "(LogEvent \<times> string) list"
  lost :: "LogEvent list"

section \<open>Appenders\<close>

definition log_path :: "string \<Rightarrow> string \<Rightarrow> string" where
  "log_path base date = base @ ''.'' @ date @ ''.log''"

definition OpenNewLogFile :: "logger \<Rightarrow> file_appender \<Rightarrow> file_appender" where
  "OpenNewLogFile s f =
     (let full_path = log_path (m_base_path f) (m_current_date f)
      in f\<lparr>m_ofs := if can_append s full_path then Some full_path else None\<rparr>)"

definition new_file_appender :: "string \<Rightarrow> logger \<Rightarrow> file_appender" where
  "new_file_appender base_path s = OpenNewLogFile s \<lparr>m_base_path = base_path, m_current_date = today s, m_ofs = None\<rparr>"

definition CheckRollOver :: "logger \<Rightarrow> file_appender \<Rightarrow> file_appender" where
  "CheckRollOver s f =
     (if today s \<noteq> m_current_date f then OpenNewLogFile s (f\<lparr>m_ofs := None, m_current_date := today s\<rparr>) else f)"

definition append_file :: "LogEvent \<Rightarrow> file_appender \<Rightarrow> logger \<Rightarrow> file_appender \<times> logger" where
  "append_file event f s =
     (let f = CheckRollOver s f in
      case m_ofs f of
        Some path \<Rightarrow> (f, s\<lparr>disk := (disk s)(path := disk s path @ log_line event)\<rparr>)
      | None \<Rightarrow> (f, s))"

fun append_to :: "LogEvent \<Rightarrow> appender \<Rightarrow> logger \<Rightarrow> appender \<times> logger" where
  "append_to event ConsoleAppender s = (ConsoleAppender, s\<lparr>console := console s @ log_line event\<rparr>)"
| "append_to event (FileAppender f) s = (let (f, s) = append_file event f s in (FileAppender f, s))"
| "append_to event (ErrorFileAppender f) s =
     (if ERROR \<le> level event then let (f, s) = append_file event f s in (ErrorFileAppender f, s)
      else (ErrorFileAppender f, s))"

fun append_all :: "LogEvent \<Rightarrow> appender list \<Rightarrow> logger \<Rightarrow> appender list \<times> logger" where
  "append_all event [] s = ([], s)"
| "append_all event (a # as) s =
     (let (a, s) = append_to event a s; (as, s) = append_all event as s in (a # as, s))"

section \<open>The log thread\<close>

definition LogLoop_look :: "logger \<Rightarrow> logger option" where
  "LogLoop_look s =
     (if m_log_thread s = Looking \<and> \<not> m_queue_mtx s then
        if \<not> (m_log_queue s \<noteq> [] \<or> \<not> m_is_running s) then Some (s\<lparr>m_log_thread := Falling_asleep, m_queue_mtx := True\<rparr>)
        else if \<not> m_is_running s \<and> m_log_queue s = [] then Some (s\<lparr>m_log_thread := Gone\<rparr>)
        else Some (s\<lparr>m_log_thread := Taking, m_queue_mtx := True\<rparr>)
      else None)"

definition LogLoop_sleep :: "logger \<Rightarrow> logger option" where
  "LogLoop_sleep s =
     (if m_log_thread s = Falling_asleep then Some (s\<lparr>m_log_thread := Asleep, m_queue_mtx := False\<rparr>) else None)"

definition wake_logger :: "logger \<Rightarrow> logger" where
  "wake_logger s = (if m_log_thread s = Asleep then s\<lparr>m_log_thread := Looking\<rparr> else s)"

text \<open>The inner loop, which holds the mutex here: the next event, or the flush, and the end of the scope of the lock.\<close>

definition LogLoop_take :: "logger \<Rightarrow> logger option" where
  "LogLoop_take s =
     (if m_log_thread s = Taking then
        case m_log_queue s of
          [] \<Rightarrow> Some (s\<lparr>m_log_thread := Looking, m_queue_mtx := False\<rparr>)
        | event # rest \<Rightarrow> Some (s\<lparr>m_log_thread := Writing event, m_log_queue := rest, m_queue_mtx := False\<rparr>)
      else None)"

definition LogLoop_write :: "logger \<Rightarrow> logger option" where
  "LogLoop_write s =
     (case m_log_thread s of
        Writing event \<Rightarrow>
          let (as, s') = append_all event (m_appenders s) s
          in Some (s'\<lparr>m_appenders := as, m_log_thread := Relocking, written := written s @ [(event, today s)]\<rparr>)
      | _ \<Rightarrow> None)"

text \<open>The mutex is taken again after an event was written. Flushing changes nothing the model can see.\<close>

definition LogLoop_relock :: "logger \<Rightarrow> logger option" where
  "LogLoop_relock s =
     (if m_log_thread s = Relocking \<and> \<not> m_queue_mtx s then Some (s\<lparr>m_log_thread := Taking, m_queue_mtx := True\<rparr>) else None)"

section \<open>The interface\<close>

text \<open>The five log functions up to the lock: \<open>clock\<close> is the clock's reading with the formatted local time.\<close>

definition log_at :: "LogLevel \<Rightarrow> string \<Rightarrow> (int \<Rightarrow> string) \<times> int \<Rightarrow> logger \<Rightarrow> logger" where
  "log_at lv text clock s =
     (if \<not> m_is_running s then s
      else if m_min_level s \<le> lv then
        s\<lparr>in_flight := in_flight s @
          [BuildLogMeta (fst clock) (snd clock) \<lparr>level = lv, log_content = text, time_str = [], timestamp = 0\<rparr>]\<rparr>
      else s)"

definition Debug :: "string \<Rightarrow> (int \<Rightarrow> string) \<times> int \<Rightarrow> logger \<Rightarrow> logger" where "Debug = log_at DEBUG"
definition Info :: "string \<Rightarrow> (int \<Rightarrow> string) \<times> int \<Rightarrow> logger \<Rightarrow> logger" where "Info = log_at INFO"
definition Warn :: "string \<Rightarrow> (int \<Rightarrow> string) \<times> int \<Rightarrow> logger \<Rightarrow> logger" where "Warn = log_at WARN"
definition Error :: "string \<Rightarrow> (int \<Rightarrow> string) \<times> int \<Rightarrow> logger \<Rightarrow> logger" where "Error = log_at ERROR"
definition Fatal :: "string \<Rightarrow> (int \<Rightarrow> string) \<times> int \<Rightarrow> logger \<Rightarrow> logger" where "Fatal = log_at FATAL"

text \<open>
  The overloads in the style of \<open>printf\<close>: \<open>formatted\<close> is what the format and its arguments stand for, of
  which \<open>vsnprintf\<close> stores 4095 bytes; the string then ends at the first null byte.
\<close>

definition stored :: "string \<Rightarrow> string" where
  "stored formatted = takeWhile (\<lambda>c. c \<noteq> CHR 0x00) (take 4095 formatted)"

definition Debug_fmt :: "string \<Rightarrow> (int \<Rightarrow> string) \<times> int \<Rightarrow> logger \<Rightarrow> logger" where
  "Debug_fmt formatted = log_at DEBUG (stored formatted)"
definition Info_fmt :: "string \<Rightarrow> (int \<Rightarrow> string) \<times> int \<Rightarrow> logger \<Rightarrow> logger" where
  "Info_fmt formatted = log_at INFO (stored formatted)"
definition Warn_fmt :: "string \<Rightarrow> (int \<Rightarrow> string) \<times> int \<Rightarrow> logger \<Rightarrow> logger" where
  "Warn_fmt formatted = log_at WARN (stored formatted)"
definition Error_fmt :: "string \<Rightarrow> (int \<Rightarrow> string) \<times> int \<Rightarrow> logger \<Rightarrow> logger" where
  "Error_fmt formatted = log_at ERROR (stored formatted)"
definition Fatal_fmt :: "string \<Rightarrow> (int \<Rightarrow> string) \<times> int \<Rightarrow> logger \<Rightarrow> logger" where
  "Fatal_fmt formatted = log_at FATAL (stored formatted)"

text \<open>The locked part: some thread that has built its event enters it in the queue.\<close>

definition log_push :: "nat \<Rightarrow> logger \<Rightarrow> logger option" where
  "log_push i s =
     (if i < length (in_flight s) \<and> \<not> m_queue_mtx s then
        Some (s\<lparr>m_log_queue := m_log_queue s @ [in_flight s ! i], pushed := pushed s @ [in_flight s ! i],
                in_flight := take i (in_flight s) @ drop (Suc i) (in_flight s)\<rparr>)
      else None)"

definition SetMinLevel :: "LogLevel \<Rightarrow> logger \<Rightarrow> logger" where
  "SetMinLevel lv s = s\<lparr>m_min_level := lv\<rparr>"

definition GetMinLevel :: "logger \<Rightarrow> LogLevel" where
  "GetMinLevel s = m_min_level s"

definition AddAppender :: "appender \<Rightarrow> logger \<Rightarrow> logger" where
  "AddAppender a s = s\<lparr>m_appenders := m_appenders s @ [a]\<rparr>"

text \<open>The logger before \<open>Init\<close>, on a given day, with the files there are.\<close>

definition Logger :: "string \<Rightarrow> (string \<Rightarrow> string) \<Rightarrow> (string \<Rightarrow> bool) \<Rightarrow> logger" where
  "Logger day files opens =
     \<lparr>m_min_level = DEBUG, m_appenders = [], m_log_queue = [], m_queue_mtx = False, m_is_running = False,
      m_log_thread = Not_started, stop_at = Stop_not_called, in_flight = [], console = [], disk = files, today = day,
      can_append = opens, pushed = [], written = [], lost = []\<rparr>"

definition Init :: "LogLevel \<Rightarrow> string \<Rightarrow> logger \<Rightarrow> logger" where
  "Init min_level log_base_path s =
     (let s = s\<lparr>m_min_level := min_level, m_is_running := True\<rparr>;
          s = AddAppender ConsoleAppender s;
          s = AddAppender (FileAppender (new_file_appender (log_base_path @ ''/tcframe'') s)) s;
          s = AddAppender (ErrorFileAppender (new_file_appender (log_base_path @ ''/tcframe.error'') s)) s
      in s\<lparr>m_log_thread := Looking\<rparr>)"

text \<open>\<open>Shutdown\<close>: the flag; the notification; after the join, the rest.\<close>

definition Shutdown_begin :: "logger \<Rightarrow> logger" where
  "Shutdown_begin s = s\<lparr>m_is_running := False, stop_at := Stop_flagged\<rparr>"

definition Shutdown_notify :: "logger \<Rightarrow> logger" where
  "Shutdown_notify s = (wake_logger s)\<lparr>stop_at := Stop_notified\<rparr>"

definition Shutdown_end :: "logger \<Rightarrow> logger option" where
  "Shutdown_end s =
     (if stop_at s = Stop_notified \<and> (m_log_thread s = Gone \<or> m_log_thread s = Not_started) \<and> \<not> m_queue_mtx s then
        Some (s\<lparr>lost := lost s @ m_log_queue s, m_log_queue := [], m_appenders := [], stop_at := Stop_joined\<rparr>)
      else None)"

section \<open>Interleaving\<close>

text \<open>A day has a date of ten characters. Threads may notify, and waits end, at any time.\<close>

inductive log_step :: "logger \<Rightarrow> logger \<Rightarrow> bool" where
  step_log: "log_step s (log_at lv text clock s)"
| step_push: "log_push i s = Some s' \<Longrightarrow> log_step s s'"
| step_wake: "log_step s (wake_logger s)"
| step_look: "LogLoop_look s = Some s' \<Longrightarrow> log_step s s'"
| step_sleep: "LogLoop_sleep s = Some s' \<Longrightarrow> log_step s s'"
| step_take: "LogLoop_take s = Some s' \<Longrightarrow> log_step s s'"
| step_write: "LogLoop_write s = Some s' \<Longrightarrow> log_step s s'"
| step_relock: "LogLoop_relock s = Some s' \<Longrightarrow> log_step s s'"
| step_level: "log_step s (SetMinLevel lv s)"
| step_day: "length d = 10 \<Longrightarrow> log_step s (s\<lparr>today := d\<rparr>)"
| step_begin: "stop_at s = Stop_not_called \<Longrightarrow> log_step s (Shutdown_begin s)"
| step_notify: "stop_at s = Stop_flagged \<Longrightarrow> log_step s (Shutdown_notify s)"
| step_end: "Shutdown_end s = Some s' \<Longrightarrow> log_step s s'"

abbreviation log_run :: "logger \<Rightarrow> logger \<Rightarrow> bool" where
  "log_run \<equiv> log_step\<^sup>*\<^sup>*"

lemmas log_step_defs = log_at_def log_push_def wake_logger_def LogLoop_look_def LogLoop_sleep_def LogLoop_take_def
  LogLoop_relock_def SetMinLevel_def Shutdown_begin_def Shutdown_notify_def Shutdown_end_def

section \<open>What is written\<close>

definition being_written :: "logger \<Rightarrow> LogEvent list" where
  "being_written s = (case m_log_thread s of Writing event \<Rightarrow> [event] | _ \<Rightarrow> [])"

definition lines_of :: "(LogEvent \<times> string \<Rightarrow> bool) \<Rightarrow> logger \<Rightarrow> string" where
  "lines_of P s = concat (map (log_line \<circ> fst) (filter P (written s)))"

definition open_file :: "string \<Rightarrow> file_appender \<Rightarrow> bool" where
  "open_file base f \<longleftrightarrow> m_base_path f = base \<and> length (m_current_date f) = 10 \<and> m_ofs f = Some (log_path base (m_current_date f))"

definition output_ok :: "string \<Rightarrow> (string \<Rightarrow> string) \<Rightarrow> logger \<Rightarrow> bool" where
  "output_ok base files s \<longleftrightarrow>
     console s = lines_of (\<lambda>_. True) s \<and>
     (\<forall>d. length d = 10 \<longrightarrow>
        disk s (log_path (base @ ''/tcframe'') d) = files (log_path (base @ ''/tcframe'') d) @ lines_of (\<lambda>(e, d'). d' = d) s \<and>
        disk s (log_path (base @ ''/tcframe.error'') d) =
          files (log_path (base @ ''/tcframe.error'') d) @ lines_of (\<lambda>(e, d'). d' = d \<and> ERROR \<le> level e) s)"

lemma output_ok_simps [simp]:
  "output_ok base files (s\<lparr>m_min_level := a\<rparr>) = output_ok base files s"
  "output_ok base files (s\<lparr>m_appenders := b\<rparr>) = output_ok base files s"
  "output_ok base files (s\<lparr>m_log_queue := c\<rparr>) = output_ok base files s"
  "output_ok base files (s\<lparr>m_queue_mtx := d\<rparr>) = output_ok base files s"
  "output_ok base files (s\<lparr>m_is_running := e\<rparr>) = output_ok base files s"
  "output_ok base files (s\<lparr>m_log_thread := f\<rparr>) = output_ok base files s"
  "output_ok base files (s\<lparr>stop_at := g\<rparr>) = output_ok base files s"
  "output_ok base files (s\<lparr>in_flight := h\<rparr>) = output_ok base files s"
  "output_ok base files (s\<lparr>today := i\<rparr>) = output_ok base files s"
  "output_ok base files (s\<lparr>pushed := j\<rparr>) = output_ok base files s"
  "output_ok base files (s\<lparr>lost := k\<rparr>) = output_ok base files s"
  by (simp_all add: output_ok_def lines_of_def)

definition default_appenders :: "string \<Rightarrow> appender list \<Rightarrow> bool" where
  "default_appenders base as \<longleftrightarrow>
     (\<exists>f g. as = [ConsoleAppender, FileAppender f, ErrorFileAppender g] \<and>
        open_file (base @ ''/tcframe'') f \<and> open_file (base @ ''/tcframe.error'') g)"

definition log_inv :: "string \<Rightarrow> (string \<Rightarrow> string) \<Rightarrow> logger \<Rightarrow> bool" where
  "log_inv base files s \<longleftrightarrow>
     pushed s = map fst (written s) @ being_written s @ lost s @ m_log_queue s \<and>
     (stop_at s \<noteq> Stop_joined \<longrightarrow> lost s = [] \<and> default_appenders base (m_appenders s)) \<and>
     (stop_at s = Stop_joined \<longrightarrow> m_log_thread s = Gone) \<and> m_log_thread s \<noteq> Not_started \<and>
     (m_log_thread s = Gone \<longrightarrow> \<not> m_is_running s) \<and> (m_is_running s \<longrightarrow> stop_at s = Stop_not_called) \<and>
     length (today s) = 10 \<and> (\<forall>p. can_append s p) \<and> output_ok base files s"

lemma log_path_inject [simp]: "log_path base d = log_path base d' \<longleftrightarrow> d = d'"
  by (simp add: log_path_def)

lemma log_path_error:
  assumes "length d = 10" and "length d' = 10"
  shows "log_path (base @ ''/tcframe'') d \<noteq> log_path (base @ ''/tcframe.error'') d'"
proof
  assume "log_path (base @ ''/tcframe'') d = log_path (base @ ''/tcframe.error'') d'"
  then have "length (log_path (base @ ''/tcframe'') d) = length (log_path (base @ ''/tcframe.error'') d')" by simp
  with assms show False by (simp add: log_path_def)
qed

lemma log_inv_Init:
  assumes "length day = 10"
  shows "log_inv base files (Init lv base (Logger day files (\<lambda>_. True)))"
  using assms
  by (simp add: log_inv_def Init_def Logger_def AddAppender_def new_file_appender_def OpenNewLogFile_def open_file_def
      being_written_def lines_of_def Let_def output_ok_def default_appenders_def)

lemma append_file_open:
  assumes "open_file base f" and "\<forall>p. can_append s p" and "length (today s) = 10"
  shows "\<exists>f'. open_file base f' \<and> append_file e f s =
    (f', s\<lparr>disk := (disk s)(log_path base (today s) := disk s (log_path base (today s)) @ log_line e)\<rparr>)"
  using assms
  by (intro exI [of _ "CheckRollOver s f"])
    (auto simp: append_file_def CheckRollOver_def OpenNewLogFile_def open_file_def Let_def)

lemma lines_of_snoc:
  "lines_of P (s\<lparr>written := written s @ [x]\<rparr>) = lines_of P s @ (if P x then log_line (fst x) else [])"
  by (simp add: lines_of_def)

lemma lines_of_cong: "written s' = written s \<Longrightarrow> lines_of P s' = lines_of P s"
  by (simp add: lines_of_def)

lemma append_all_default:
  assumes f: "open_file (base @ ''/tcframe'') f" and g: "open_file (base @ ''/tcframe.error'') g"
    and can: "\<forall>p. can_append s p" and day: "length (today s) = 10"
  shows "\<exists>f' g' d'. open_file (base @ ''/tcframe'') f' \<and> open_file (base @ ''/tcframe.error'') g' \<and>
    append_all e [ConsoleAppender, FileAppender f, ErrorFileAppender g] s =
      ([ConsoleAppender, FileAppender f', ErrorFileAppender g'], s\<lparr>console := console s @ log_line e, disk := d'\<rparr>) \<and>
    (\<forall>d. length d = 10 \<longrightarrow>
      d' (log_path (base @ ''/tcframe'') d) =
        disk s (log_path (base @ ''/tcframe'') d) @ (if d = today s then log_line e else []) \<and>
      d' (log_path (base @ ''/tcframe.error'') d) =
        disk s (log_path (base @ ''/tcframe.error'') d) @ (if d = today s \<and> ERROR \<le> level e then log_line e else []))"
proof -
  let ?s1 = "s\<lparr>console := console s @ log_line e\<rparr>" and ?p = "log_path (base @ ''/tcframe'')"
    and ?q = "log_path (base @ ''/tcframe.error'')"
  from append_file_open [OF f, of ?s1 e] can day obtain f' where f': "open_file (base @ ''/tcframe'') f'"
    "append_file e f ?s1 = (f', ?s1\<lparr>disk := (disk s)(?p (today s) := disk s (?p (today s)) @ log_line e)\<rparr>)" by auto
  let ?s2 = "?s1\<lparr>disk := (disk s)(?p (today s) := disk s (?p (today s)) @ log_line e)\<rparr>"
  from append_file_open [OF g, of ?s2 e] can day obtain g' where g': "open_file (base @ ''/tcframe.error'') g'"
    "append_file e g ?s2 = (g', ?s2\<lparr>disk := (disk ?s2)(?q (today s) := disk ?s2 (?q (today s)) @ log_line e)\<rparr>)" by auto
  note apart = log_path_error [of _ _ base] log_path_error [of _ _ base, symmetric]
  show ?thesis
  proof (cases "ERROR \<le> level e")
    case True
    then show ?thesis
      using f' g' day
      by (intro exI [of _ f'] exI [of _ g'] exI [of _ "(disk ?s2)(?q (today s) := disk ?s2 (?q (today s)) @ log_line e)"])
        (auto simp: apart)
  next
    case False
    then show ?thesis
      using f' g day
      by (intro exI [of _ f'] exI [of _ g] exI [of _ "disk ?s2"]) (auto simp: apart)
  qed
qed

lemma log_inv_write:
  assumes inv: "log_inv base files s" and step: "LogLoop_write s = Some s'"
  shows "log_inv base files s'"
proof -
  from step obtain e as s1 where e: "m_log_thread s = Writing e" and all: "append_all e (m_appenders s) s = (as, s1)"
    and s': "s' = s1\<lparr>m_appenders := as, m_log_thread := Relocking, written := written s @ [(e, today s)]\<rparr>"
    by (auto simp: LogLoop_write_def split: log_thread.splits prod.splits)
  from inv e have stop: "stop_at s \<noteq> Stop_joined" by (auto simp: log_inv_def)
  with inv obtain f g where fg: "m_appenders s = [ConsoleAppender, FileAppender f, ErrorFileAppender g]"
    "open_file (base @ ''/tcframe'') f" "open_file (base @ ''/tcframe.error'') g" by (auto simp: log_inv_def default_appenders_def)
  have "\<forall>p. can_append s p" "length (today s) = 10" using inv by (simp_all add: log_inv_def)
  from append_all_default [OF fg(2,3) this, of e] obtain f' g' d' where
    fg': "open_file (base @ ''/tcframe'') f'" "open_file (base @ ''/tcframe.error'') g'"
    and eq: "as = [ConsoleAppender, FileAppender f', ErrorFileAppender g']" "s1 = s\<lparr>console := console s @ log_line e, disk := d'\<rparr>"
    and d': "\<forall>d. length d = 10 \<longrightarrow>
      d' (log_path (base @ ''/tcframe'') d) =
        disk s (log_path (base @ ''/tcframe'') d) @ (if d = today s then log_line e else []) \<and>
      d' (log_path (base @ ''/tcframe.error'') d) =
        disk s (log_path (base @ ''/tcframe.error'') d) @ (if d = today s \<and> ERROR \<le> level e then log_line e else [])"
    using all fg(1) by auto
  have lines: "lines_of P s' = lines_of P s @ (if P (e, today s) then log_line e else [])" for P
    by (simp add: s' eq lines_of_def)
  have out: "output_ok base files s" using inv by (simp add: log_inv_def)
  then have "output_ok base files s'"
    using d' unfolding output_ok_def lines by (simp add: s' eq)
  moreover have "pushed s' = map fst (written s') @ being_written s' @ lost s' @ m_log_queue s'"
    using inv e by (simp add: s' eq log_inv_def being_written_def)
  ultimately show ?thesis
    using inv e fg' stop by (simp add: log_inv_def s' eq default_appenders_def)
qed

lemma log_inv_step: "log_step s s' \<Longrightarrow> log_inv base files s \<Longrightarrow> log_inv base files s'"
proof (induction rule: log_step.induct)
  case (step_write s s')
  from log_inv_write [OF this(2,1)] show ?case .
next
  case (step_push i s s')
  then show ?case by (auto simp: log_push_def log_inv_def being_written_def split: if_splits)
next
  case (step_take s s')
  then show ?case
    by (auto simp: LogLoop_take_def log_inv_def being_written_def split: if_splits list.splits)
next
  case (step_end s s')
  then show ?case by (auto simp: Shutdown_end_def log_inv_def being_written_def split: if_splits)
qed (auto simp: log_inv_def being_written_def log_at_def wake_logger_def LogLoop_look_def LogLoop_sleep_def
    LogLoop_relock_def SetMinLevel_def Shutdown_begin_def Shutdown_notify_def split: if_splits
   )

lemma log_run_inv: "log_run s s' \<Longrightarrow> log_inv base files s \<Longrightarrow> log_inv base files s'"
  by (induction rule: rtranclp_induct) (auto intro: log_inv_step)

section \<open>Shutting down\<close>

text \<open>Between \<open>Shutdown\<close> and its end, when no call of a log function was under way.\<close>

definition draining :: "logger \<Rightarrow> bool" where
  "draining s \<longleftrightarrow> \<not> m_is_running s \<and> in_flight s = [] \<and> stop_at s \<noteq> Stop_not_called \<and> lost s = [] \<and>
     m_log_thread s \<noteq> Not_started \<and> (m_log_thread s = Gone \<longrightarrow> m_log_queue s = []) \<and>
     (stop_at s = Stop_joined \<longrightarrow> m_log_thread s = Gone)"

lemma append_to_frame:
  assumes "append_to e a s = (a', s')"
  shows "s' = s\<lparr>console := console s', disk := disk s'\<rparr>"
  using assms by (cases a) (auto simp: append_file_def Let_def split: if_splits option.splits)

lemma append_all_frame: "append_all e as s = (as', s') \<Longrightarrow> s' = s\<lparr>console := console s', disk := disk s'\<rparr>"
proof (induction as arbitrary: s as' s')
  case Nil
  then show ?case by simp
next
  case (Cons a as)
  from Cons.prems obtain b s1 bs where 1: "append_to e a s = (b, s1)" and 2: "append_all e as s1 = (bs, s')"
    by (auto split: prod.splits)
  obtain x y where s1: "s1 = s\<lparr>console := x, disk := y\<rparr>" using append_to_frame [OF 1] by blast
  obtain x' y' where "s' = s1\<lparr>console := x', disk := y'\<rparr>" using Cons.IH [OF 2] by blast
  then show ?case by (simp add: s1)
qed

lemma draining_step: "log_step s s' \<Longrightarrow> draining s \<Longrightarrow> draining s'"
proof (induction rule: log_step.induct)
  case (step_write s s')
  then obtain e as s1 where e: "m_log_thread s = Writing e" and all: "append_all e (m_appenders s) s = (as, s1)"
    and s': "s' = s1\<lparr>m_appenders := as, m_log_thread := Relocking, written := written s @ [(e, today s)]\<rparr>"
    by (auto simp: LogLoop_write_def split: log_thread.splits prod.splits)
  from append_all_frame [OF all] obtain x y where "s1 = s\<lparr>console := x, disk := y\<rparr>" by blast
  with step_write(2) e s' show ?case by (auto simp: draining_def)
next
  case (step_take s s')
  then show ?case by (auto simp: LogLoop_take_def draining_def split: if_splits list.splits)
qed (auto simp: draining_def log_step_defs split: if_splits)

section \<open>An example\<close>

text \<open>An error is logged, then the logger is shut down.\<close>

fun script :: "(logger \<Rightarrow> logger option) list \<Rightarrow> logger \<Rightarrow> logger option" where
  "script [] s = Some s"
| "script (f # fs) s = (case f s of None \<Rightarrow> None | Some s' \<Rightarrow> script fs s')"

lemma script_run:
  "script fs s = Some s' \<Longrightarrow> \<forall>f \<in> set fs. \<forall>u v. f u = Some v \<longrightarrow> log_step u v \<Longrightarrow> log_run s s'"
proof (induction fs arbitrary: s)
  case Nil
  then show ?case by simp
next
  case (Cons f fs)
  then obtain u where u: "f s = Some u" "script fs u = Some s'" by (auto split: option.splits)
  have "log_step s u" using Cons.prems(2) u(1) by simp
  moreover have "log_run u s'" using Cons.IH [OF u(2)] Cons.prems(2) by simp
  ultimately show ?case by (rule converse_rtranclp_into_rtranclp)
qed

definition example_logger :: logger where
  "example_logger = Init INFO ''logs'' (Logger ''2026-03-16'' (\<lambda>_. []) (\<lambda>_. True))"

definition boom_script :: "(logger \<Rightarrow> logger option) list" where
  "boom_script = [\<lambda>s. Some (log_at ERROR ''boom'' (\<lambda>_. ''now'', 5) s), log_push 0, LogLoop_look, LogLoop_take, LogLoop_write,
     LogLoop_relock, LogLoop_take]"

definition stop_script :: "(logger \<Rightarrow> logger option) list" where
  "stop_script = [\<lambda>s. if stop_at s = Stop_flagged then Some (Shutdown_notify s) else None, LogLoop_look, Shutdown_end]"

lemma script_steps:
  "\<forall>f \<in> set boom_script. \<forall>u v. f u = Some v \<longrightarrow> log_step u v" "\<forall>f \<in> set stop_script. \<forall>u v. f u = Some v \<longrightarrow> log_step u v"
  by (auto simp: boom_script_def stop_script_def split: if_splits
      intro: step_log step_push step_look step_take step_write step_relock step_notify step_end)

lemma example_runs:
  obtains s0 s where "log_run example_logger s0" "m_is_running s0" "in_flight s0 = []"
    "log_run (Shutdown_begin s0) s" "stop_at s = Stop_joined" "pushed s \<noteq> []"
    "disk s0 ''logs/tcframe.error.2026-03-16.log'' \<noteq> []"
proof -
  have "case script boom_script example_logger of None \<Rightarrow> False | Some s0 \<Rightarrow> m_is_running s0 \<and> in_flight s0 = [] \<and>
      disk s0 ''logs/tcframe.error.2026-03-16.log'' \<noteq> [] \<and>
      (case script stop_script (Shutdown_begin s0) of None \<Rightarrow> False | Some s \<Rightarrow> stop_at s = Stop_joined \<and> pushed s \<noteq> [])"
    by code_simp
  then obtain s0 s where "script boom_script example_logger = Some s0" "m_is_running s0" "in_flight s0 = []"
    "disk s0 ''logs/tcframe.error.2026-03-16.log'' \<noteq> []" "script stop_script (Shutdown_begin s0) = Some s"
    "stop_at s = Stop_joined" "pushed s \<noteq> []" by (auto split: option.splits)
  then show ?thesis using that script_run [OF _ script_steps(1)] script_run [OF _ script_steps(2)] by metis
qed

section \<open>Properties\<close>



text \<open>C19 (\<open>Shutdown\<close> drains the log). If no call of a log function is under way when \<open>Shutdown\<close> is called, then, when it returns,
  every event that ever entered the queue has been written.\<close>

theorem shutdown_drains_log:
  assumes "length day = 10" and "log_run (Init lv base (Logger day files (\<lambda>_. True))) s0"
    and "m_is_running s0" and "in_flight s0 = []"
    and "log_run (Shutdown_begin s0) s" and "stop_at s = Stop_joined"
  shows "map fst (written s) = pushed s"
proof -
  have inv0: "log_inv base files s0" using log_run_inv [OF assms(2) log_inv_Init [OF assms(1)]] .
  with assms(3,4) have "draining (Shutdown_begin s0)" by (auto simp: draining_def Shutdown_begin_def log_inv_def)
  with assms(5) have "draining s" by (induction rule: rtranclp_induct) (auto intro: draining_step)
  then have gone: "lost s = []" "m_log_thread s = Gone" "m_log_queue s = []" using assms(6) by (auto simp: draining_def)
  have "log_step s0 (Shutdown_begin s0)" using inv0 assms(3) by (auto simp: log_inv_def intro: step_begin)
  with assms(2,5) have "log_run (Init lv base (Logger day files (\<lambda>_. True))) s"
    by (meson rtranclp.rtrancl_into_rtrancl rtranclp_trans)
  from log_run_inv [OF this log_inv_Init [OF assms(1)]] gone show ?thesis by (simp add: log_inv_def being_written_def)
qed

theorem shutdown_drains_log_witness:
  "\<exists>s0 s. log_run example_logger s0 \<and> log_run (Shutdown_begin s0) s \<and> stop_at s = Stop_joined \<and>
     pushed s \<noteq> [] \<and> map fst (written s) = pushed s"
proof -
  obtain s0 s where run: "log_run example_logger s0" "m_is_running s0" "in_flight s0 = []"
    "log_run (Shutdown_begin s0) s" "stop_at s = Stop_joined" "pushed s \<noteq> []" by (rule example_runs)
  with shutdown_drains_log [of "''2026-03-16''" INFO "''logs''" "\<lambda>_. []" s0 s] show ?thesis
    by (auto simp: example_logger_def)
qed

end
